(* ===== verification/Prelude.thy ===== *)
theory Prelude
  imports Main "HOL-Library.Word"
begin

text \<open>
  The vocabulary every component shares: the outcome type of a C function, the
  state-and-abort monad in which the functions are written, the total-correctness
  predicate \<open>wp\<close> with its rules, the C \<open>for\<close> loop with an early return, and lemmas
  on writing a run of elements into a list.
\<close>

type_synonym byte = "8 word"
type_synonym u64 = "64 word"
type_synonym u32 = "32 word"

section \<open>Outcomes\<close>

text \<open>
  A call that does not return leaves one of these: \<open>Panic\<close> is a failed
  \<open>ALWAYS_ASSERT\<close> (the process prints the message and exits), \<open>Undef\<close> an access
  outside an object or another operation whose behaviour C leaves undefined, \<open>Blocked\<close>
  a wait that nothing in the call itself can end (a mutex that is already held, a
  read of a pipe that has no more input), \<open>Exit\<close> the end of the process by \<open>exit\<close>.
\<close>

datatype abort = Panic string | Undef | Blocked | Exit int

type_synonym ('s, 'a) prog = "'s \<Rightarrow> abort + ('a \<times> 's)"

definition ret :: "'a \<Rightarrow> ('s, 'a) prog" where
  "ret x = (\<lambda>s. Inr (x, s))"

definition stop :: "abort \<Rightarrow> ('s, 'a) prog" where
  "stop a = (\<lambda>s. Inl a)"

definition bind :: "('s, 'a) prog \<Rightarrow> ('a \<Rightarrow> ('s, 'b) prog) \<Rightarrow> ('s, 'b) prog" where
  "bind m f = (\<lambda>s. case m s of Inl a \<Rightarrow> Inl a | Inr (x, s') \<Rightarrow> f x s')"

definition andthen :: "('s, unit) prog \<Rightarrow> ('s, 'b) prog \<Rightarrow> ('s, 'b) prog" where
  "andthen m n = bind m (\<lambda>_. n)"

definition gets :: "('s \<Rightarrow> 'a) \<Rightarrow> ('s, 'a) prog" where
  "gets f = (\<lambda>s. Inr (f s, s))"

definition modify :: "('s \<Rightarrow> 's) \<Rightarrow> ('s, unit) prog" where
  "modify f = (\<lambda>s. Inr ((), f s))"

text \<open>The macro \<open>ALWAYS_ASSERT\<close> of utils/betterassert.h.\<close>

definition always_assert :: "bool \<Rightarrow> string \<Rightarrow> ('s, unit) prog" where
  "always_assert c msg = (if c then ret () else stop (Panic msg))"

text \<open>An element of an allocated array; outside the array, or of \<open>NULL\<close>, it is undefined.\<close>

definition rd :: "('s \<Rightarrow> 'a list option) \<Rightarrow> nat \<Rightarrow> ('s, 'a) prog" where
  "rd arr i = (\<lambda>s. case arr s of None \<Rightarrow> Inl Undef
     | Some xs \<Rightarrow> if i < length xs then Inr (xs ! i, s) else Inl Undef)"

definition wr :: "('s \<Rightarrow> 'a list option) \<Rightarrow> (('a list option \<Rightarrow> 'a list option) \<Rightarrow> 's \<Rightarrow> 's)
    \<Rightarrow> nat \<Rightarrow> 'a \<Rightarrow> ('s, unit) prog" where
  "wr arr upd i v = (\<lambda>s. case arr s of None \<Rightarrow> Inl Undef
     | Some xs \<Rightarrow> if i < length xs then Inr ((), upd (\<lambda>_. Some (xs[i := v])) s) else Inl Undef)"

text \<open>A program on a part of the state.\<close>

definition zoom :: "('s \<Rightarrow> 't) \<Rightarrow> (('t \<Rightarrow> 't) \<Rightarrow> 's \<Rightarrow> 's) \<Rightarrow> ('t, 'a) prog \<Rightarrow> ('s, 'a) prog" where
  "zoom get upd m = (\<lambda>s. case m (get s) of Inl a \<Rightarrow> Inl a | Inr (x, t) \<Rightarrow> Inr (x, upd (\<lambda>_. t) s))"

text \<open>A value that C obtains from the memory functions, which may be undefined.\<close>

definition defined :: "'a option \<Rightarrow> ('s, 'a) prog" where
  "defined x = (case x of None \<Rightarrow> stop Undef | Some v \<Rightarrow> ret v)"

text \<open>
  \<open>for (i = lo; i < hi; i++) body\<close> where the body may leave the function with a
  result (\<open>Some\<close>) or go on (\<open>None\<close>); \<open>None\<close> in the end when no iteration returned.
\<close>

function for_ret :: "nat \<Rightarrow> nat \<Rightarrow> (nat \<Rightarrow> ('s, 'a option) prog) \<Rightarrow> ('s, 'a option) prog" where
  "for_ret lo hi body =
     (if lo < hi then
        bind (body lo) (\<lambda>r. case r of Some v \<Rightarrow> ret (Some v) | None \<Rightarrow> for_ret (Suc lo) hi body)
      else ret None)"
  by pat_completeness auto
termination
  by (relation "measure (\<lambda>(lo, hi, body). hi - lo)") auto

declare for_ret.simps [simp del]

section \<open>Computing with programs\<close>

named_theorems prog_simps "evaluation of the program combinators at a state"

lemma ret_app [prog_simps]: "ret x s = Inr (x, s)"
  by (simp add: ret_def)

lemma stop_app [prog_simps]: "stop a s = Inl a"
  by (simp add: stop_def)

lemma bind_app [prog_simps]:
  "bind m f s = (case m s of Inl a \<Rightarrow> Inl a | Inr (x, s') \<Rightarrow> f x s')"
  by (simp add: bind_def)

lemma andthen_app [prog_simps]:
  "andthen m n s = (case m s of Inl a \<Rightarrow> Inl a | Inr (_, s') \<Rightarrow> n s')"
  by (simp add: andthen_def bind_def)

lemma gets_app [prog_simps]: "gets f s = Inr (f s, s)"
  by (simp add: gets_def)

lemma modify_app [prog_simps]: "modify f s = Inr ((), f s)"
  by (simp add: modify_def)

lemma always_assert_app [prog_simps]:
  "always_assert c msg s = (if c then Inr ((), s) else Inl (Panic msg))"
  by (simp add: always_assert_def ret_def stop_def)

lemma defined_app [prog_simps]:
  "defined x s = (case x of None \<Rightarrow> Inl Undef | Some v \<Rightarrow> Inr (v, s))"
  by (simp add: defined_def ret_def stop_def split: option.splits)

lemma rd_app [prog_simps]:
  "arr s = Some xs \<Longrightarrow> i < length xs \<Longrightarrow> rd arr i s = Inr (xs ! i, s)"
  by (simp add: rd_def)

lemma wr_app [prog_simps]:
  "arr s = Some xs \<Longrightarrow> i < length xs \<Longrightarrow> wr arr upd i v s = Inr ((), upd (\<lambda>_. Some (xs[i := v])) s)"
  by (simp add: wr_def)

section \<open>Total correctness\<close>

text \<open>
  \<open>wp m Q s\<close>: from state \<open>s\<close> the call \<open>m\<close> returns (it neither panics, nor runs into
  undefined behaviour, nor blocks), and its result and final state satisfy \<open>Q\<close>.
\<close>

definition wp :: "('s, 'a) prog \<Rightarrow> ('a \<Rightarrow> 's \<Rightarrow> bool) \<Rightarrow> 's \<Rightarrow> bool" where
  "wp m Q s \<longleftrightarrow> (case m s of Inl a \<Rightarrow> False | Inr (x, s') \<Rightarrow> Q x s')"

named_theorems wp_simps "the weakest precondition of each combinator"

lemma wp_iff: "wp m Q s \<longleftrightarrow> (\<exists>x s'. m s = Inr (x, s') \<and> Q x s')"
  by (auto simp: wp_def split: sum.splits)

lemma wp_mono: "wp m Q s \<Longrightarrow> (\<And>x s'. Q x s' \<Longrightarrow> R x s') \<Longrightarrow> wp m R s"
  by (auto simp: wp_iff)

lemma wpI: "m s = Inr (x, s') \<Longrightarrow> Q x s' \<Longrightarrow> wp m Q s"
  by (simp add: wp_def)

lemma wp_conj: "wp m Q s \<Longrightarrow> wp m R s \<Longrightarrow> wp m (\<lambda>x s'. Q x s' \<and> R x s') s"
  by (auto simp: wp_iff)

lemma wp_ret [wp_simps]: "wp (ret x) Q s \<longleftrightarrow> Q x s"
  by (simp add: wp_def ret_def)

lemma wp_bind [wp_simps]: "wp (bind m f) Q s \<longleftrightarrow> wp m (\<lambda>x. wp (f x) Q) s"
  by (auto simp: wp_def bind_def split: sum.splits)

lemma wp_andthen [wp_simps]: "wp (andthen m n) Q s \<longleftrightarrow> wp m (\<lambda>_. wp n Q) s"
  by (simp add: andthen_def wp_bind)

lemma wp_gets [wp_simps]: "wp (gets f) Q s \<longleftrightarrow> Q (f s) s"
  by (simp add: wp_def gets_def)

lemma wp_modify [wp_simps]: "wp (modify f) Q s \<longleftrightarrow> Q () (f s)"
  by (simp add: wp_def modify_def)

lemma wp_stop [wp_simps]: "\<not> wp (stop a) Q s"
  by (simp add: wp_def stop_def)

lemma wp_if [wp_simps]: "wp (if c then m else n) Q s \<longleftrightarrow> (if c then wp m Q s else wp n Q s)"
  by simp

lemma wp_always_assert [wp_simps]: "wp (always_assert c msg) Q s \<longleftrightarrow> c \<and> Q () s"
  by (simp add: wp_def always_assert_app)

lemma wp_defined [wp_simps]: "wp (defined x) Q s \<longleftrightarrow> (\<exists>v. x = Some v \<and> Q v s)"
  by (simp add: wp_def defined_app split: option.splits)

lemma wp_rd [wp_simps]:
  "wp (rd arr i) Q s \<longleftrightarrow> (\<exists>xs. arr s = Some xs \<and> i < length xs \<and> Q (xs ! i) s)"
  by (simp add: wp_def rd_def split: option.splits)

lemma wp_wr [wp_simps]:
  "wp (wr arr upd i v) Q s \<longleftrightarrow>
     (\<exists>xs. arr s = Some xs \<and> i < length xs \<and> Q () (upd (\<lambda>_. Some (xs[i := v])) s))"
  by (simp add: wp_def wr_def split: option.splits)

lemma wp_zoom [wp_simps]: "wp (zoom get upd m) Q s \<longleftrightarrow> wp m (\<lambda>x t. Q x (upd (\<lambda>_. t) s)) (get s)"
  by (auto simp: wp_def zoom_def split: sum.splits)

text \<open>The first two again as equations of predicates, for use under a binder.\<close>

lemma wp_bind_fun: "wp (bind m f) Q = wp m (\<lambda>x. wp (f x) Q)"
  by (rule ext) (rule wp_bind)

lemma wp_ret_fun: "wp (ret x) Q = Q x"
  by (rule ext) (rule wp_ret)

section \<open>Loops\<close>

text \<open>The loop returns at the first index whose body returns, when the earlier ones change nothing.\<close>

lemma for_ret_hit:
  assumes "lo \<le> k" "k < hi"
    and "\<And>j. lo \<le> j \<Longrightarrow> j < k \<Longrightarrow> body j s = Inr (None, s)"
    and "body k s = Inr (Some v, s')"
  shows "for_ret lo hi body s = Inr (Some v, s')"
  using assms
proof (induction "k - lo" arbitrary: lo)
  case 0
  then show ?case by (subst for_ret.simps) (simp add: prog_simps)
next
  case (Suc n)
  then have "for_ret (Suc lo) hi body s = Inr (Some v, s')" by simp
  moreover from Suc have "body lo s = Inr (None, s)" and "lo < hi" by simp_all
  ultimately show ?case by (subst for_ret.simps) (simp add: prog_simps)
qed

lemma for_ret_miss:
  assumes "\<And>j. lo \<le> j \<Longrightarrow> j < hi \<Longrightarrow> body j s = Inr (None, s)"
  shows "for_ret lo hi body s = Inr (None, s)"
  using assms
proof (induction "hi - lo" arbitrary: lo)
  case 0
  then show ?case by (subst for_ret.simps) (simp add: prog_simps)
next
  case (Suc n)
  then have "for_ret (Suc lo) hi body s = Inr (None, s)" by simp
  moreover from Suc have "body lo s = Inr (None, s)" and "lo < hi" by simp_all
  ultimately show ?case by (subst for_ret.simps) (simp add: prog_simps)
qed

text \<open>A loop whose body never returns early keeps an invariant that each iteration carries on.\<close>

lemma for_ret_all:
  assumes "lo \<le> hi" "I lo s"
    and "\<And>j s. lo \<le> j \<Longrightarrow> j < hi \<Longrightarrow> I j s \<Longrightarrow> wp (body j) (\<lambda>r s'. r = None \<and> I (Suc j) s') s"
  shows "wp (for_ret lo hi body) (\<lambda>r s'. r = None \<and> I hi s') s"
  using assms
proof (induction "hi - lo" arbitrary: lo s)
  case 0
  then show ?case by (subst for_ret.simps) (simp add: wp_simps)
next
  case (Suc n)
  then have lt: "lo < hi" by simp
  have "wp (body lo) (\<lambda>r s'. r = None \<and> I (Suc lo) s') s"
    using Suc.prems lt by simp
  moreover have "wp (for_ret (Suc lo) hi body) (\<lambda>r s'. r = None \<and> I hi s') s'"
    if "I (Suc lo) s'" for s'
    using Suc.hyps(1)[of "Suc lo" s'] Suc.hyps(2) Suc.prems that lt by simp
  ultimately show ?case
    using lt by (subst for_ret.simps) (auto simp: wp_simps elim!: wp_mono)
qed

text \<open>
  The loops of the source that look for the first entry of a table: the body returns at
  an index where \<open>P\<close> holds and changes nothing elsewhere.
\<close>

definition first_index :: "(nat \<Rightarrow> bool) \<Rightarrow> nat \<Rightarrow> nat option" where
  "first_index P n = find P [0..<n]"

lemma first_index_Some:
  "first_index P n = Some k \<longleftrightarrow> k < n \<and> P k \<and> (\<forall>j<k. \<not> P j)"
proof -
  have "first_index P n = Some k \<longleftrightarrow>
      (\<exists>i<n. P ([0..<n] ! i) \<and> k = [0..<n] ! i \<and> (\<forall>j<i. \<not> P ([0..<n] ! j)))"
    by (simp add: first_index_def find_Some_iff)
  also have "\<dots> \<longleftrightarrow> k < n \<and> P k \<and> (\<forall>j<k. \<not> P j)" by auto
  finally show ?thesis .
qed

lemma first_index_None: "first_index P n = None \<longleftrightarrow> (\<forall>j<n. \<not> P j)"
  by (auto simp: first_index_def find_None_iff)

lemma for_ret_first:
  assumes "\<And>j. j < n \<Longrightarrow> body j s = (if P j then Inr (Some (f j), g j) else Inr (None, s))"
  shows "for_ret 0 n body s =
    (case first_index P n of None \<Rightarrow> Inr (None, s) | Some k \<Rightarrow> Inr (Some (f k), g k))"
proof (cases "first_index P n")
  case None
  then have "for_ret 0 n body s = Inr (None, s)"
    using assms by (intro for_ret_miss) (simp add: first_index_None)
  with None show ?thesis by simp
next
  case (Some k)
  then have k: "k < n" "P k" "\<And>j. j < k \<Longrightarrow> \<not> P j" by (simp_all add: first_index_Some)
  with assms have "for_ret 0 n body s = Inr (Some (f k), g k)"
    by (intro for_ret_hit [where k = k]) simp_all
  with Some show ?thesis by simp
qed

section \<open>Positions in a ring\<close>

lemma mod_distinct:
  fixes c :: nat assumes "k < n" "n < k + c" shows "(h + k) mod c \<noteq> (h + n) mod c"
proof
  assume "(h + k) mod c = (h + n) mod c"
  then have "c dvd (h + n) - (h + k)" using assms mod_eq_dvd_iff_nat [of "h + k" "h + n" c] by simp
  then have "c dvd n - k" by simp
  then show False using assms by (auto dest: dvd_imp_le)
qed

section \<open>Writing a run of elements into a list\<close>

lemma nth_upd: "xs[i := v] ! j = (if j = i \<and> i < length xs then v else xs ! j)"
  by (cases "i < length xs") (auto simp: nth_list_update list_update_beyond)

definition write_at :: "nat \<Rightarrow> 'a list \<Rightarrow> 'a list \<Rightarrow> 'a list" where
  "write_at off ys xs = take off xs @ ys @ drop (off + length ys) xs"

definition read_at :: "nat \<Rightarrow> nat \<Rightarrow> 'a list \<Rightarrow> 'a list" where
  "read_at off n xs = take n (drop off xs)"

lemma length_write_at [simp]: "off + length ys \<le> length xs \<Longrightarrow> length (write_at off ys xs) = length xs"
  by (simp add: write_at_def)

lemma length_read_at [simp]: "length (read_at off n xs) = min n (length xs - off)"
  by (simp add: read_at_def)

lemma nth_write_at:
  assumes "off + length ys \<le> length xs" "i < length xs"
  shows "write_at off ys xs ! i =
    (if i < off then xs ! i else if i < off + length ys then ys ! (i - off) else xs ! i)"
  using assms by (auto simp: write_at_def nth_append)

lemma nth_read_at: "i < n \<Longrightarrow> off + i < length xs \<Longrightarrow> read_at off n xs ! i = xs ! (off + i)"
  by (simp add: read_at_def)

lemma read_at_write_at_same [simp]:
  "off + length ys \<le> length xs \<Longrightarrow> read_at off (length ys) (write_at off ys xs) = ys"
  by (simp add: read_at_def write_at_def)

lemma read_at_write_at_disjoint:
  assumes "off + length ys \<le> length xs" "p + n \<le> off \<or> off + length ys \<le> p"
  shows "read_at p n (write_at off ys xs) = read_at p n xs"
proof (rule nth_equalityI)
  show "length (read_at p n (write_at off ys xs)) = length (read_at p n xs)"
    using assms(1) by simp
next
  fix i assume "i < length (read_at p n (write_at off ys xs))"
  then show "read_at p n (write_at off ys xs) ! i = read_at p n xs ! i"
    using assms by (auto simp: nth_read_at nth_write_at)
qed

lemma read_at_read_at: "i + m \<le> n \<Longrightarrow> read_at i m (read_at off n xs) = read_at (off + i) m xs"
  by (auto intro!: nth_equalityI simp: nth_read_at add.assoc)

lemma read_at_write_at_inside:
  assumes "p \<le> off" "off + length ys \<le> p + n" "p + n \<le> length xs"
  shows "read_at p n (write_at off ys xs) = write_at (off - p) ys (read_at p n xs)"
proof (rule nth_equalityI)
  show "length (read_at p n (write_at off ys xs)) = length (write_at (off - p) ys (read_at p n xs))"
    using assms by simp
next
  fix i assume "i < length (read_at p n (write_at off ys xs))"
  with assms have i: "i < n" "p + i < length xs" by auto
  moreover have "write_at (off - p) ys (read_at p n xs) ! i =
      (if i < off - p then read_at p n xs ! i
       else if i < off - p + length ys then ys ! (i - (off - p)) else read_at p n xs ! i)"
    using assms i by (intro nth_write_at) auto
  ultimately show "read_at p n (write_at off ys xs) ! i = write_at (off - p) ys (read_at p n xs) ! i"
    using assms by (auto simp: nth_read_at nth_write_at add.commute)
qed

lemma write_at_append:
  assumes "off + length ys + length zs \<le> length xs"
  shows "write_at (off + length ys) zs (write_at off ys xs) = write_at off (ys @ zs) xs"
proof (rule nth_equalityI)
  show "length (write_at (off + length ys) zs (write_at off ys xs)) = length (write_at off (ys @ zs) xs)"
    using assms by simp
next
  fix i assume "i < length (write_at (off + length ys) zs (write_at off ys xs))"
  then have i: "i < length xs" using assms by simp
  show "write_at (off + length ys) zs (write_at off ys xs) ! i = write_at off (ys @ zs) xs ! i"
    using assms i by (simp add: nth_write_at nth_append) (auto simp: algebra_simps)
qed

end
