(* ===== verification/CMem.thy ===== *)
theory CMem
  imports Prelude
begin

text \<open>
  C objects as lists of bytes, and the functions of \<open>string.h\<close> the source calls on
  them. A pointer argument is the list of the bytes from the pointer to the end of the
  object, so a function that runs off the end of an object before it finds its
  terminator has no value (\<open>None\<close>). Integers are stored little-endian.
\<close>

section \<open>Strings\<close>

definition c_str :: "byte list \<Rightarrow> byte list" where
  "c_str m = takeWhile (\<lambda>b. b \<noteq> 0) m"

fun c_strlen :: "byte list \<Rightarrow> nat option" where
  "c_strlen [] = None"
| "c_strlen (b # m) = (if b = 0 then Some 0 else map_option Suc (c_strlen m))"

fun c_strcmp :: "byte list \<Rightarrow> byte list \<Rightarrow> int option" where
  "c_strcmp (a # as) (b # bs) =
     (if a \<noteq> b then Some (uint a - uint b)
      else if a = 0 then Some 0
      else c_strcmp as bs)"
| "c_strcmp _ _ = None"

fun c_strncmp :: "byte list \<Rightarrow> byte list \<Rightarrow> nat \<Rightarrow> int option" where
  "c_strncmp _ _ 0 = Some 0"
| "c_strncmp (a # as) (b # bs) (Suc n) =
     (if a \<noteq> b then Some (uint a - uint b)
      else if a = 0 then Some 0
      else c_strncmp as bs n)"
| "c_strncmp _ _ (Suc n) = None"

text \<open>The \<open>n\<close> bytes that \<open>strncpy(dst, src, n)\<close> stores: the string, then zeros.\<close>

fun c_strncpy :: "byte list \<Rightarrow> nat \<Rightarrow> byte list option" where
  "c_strncpy _ 0 = Some []"
| "c_strncpy [] (Suc n) = None"
| "c_strncpy (b # m) (Suc n) =
     (if b = 0 then Some (replicate (Suc n) 0) else map_option ((#) b) (c_strncpy m n))"

text \<open>The bytes \<open>strcpy(dst, src)\<close> stores, the terminator included.\<close>

definition c_strcpy :: "byte list \<Rightarrow> byte list option" where
  "c_strcpy m = map_option (\<lambda>n. take (Suc n) m) (c_strlen m)"

text \<open>Storing a run of bytes into an object, and reading one from it.\<close>

definition c_store :: "nat \<Rightarrow> byte list \<Rightarrow> byte list \<Rightarrow> byte list option" where
  "c_store off ys obj = (if off + length ys \<le> length obj then Some (write_at off ys obj) else None)"

definition c_load :: "nat \<Rightarrow> nat \<Rightarrow> byte list \<Rightarrow> byte list option" where
  "c_load off n obj = (if off + n \<le> length obj then Some (read_at off n obj) else None)"

definition is_cstr :: "byte list \<Rightarrow> bool" where
  "is_cstr m \<longleftrightarrow> 0 \<in> set m"

lemma c_str_no_nul: "0 \<notin> set (c_str m)"
  by (auto simp: c_str_def dest: set_takeWhileD)

lemma c_str_append_nul: "0 \<notin> set xs \<Longrightarrow> c_str (xs @ 0 # m) = xs"
  by (simp add: c_str_def takeWhile_append)

lemma cstr_split: "is_cstr m \<Longrightarrow> \<exists>r. m = c_str m @ 0 # r"
proof (induction m)
  case Nil
  then show ?case by (simp add: is_cstr_def)
next
  case (Cons b m)
  show ?case
  proof (cases "b = 0")
    case True
    then show ?thesis by (simp add: c_str_def)
  next
    case False
    with Cons.prems have "is_cstr m" by (auto simp: is_cstr_def)
    then obtain r where "m = c_str m @ 0 # r" using Cons.IH by blast
    with False show ?thesis by (auto simp: c_str_def)
  qed
qed

text \<open>A string that ends within the first \<open>n\<close> bytes of an object is the string of the object.\<close>

lemma is_cstr_take: "is_cstr (take n m) \<Longrightarrow> is_cstr m"
  by (auto simp: is_cstr_def dest: in_set_takeD)

lemma c_str_take: "is_cstr (take n m) \<Longrightarrow> c_str (take n m) = c_str m"
proof (induction m arbitrary: n)
  case Nil
  then show ?case by simp
next
  case (Cons b m)
  then show ?case by (cases n) (auto simp: is_cstr_def c_str_def)
qed

lemma length_c_str: "is_cstr m \<Longrightarrow> length (c_str m) < length m"
  using cstr_split [of m] by (metis add_Suc_right length_Cons length_append less_add_Suc1)

lemma c_strlen_some: "is_cstr m \<Longrightarrow> c_strlen m = Some (length (c_str m))"
  by (induction m) (auto simp: is_cstr_def c_str_def)

lemma c_strlen_none: "\<not> is_cstr m \<Longrightarrow> c_strlen m = None"
  by (induction m) (auto simp: is_cstr_def)

lemma c_strlen_iff: "c_strlen m = (if is_cstr m then Some (length (c_str m)) else None)"
  by (simp add: c_strlen_some c_strlen_none)

lemma c_strcmp_zero:
  "is_cstr a \<Longrightarrow> is_cstr b \<Longrightarrow> \<exists>v. c_strcmp a b = Some v \<and> (v = 0 \<longleftrightarrow> c_str a = c_str b)"
  by (induction a b rule: c_strcmp.induct)
    (auto simp: is_cstr_def c_str_def word_uint_eq_iff)

text \<open>
  \<open>strncmp\<close> with a bound the first string fits in decides equality of the strings.
\<close>

lemma c_strncmp_zero:
  "is_cstr a \<Longrightarrow> is_cstr b \<Longrightarrow> length (c_str a) < n \<Longrightarrow>
     \<exists>v. c_strncmp a b n = Some v \<and> (v = 0 \<longleftrightarrow> c_str a = c_str b)"
  by (induction a b n rule: c_strncmp.induct)
    (auto simp: is_cstr_def c_str_def word_uint_eq_iff)

lemma c_strncpy_fits:
  "is_cstr m \<Longrightarrow> length (c_str m) \<le> n \<Longrightarrow>
     c_strncpy m n = Some (c_str m @ replicate (n - length (c_str m)) 0)"
proof (induction m n rule: c_strncpy.induct)
  case (1 m)
  then show ?case by simp
next
  case (2 n)
  then show ?case by (simp add: is_cstr_def)
next
  case (3 b m n)
  then show ?case by (auto simp: is_cstr_def c_str_def)
qed

lemma c_strncpy_short: "n \<le> length m \<Longrightarrow> 0 \<notin> set (take n m) \<Longrightarrow> c_strncpy m n = Some (take n m)"
  by (induction m n rule: c_strncpy.induct) auto

lemma c_strncpy_overrun: "\<not> is_cstr m \<Longrightarrow> length m < n \<Longrightarrow> c_strncpy m n = None"
  by (induction m n rule: c_strncpy.induct) (auto simp: is_cstr_def)

lemma length_c_strncpy: "c_strncpy m n = Some ys \<Longrightarrow> length ys = n"
  by (induction m n arbitrary: ys rule: c_strncpy.induct) (auto split: if_splits)

section \<open>Integers in memory\<close>

fun le_bytes :: "nat \<Rightarrow> int \<Rightarrow> byte list" where
  "le_bytes 0 v = []"
| "le_bytes (Suc k) v = word_of_int (v mod 256) # le_bytes k (v div 256)"

fun le_val :: "byte list \<Rightarrow> int" where
  "le_val [] = 0"
| "le_val (b # bs) = uint b + 256 * le_val bs"

lemma length_le_bytes [simp]: "length (le_bytes k v) = k"
  by (induction k v rule: le_bytes.induct) auto

lemma le_val_le_bytes: "0 \<le> v \<Longrightarrow> v < 256 ^ k \<Longrightarrow> le_val (le_bytes k v) = v"
proof (induction k v rule: le_bytes.induct)
  case (1 v)
  then show ?case by simp
next
  case (2 k v)
  then have "0 \<le> v div 256" "v div 256 < 256 ^ k" by (simp_all add: div_less_iff_less_mult)
  moreover have "uint (word_of_int (v mod 256) :: byte) = v mod 256"
    by (simp add: uint_word_of_int)
  ultimately show ?case using 2 by simp
qed

definition int32_bytes :: "int \<Rightarrow> byte list" where
  "int32_bytes i = le_bytes 4 (uint (word_of_int i :: u32))"

definition bytes_int32 :: "byte list \<Rightarrow> int" where
  "bytes_int32 bs = sint (word_of_int (le_val bs) :: u32)"

definition u64_bytes :: "u64 \<Rightarrow> byte list" where
  "u64_bytes w = le_bytes 8 (uint w)"

definition bytes_u64 :: "byte list \<Rightarrow> u64" where
  "bytes_u64 bs = word_of_int (le_val bs)"

text \<open>Conversion of a \<open>size_t\<close> index to \<open>int\<close>, as gcc does it.\<close>

definition c_int :: "nat \<Rightarrow> int" where
  "c_int n = sint (word_of_nat n :: u32)"

lemma length_int32_bytes [simp]: "length (int32_bytes i) = 4"
  by (simp add: int32_bytes_def)

lemma length_u64_bytes [simp]: "length (u64_bytes w) = 8"
  by (simp add: u64_bytes_def)

definition int32_range :: "int \<Rightarrow> bool" where
  "int32_range i \<longleftrightarrow> - (2 ^ 31) \<le> i \<and> i < 2 ^ 31"

lemma bytes_int32_bytes: "int32_range i \<Longrightarrow> bytes_int32 (int32_bytes i) = i"
proof -
  assume r: "int32_range i"
  have "0 \<le> uint (word_of_int i :: u32)" by simp
  moreover have "uint (word_of_int i :: u32) < 256 ^ 4"
    using unsigned_less [of "word_of_int i :: u32"] by simp
  ultimately have "bytes_int32 (int32_bytes i) = sint (word_of_int i :: u32)"
    by (simp add: bytes_int32_def int32_bytes_def le_val_le_bytes)
  also have "\<dots> = i"
    using r by (simp add: int32_range_def sint_sbintrunc' signed_take_bit_int_eq_self)
  finally show ?thesis .
qed

lemma bytes_u64_bytes [simp]: "bytes_u64 (u64_bytes w) = w"
proof -
  have "uint w < 256 ^ 8" using unsigned_less [of w] by simp
  then show ?thesis by (simp add: bytes_u64_def u64_bytes_def le_val_le_bytes)
qed

lemma c_int_small: "n < 2 ^ 31 \<Longrightarrow> c_int n = int n"
proof -
  assume n: "n < 2 ^ 31"
  have "(word_of_nat n :: u32) = word_of_int (int n)" by simp
  then have "c_int n = signed_take_bit 31 (int n)"
    unfolding c_int_def by (simp only: sint_sbintrunc') simp
  with n show ?thesis by (simp add: signed_take_bit_int_eq_self)
qed

lemma int32_range_of_nat: "n < 2 ^ 31 \<Longrightarrow> int32_range (int n)"
  by (simp add: int32_range_def)

lemma int32_range_minus1 [simp]: "int32_range (- 1)"
  by (simp add: int32_range_def)

end
