(* ===== verification/FsState.thy ===== *)
theory FsState
  imports CMem
begin

text \<open>
  fs/state.c: the tables of the file system (inodes, data blocks, open files), their
  allocation maps, and the directory entries stored in a directory's data block. The
  data area is one flat array of bytes, as in the code, so a directory entry is 44 bytes
  of it (40 of name, 4 of inumber) and not a value of its own. A pointer to an inode or
  to an open file entry is its index in the table; a pointer into the data area is its
  offset. The busy loop \<open>insert_delay\<close> has no effect on the state and is left out.
\<close>

section \<open>Data\<close>

definition MAX_FILE_NAME :: nat where "MAX_FILE_NAME = 40"
definition ROOT_DIR_INUM :: int where "ROOT_DIR_INUM = 0"

text \<open>\<open>sizeof\<close> of the element types, on x86-64.\<close>

definition sizeof_dir_entry :: nat where "sizeof_dir_entry = 44"
definition sizeof_inode :: nat where "sizeof_inode = 24"
definition sizeof_alloc :: nat where "sizeof_alloc = 4"
definition sizeof_open_file :: nat where "sizeof_open_file = 16"

record tfs_params =
  max_inode_count :: u64
  max_block_count :: u64
  max_open_files_count :: u64
  block_size :: u64

datatype inode_type = T_FILE | T_DIRECTORY

record inode_t =
  i_node_type :: inode_type
  i_size :: u64
  i_data_block :: int

datatype allocation_state_t = FREE | TAKEN

record open_file_entry_t =
  of_inumber :: int
  of_offset :: u64

text \<open>
  The file-scope variables of state.c, and the mutex of operations.c (\<open>True\<close> while it
  is held). A pointer that is \<open>NULL\<close> is \<open>None\<close>.
\<close>

record fs_state =
  fs_params :: tfs_params
  inode_table :: "inode_t list option"
  freeinode_ts :: "allocation_state_t list option"
  fs_data :: "byte list option"
  free_blocks :: "allocation_state_t list option"
  open_file_table :: "open_file_entry_t list option"
  free_open_file_entries :: "allocation_state_t list option"
  g_library_mutex :: bool

type_synonym 'a fs = "(fs_state, 'a) prog"

definition INODE_TABLE_SIZE :: "fs_state \<Rightarrow> nat" where
  "INODE_TABLE_SIZE s = unat (max_inode_count (fs_params s))"

definition DATA_BLOCKS :: "fs_state \<Rightarrow> nat" where
  "DATA_BLOCKS s = unat (max_block_count (fs_params s))"

definition MAX_OPEN_FILES :: "fs_state \<Rightarrow> nat" where
  "MAX_OPEN_FILES s = unat (max_open_files_count (fs_params s))"

definition BLOCK_SIZE :: "fs_state \<Rightarrow> u64" where
  "BLOCK_SIZE s = block_size (fs_params s)"

definition MAX_DIR_ENTRIES :: "fs_state \<Rightarrow> nat" where
  "MAX_DIR_ENTRIES s = unat (BLOCK_SIZE s) div sizeof_dir_entry"

definition valid_inumber :: "fs_state \<Rightarrow> int \<Rightarrow> bool" where
  "valid_inumber s inumber \<longleftrightarrow> inumber \<ge> 0 \<and> inumber < int (INODE_TABLE_SIZE s)"

definition valid_block_number :: "fs_state \<Rightarrow> int \<Rightarrow> bool" where
  "valid_block_number s block_number \<longleftrightarrow> block_number \<ge> 0 \<and> block_number < int (DATA_BLOCKS s)"

definition valid_file_handle :: "fs_state \<Rightarrow> int \<Rightarrow> bool" where
  "valid_file_handle s file_handle \<longleftrightarrow> file_handle \<ge> 0 \<and> file_handle < int (MAX_OPEN_FILES s)"

definition state_block_size :: "u64 fs" where
  "state_block_size = gets BLOCK_SIZE"

section \<open>The data area\<close>

definition mem_write :: "nat \<Rightarrow> byte list \<Rightarrow> unit fs" where
  "mem_write off ys = bind (gets fs_data) (\<lambda>d.
     bind (defined (Option.bind d (c_store off ys))) (\<lambda>d'.
     modify (fs_data_update (\<lambda>_. Some d'))))"

definition mem_read :: "nat \<Rightarrow> nat \<Rightarrow> byte list fs" where
  "mem_read off n = bind (gets fs_data) (\<lambda>d. defined (Option.bind d (c_load off n)))"

text \<open>The memory from an offset on, as a string function sees it through a pointer.\<close>

definition mem_from :: "nat \<Rightarrow> byte list fs" where
  "mem_from off = bind (gets fs_data) (\<lambda>d. defined (map_option (drop off) d))"

section \<open>Start and end\<close>

text \<open>
  What \<open>malloc\<close> gives is a parameter: whether its i-th call in \<open>state_init\<close> fails, and
  the unspecified contents of the memory it returns.
\<close>

record malloc_env =
  malloc_null :: "nat \<Rightarrow> bool"
  junk_inode :: "nat \<Rightarrow> inode_t"
  junk_alloc :: "nat \<Rightarrow> allocation_state_t"
  junk_byte :: "nat \<Rightarrow> byte"
  junk_open_file :: "nat \<Rightarrow> open_file_entry_t"

definition malloc :: "bool \<Rightarrow> (nat \<Rightarrow> 'a) \<Rightarrow> u64 \<Rightarrow> nat \<Rightarrow> 'a list option" where
  "malloc null junk bytes elem_size =
     (if null then None else Some (map junk [0..<unat bytes div elem_size]))"

text \<open>The three initialisation loops: \<open>for (i = 0; i < n; i++) table[i] = FREE\<close>.\<close>

definition fill_free :: "(fs_state \<Rightarrow> allocation_state_t list option)
    \<Rightarrow> ((allocation_state_t list option \<Rightarrow> allocation_state_t list option) \<Rightarrow> fs_state \<Rightarrow> fs_state)
    \<Rightarrow> nat \<Rightarrow> unit fs" where
  "fill_free arr upd n =
     bind (for_ret 0 n (\<lambda>i. andthen (wr arr upd i FREE) (ret (None :: unit option)))) (\<lambda>_. ret ())"

definition state_init :: "malloc_env \<Rightarrow> tfs_params \<Rightarrow> int fs" where
  "state_init env params =
     andthen (modify (fs_params_update (\<lambda>_. params)))
     (bind (gets inode_table) (\<lambda>it.
      if it \<noteq> None then ret (- 1)
      else
        (let ni = max_inode_count params; nb = max_block_count params;
             no = max_open_files_count params;
             it = malloc (malloc_null env 0) (junk_inode env) (ni * word_of_nat sizeof_inode) sizeof_inode;
             fi = malloc (malloc_null env 1) (junk_alloc env) (ni * word_of_nat sizeof_alloc) sizeof_alloc;
             d = malloc (malloc_null env 2) (junk_byte env) (nb * block_size params) 1;
             fb = malloc (malloc_null env 3) (junk_alloc env) (nb * word_of_nat sizeof_alloc) sizeof_alloc;
             ot = malloc (malloc_null env 4) (junk_open_file env) (no * word_of_nat sizeof_open_file) sizeof_open_file;
             fo = malloc (malloc_null env 5) (junk_alloc env) (no * word_of_nat sizeof_alloc) sizeof_alloc
         in
           andthen (modify (\<lambda>s. s\<lparr>inode_table := it, freeinode_ts := fi, fs_data := d,
                     free_blocks := fb, open_file_table := ot, free_open_file_entries := fo\<rparr>))
           (if it = None \<or> fi = None \<or> d = None \<or> fb = None \<or> ot = None \<or> fo = None
            then ret (- 1)
            else
              andthen (fill_free freeinode_ts freeinode_ts_update (unat ni))
              (andthen (fill_free free_blocks free_blocks_update (unat nb))
              (andthen (fill_free free_open_file_entries free_open_file_entries_update (unat no))
              (ret 0)))))))"

definition state_destroy :: "int fs" where
  "state_destroy =
     andthen (modify (\<lambda>s. s\<lparr>inode_table := None, freeinode_ts := None, fs_data := None,
               free_blocks := None, open_file_table := None, free_open_file_entries := None\<rparr>))
     (ret 0)"

section \<open>Data blocks\<close>

definition data_block_alloc :: "int fs" where
  "data_block_alloc =
     bind (gets DATA_BLOCKS) (\<lambda>n.
     bind (for_ret 0 n (\<lambda>i. bind (rd free_blocks i) (\<lambda>st.
        if st = FREE
        then andthen (wr free_blocks free_blocks_update i TAKEN) (ret (Some (c_int i)))
        else ret None)))
     (\<lambda>r. case r of Some b \<Rightarrow> ret b | None \<Rightarrow> ret (- 1)))"

definition data_block_free :: "int \<Rightarrow> unit fs" where
  "data_block_free block_number =
     bind (gets (\<lambda>s. valid_block_number s block_number)) (\<lambda>ok.
     andthen (always_assert ok ''data_block_free: invalid block number'')
     (wr free_blocks free_blocks_update (nat block_number) FREE))"

definition data_block_get :: "int \<Rightarrow> nat fs" where
  "data_block_get block_number =
     bind (gets (\<lambda>s. valid_block_number s block_number)) (\<lambda>ok.
     andthen (always_assert ok ''data_block_get: invalid block number'')
     (bind (gets BLOCK_SIZE) (\<lambda>bs. ret (unat (word_of_int block_number * bs)))))"

section \<open>Inodes\<close>

definition inode_alloc :: "int fs" where
  "inode_alloc =
     bind (gets INODE_TABLE_SIZE) (\<lambda>n.
     bind (for_ret 0 n (\<lambda>inumber. bind (rd freeinode_ts inumber) (\<lambda>st.
        if st = FREE
        then andthen (wr freeinode_ts freeinode_ts_update inumber TAKEN) (ret (Some (c_int inumber)))
        else ret None)))
     (\<lambda>r. case r of Some i \<Rightarrow> ret i | None \<Rightarrow> ret (- 1)))"

definition inode_delete :: "int \<Rightarrow> unit fs" where
  "inode_delete inumber =
     bind (gets (\<lambda>s. valid_inumber s inumber)) (\<lambda>ok.
     andthen (always_assert ok ''inode_delete: invalid inumber'')
     (bind (rd freeinode_ts (nat inumber)) (\<lambda>st.
     andthen (always_assert (st = TAKEN) ''inode_delete: inode already freed'')
     (bind (rd inode_table (nat inumber)) (\<lambda>inode.
     andthen (if i_size inode > 0 then data_block_free (i_data_block inode) else ret ())
     (wr freeinode_ts freeinode_ts_update (nat inumber) FREE))))))"

text \<open>An assignment through an inode pointer.\<close>

definition set_inode :: "nat \<Rightarrow> (inode_t \<Rightarrow> inode_t) \<Rightarrow> unit fs" where
  "set_inode i f = bind (rd inode_table i) (\<lambda>n. wr inode_table inode_table_update i (f n))"

definition d_name_at :: "nat \<Rightarrow> nat \<Rightarrow> nat" where
  "d_name_at dir_entry i = dir_entry + i * sizeof_dir_entry"

definition d_inumber_at :: "nat \<Rightarrow> nat \<Rightarrow> nat" where
  "d_inumber_at dir_entry i = dir_entry + i * sizeof_dir_entry + MAX_FILE_NAME"

definition inode_create :: "inode_type \<Rightarrow> int fs" where
  "inode_create i_type =
     bind inode_alloc (\<lambda>inumber.
     if inumber = - 1 then ret (- 1)
     else
       andthen (set_inode (nat inumber) (i_node_type_update (\<lambda>_. i_type)))
       (case i_type of
          T_DIRECTORY \<Rightarrow>
            bind data_block_alloc (\<lambda>b.
            if b = - 1 then
              andthen (set_inode (nat inumber) (\<lambda>n. n\<lparr>i_size := 0, i_data_block := - 1\<rparr>))
              (andthen (inode_delete inumber) (ret (- 1)))
            else
              bind (gets BLOCK_SIZE) (\<lambda>bs.
              andthen (set_inode (nat inumber) (\<lambda>n. n\<lparr>i_size := bs, i_data_block := b\<rparr>))
              (bind (data_block_get b) (\<lambda>dir_entry.
               bind (gets MAX_DIR_ENTRIES) (\<lambda>n.
               bind (for_ret 0 n (\<lambda>i.
                 andthen (mem_write (d_inumber_at dir_entry i) (int32_bytes (- 1)))
                 (ret (None :: unit option))))
               (\<lambda>_. ret inumber))))))
        | T_FILE \<Rightarrow>
            andthen (set_inode (nat inumber) (\<lambda>n. n\<lparr>i_size := 0, i_data_block := - 1\<rparr>))
            (ret inumber)))"

definition inode_get :: "int \<Rightarrow> nat fs" where
  "inode_get inumber =
     bind (gets (\<lambda>s. valid_inumber s inumber)) (\<lambda>ok.
     andthen (always_assert ok ''inode_get: invalid inumber'')
     (ret (nat inumber)))"

section \<open>Directory entries\<close>

definition clear_dir_entry :: "nat \<Rightarrow> byte list \<Rightarrow> int fs" where
  "clear_dir_entry inode sub_name =
     bind (rd inode_table inode) (\<lambda>nd.
     if i_node_type nd \<noteq> T_DIRECTORY then ret (- 1)
     else
       bind (data_block_get (i_data_block nd)) (\<lambda>dir_entry.
       bind (gets MAX_DIR_ENTRIES) (\<lambda>n.
       bind (for_ret 0 n (\<lambda>i.
         bind (mem_from (d_name_at dir_entry i)) (\<lambda>d_name.
         bind (defined (c_strcmp d_name sub_name)) (\<lambda>c.
         if c = 0 then
           andthen (mem_write (d_inumber_at dir_entry i) (int32_bytes (- 1)))
           (andthen (mem_write (d_name_at dir_entry i) (replicate MAX_FILE_NAME 0))
           (ret (Some 0)))
         else ret None))))
       (\<lambda>r. case r of Some v \<Rightarrow> ret v | None \<Rightarrow> ret (- 1)))))"

definition add_dir_entry :: "nat \<Rightarrow> byte list \<Rightarrow> int \<Rightarrow> int fs" where
  "add_dir_entry inode sub_name sub_inumber =
     bind (defined (c_strlen sub_name)) (\<lambda>len.
     if len = 0 \<or> len > MAX_FILE_NAME - 1 then ret (- 1)
     else
       bind (rd inode_table inode) (\<lambda>nd.
       if i_node_type nd \<noteq> T_DIRECTORY then ret (- 1)
       else
         bind (data_block_get (i_data_block nd)) (\<lambda>dir_entry.
         bind (gets MAX_DIR_ENTRIES) (\<lambda>n.
         bind (for_ret 0 n (\<lambda>i.
           bind (mem_read (d_inumber_at dir_entry i) 4) (\<lambda>w.
           if bytes_int32 w = - 1 then
             andthen (mem_write (d_inumber_at dir_entry i) (int32_bytes sub_inumber))
             (bind (defined (c_strncpy sub_name (MAX_FILE_NAME - 1))) (\<lambda>nm.
              andthen (mem_write (d_name_at dir_entry i) nm)
              (andthen (mem_write (d_name_at dir_entry i + (MAX_FILE_NAME - 1)) [0])
              (ret (Some 0)))))
           else ret None)))
         (\<lambda>r. case r of Some v \<Rightarrow> ret v | None \<Rightarrow> ret (- 1))))))"

definition find_in_dir :: "nat \<Rightarrow> byte list \<Rightarrow> int fs" where
  "find_in_dir inode sub_name =
     bind (rd inode_table inode) (\<lambda>nd.
     if i_node_type nd \<noteq> T_DIRECTORY then ret (- 1)
     else
       bind (data_block_get (i_data_block nd)) (\<lambda>dir_entry.
       bind (gets MAX_DIR_ENTRIES) (\<lambda>n.
       bind (for_ret 0 n (\<lambda>i.
         bind (mem_read (d_inumber_at dir_entry i) 4) (\<lambda>w.
         if bytes_int32 w \<noteq> - 1 then
           bind (mem_from (d_name_at dir_entry i)) (\<lambda>d_name.
           bind (defined (c_strncmp d_name sub_name MAX_FILE_NAME)) (\<lambda>c.
           ret (if c = 0 then Some (bytes_int32 w) else None)))
         else ret None)))
       (\<lambda>r. case r of Some v \<Rightarrow> ret v | None \<Rightarrow> ret (- 1)))))"

section \<open>Open files\<close>

definition add_to_open_file_table :: "int \<Rightarrow> u64 \<Rightarrow> int fs" where
  "add_to_open_file_table inumber offset =
     bind (gets MAX_OPEN_FILES) (\<lambda>n.
     bind (for_ret 0 n (\<lambda>i. bind (rd free_open_file_entries i) (\<lambda>st.
        if st = FREE
        then
          andthen (wr free_open_file_entries free_open_file_entries_update i TAKEN)
          (andthen (wr open_file_table open_file_table_update i
                     \<lparr>of_inumber = inumber, of_offset = offset\<rparr>)
          (ret (Some (int i))))
        else ret None)))
     (\<lambda>r. case r of Some h \<Rightarrow> ret h | None \<Rightarrow> ret (- 1)))"

definition remove_from_open_file_table :: "int \<Rightarrow> unit fs" where
  "remove_from_open_file_table fhandle =
     bind (gets (\<lambda>s. valid_file_handle s fhandle)) (\<lambda>ok.
     andthen (always_assert ok ''remove_from_open_file_table: file handle must be valid'')
     (bind (rd free_open_file_entries (nat fhandle)) (\<lambda>st.
     andthen (always_assert (st = TAKEN) ''remove_from_open_file_table: file handle must be taken'')
     (wr free_open_file_entries free_open_file_entries_update (nat fhandle) FREE))))"

definition get_open_file_entry :: "int \<Rightarrow> nat option fs" where
  "get_open_file_entry fhandle =
     bind (gets (\<lambda>s. valid_file_handle s fhandle)) (\<lambda>ok.
     if \<not> ok then ret None
     else bind (rd free_open_file_entries (nat fhandle)) (\<lambda>st.
          if st \<noteq> TAKEN then ret None else ret (Some (nat fhandle))))"

end
