(* ===== verification/FsOps.thy ===== *)
theory FsOps
  imports FsState
begin

text \<open>
  fs/operations.c: the interface of the file system. Each function but \<open>tfs_init\<close> and
  \<open>tfs_destroy\<close> takes the library mutex first and has its own release on every path that
  returns; the releases are written out here path by path, so that "the mutex is free
  again" is a fact about the code and not built into the model. The mutex functions
  return 0 on a default mutex that is used correctly, block when it is held and are
  undefined on the release of a free mutex, as POSIX has it.
\<close>

unbundle bit_operations_syntax

definition TFS_O_CREAT :: u32 where "TFS_O_CREAT = 1"
definition TFS_O_TRUNC :: u32 where "TFS_O_TRUNC = 2"
definition TFS_O_APPEND :: u32 where "TFS_O_APPEND = 4"

definition has_flag :: "u32 \<Rightarrow> u32 \<Rightarrow> bool" where
  "has_flag mode flag \<longleftrightarrow> mode AND flag \<noteq> 0"

definition lock_library :: "int fs" where
  "lock_library = (\<lambda>s. if g_library_mutex s then Inl Blocked else Inr (0, s\<lparr>g_library_mutex := True\<rparr>))"

definition unlock_library :: "int fs" where
  "unlock_library = (\<lambda>s. if g_library_mutex s then Inr (0, s\<lparr>g_library_mutex := False\<rparr>) else Inl Undef)"

text \<open>\<open>if (pthread_mutex_unlock(&g_library_mutex) == -1) { WARN(...); return -1; } return v;\<close>\<close>

definition unlock_return :: "int \<Rightarrow> int fs" where
  "unlock_return v = bind unlock_library (\<lambda>r. if r = - 1 then ret (- 1) else ret v)"

section \<open>Start and end\<close>

definition tfs_default_params :: tfs_params where
  "tfs_default_params =
     \<lparr>max_inode_count = 64, max_block_count = 1024, max_open_files_count = 16, block_size = 1024\<rparr>"

definition tfs_init :: "malloc_env \<Rightarrow> tfs_params option \<Rightarrow> int fs" where
  "tfs_init env params_ptr =
     (let params = (case params_ptr of Some p \<Rightarrow> p | None \<Rightarrow> tfs_default_params) in
      bind (state_init env params) (\<lambda>r.
      if r \<noteq> 0 then ret (- 1)
      else bind (inode_create T_DIRECTORY) (\<lambda>root.
           if root \<noteq> ROOT_DIR_INUM then ret (- 1) else ret 0)))"

definition tfs_destroy :: "int fs" where
  "tfs_destroy = bind state_destroy (\<lambda>r. if r \<noteq> 0 then ret (- 1) else ret 0)"

section \<open>Names\<close>

definition slash :: byte where "slash = 47"

definition valid_pathname :: "byte list option \<Rightarrow> bool fs" where
  "valid_pathname name =
     (case name of
        None \<Rightarrow> ret False
      | Some m \<Rightarrow> bind (defined (c_strlen m)) (\<lambda>len. ret (len > 1 \<and> m ! 0 = slash)))"

definition tfs_lookup :: "byte list option \<Rightarrow> nat \<Rightarrow> int fs" where
  "tfs_lookup name root_inode =
     bind (valid_pathname name) (\<lambda>ok.
     if \<not> ok then ret (- 1) else find_in_dir root_inode (drop 1 (the name)))"

section \<open>Opening and closing\<close>

definition tfs_open :: "byte list option \<Rightarrow> u32 \<Rightarrow> int fs" where
  "tfs_open name mode =
     bind lock_library (\<lambda>r.
     if r = - 1 then ret (- 1)
     else bind (valid_pathname name) (\<lambda>ok.
     if \<not> ok then unlock_return (- 1)
     else bind (inode_get ROOT_DIR_INUM) (\<lambda>root_dir_inode.
     bind (tfs_lookup name root_dir_inode) (\<lambda>inum.
     if inum \<ge> 0 then
       bind (inode_get inum) (\<lambda>inode.
       bind (rd inode_table inode) (\<lambda>nd.
       andthen (if has_flag mode TFS_O_TRUNC \<and> i_size nd > 0
                then andthen (data_block_free (i_data_block nd))
                             (set_inode inode (i_size_update (\<lambda>_. 0)))
                else ret ())
       (bind (rd inode_table inode) (\<lambda>nd.
        let offset = (if has_flag mode TFS_O_APPEND then i_size nd else 0) in
        bind (add_to_open_file_table inum offset) unlock_return))))
     else if has_flag mode TFS_O_CREAT then
       bind (inode_create T_FILE) (\<lambda>inum.
       if inum = - 1 then unlock_return (- 1)
       else bind (add_dir_entry root_dir_inode (drop 1 (the name)) inum) (\<lambda>e.
            if e = - 1 then andthen (inode_delete inum) (unlock_return (- 1))
            else bind (add_to_open_file_table inum 0) unlock_return))
     else unlock_return (- 1)))))"

definition tfs_close :: "int \<Rightarrow> int fs" where
  "tfs_close fhandle =
     bind lock_library (\<lambda>r.
     if r = - 1 then ret (- 1)
     else bind (get_open_file_entry fhandle) (\<lambda>file.
     if file = None then unlock_return (- 1)
     else andthen (remove_from_open_file_table fhandle) (unlock_return 0)))"

section \<open>Writing and reading\<close>

definition set_open_file :: "nat \<Rightarrow> (open_file_entry_t \<Rightarrow> open_file_entry_t) \<Rightarrow> unit fs" where
  "set_open_file i f =
     bind (rd open_file_table i) (\<lambda>e. wr open_file_table open_file_table_update i (f e))"

text \<open>
  \<open>buffer\<close> is the object the caller passes; copying more than it holds is undefined. The
  sum \<open>to_write + file->of_offset\<close> and the difference are of type \<open>size_t\<close>.
\<close>

definition tfs_write :: "int \<Rightarrow> byte list \<Rightarrow> u64 \<Rightarrow> int fs" where
  "tfs_write fhandle buffer to_write =
     bind lock_library (\<lambda>r.
     if r = - 1 then ret (- 1)
     else bind (get_open_file_entry fhandle) (\<lambda>fe.
     case fe of None \<Rightarrow> unlock_return (- 1)
     | Some file \<Rightarrow>
       bind (rd open_file_table file) (\<lambda>f.
       bind (inode_get (of_inumber f)) (\<lambda>inode.
       bind state_block_size (\<lambda>bs.
       let to_write = (if to_write + of_offset f > bs then bs - of_offset f else to_write) in
       if to_write > 0 then
         bind (rd inode_table inode) (\<lambda>nd.
         bind (if i_size nd = 0
               then bind data_block_alloc (\<lambda>bnum.
                    if bnum = - 1 then ret False
                    else andthen (set_inode inode (i_data_block_update (\<lambda>_. bnum))) (ret True))
               else ret True)
         (\<lambda>have_block.
          if \<not> have_block then unlock_return (- 1)
          else
            bind (rd inode_table inode) (\<lambda>nd.
            bind (data_block_get (i_data_block nd)) (\<lambda>block.
            bind (defined (c_load 0 (unat to_write) buffer)) (\<lambda>bytes.
            andthen (mem_write (block + unat (of_offset f)) bytes)
            (let new_offset = of_offset f + to_write in
             andthen (set_open_file file (of_offset_update (\<lambda>_. new_offset)))
             (andthen (if new_offset > i_size nd
                       then set_inode inode (i_size_update (\<lambda>_. new_offset)) else ret ())
             (unlock_return (sint to_write)))))))))
       else unlock_return (sint to_write))))))"

text \<open>The caller's buffer is returned as the call leaves it, after the value of the call.\<close>

definition tfs_read :: "int \<Rightarrow> byte list \<Rightarrow> u64 \<Rightarrow> (int \<times> byte list) fs" where
  "tfs_read fhandle buffer len =
     bind lock_library (\<lambda>r.
     if r = - 1 then ret (- 1, buffer)
     else bind (get_open_file_entry fhandle) (\<lambda>fe.
     case fe of None \<Rightarrow> bind (unlock_return (- 1)) (\<lambda>v. ret (v, buffer))
     | Some file \<Rightarrow>
       bind (rd open_file_table file) (\<lambda>f.
       bind (inode_get (of_inumber f)) (\<lambda>inode.
       bind (rd inode_table inode) (\<lambda>nd.
       let to_read = i_size nd - of_offset f;
           to_read = (if to_read > len then len else to_read) in
       if to_read > 0 then
         bind (data_block_get (i_data_block nd)) (\<lambda>block.
         bind (mem_read (block + unat (of_offset f)) (unat to_read)) (\<lambda>bytes.
         bind (defined (c_store 0 bytes buffer)) (\<lambda>buffer'.
         andthen (set_open_file file (\<lambda>e. e\<lparr>of_offset := of_offset e + to_read\<rparr>))
         (bind (unlock_return (sint to_read)) (\<lambda>v. ret (v, buffer'))))))
       else bind (unlock_return (sint to_read)) (\<lambda>v. ret (v, buffer)))))))"

section \<open>Deleting\<close>

definition tfs_unlink :: "byte list option \<Rightarrow> int fs" where
  "tfs_unlink target =
     bind lock_library (\<lambda>r.
     if r = - 1 then ret (- 1)
     else bind (valid_pathname target) (\<lambda>ok.
     if \<not> ok then unlock_return (- 1)
     else bind (inode_get ROOT_DIR_INUM) (\<lambda>root_dir_inode.
     bind (tfs_lookup target root_dir_inode) (\<lambda>inum.
     if inum = - 1 then unlock_return (- 1)
     else andthen (inode_delete inum)
          (bind (clear_dir_entry root_dir_inode (drop 1 (the target))) (\<lambda>e.
           if e = - 1 then unlock_return (- 1) else unlock_return 0))))))"

end
