(* ===== verification/FsTables.thy ===== *)
theory FsTables
  imports FsOps
begin

text \<open>
  The tables of a state in which the file system is initialised, named one by one, and
  the updates the operations make on them. \<open>fs_shape\<close> says that every table is
  allocated with the size its parameter gives; under it the accesses of state.c are
  defined and each table operation is an equation on the named tables.
\<close>

section \<open>Tables and updates\<close>

definition inodes :: "fs_state \<Rightarrow> inode_t list" where
  "inodes s = the (inode_table s)"
definition imap :: "fs_state \<Rightarrow> allocation_state_t list" where
  "imap s = the (freeinode_ts s)"
definition dat :: "fs_state \<Rightarrow> byte list" where
  "dat s = the (fs_data s)"
definition bmap :: "fs_state \<Rightarrow> allocation_state_t list" where
  "bmap s = the (free_blocks s)"
definition ofiles :: "fs_state \<Rightarrow> open_file_entry_t list" where
  "ofiles s = the (open_file_table s)"
definition omap :: "fs_state \<Rightarrow> allocation_state_t list" where
  "omap s = the (free_open_file_entries s)"

definition put_inode :: "nat \<Rightarrow> inode_t \<Rightarrow> fs_state \<Rightarrow> fs_state" where
  "put_inode i n s = s\<lparr>inode_table := Some ((inodes s)[i := n])\<rparr>"
definition put_imap :: "nat \<Rightarrow> allocation_state_t \<Rightarrow> fs_state \<Rightarrow> fs_state" where
  "put_imap i st s = s\<lparr>freeinode_ts := Some ((imap s)[i := st])\<rparr>"
definition put_dat :: "byte list \<Rightarrow> fs_state \<Rightarrow> fs_state" where
  "put_dat d s = s\<lparr>fs_data := Some d\<rparr>"
definition put_bmap :: "nat \<Rightarrow> allocation_state_t \<Rightarrow> fs_state \<Rightarrow> fs_state" where
  "put_bmap b st s = s\<lparr>free_blocks := Some ((bmap s)[b := st])\<rparr>"
definition put_ofile :: "nat \<Rightarrow> open_file_entry_t \<Rightarrow> fs_state \<Rightarrow> fs_state" where
  "put_ofile h e s = s\<lparr>open_file_table := Some ((ofiles s)[h := e])\<rparr>"
definition put_omap :: "nat \<Rightarrow> allocation_state_t \<Rightarrow> fs_state \<Rightarrow> fs_state" where
  "put_omap h st s = s\<lparr>free_open_file_entries := Some ((omap s)[h := st])\<rparr>"
definition put_lock :: "bool \<Rightarrow> fs_state \<Rightarrow> fs_state" where
  "put_lock b s = s\<lparr>g_library_mutex := b\<rparr>"

lemmas table_defs = inodes_def imap_def dat_def bmap_def ofiles_def omap_def
lemmas put_defs = put_inode_def put_imap_def put_dat_def put_bmap_def put_ofile_def put_omap_def
  put_lock_def
lemmas size_defs = INODE_TABLE_SIZE_def DATA_BLOCKS_def MAX_OPEN_FILES_def BLOCK_SIZE_def
  MAX_DIR_ENTRIES_def

lemma tables_put_inode [simp]:
  "inodes (put_inode i n s) = (inodes s)[i := n]" "imap (put_inode i n s) = imap s"
  "dat (put_inode i n s) = dat s" "bmap (put_inode i n s) = bmap s"
  "ofiles (put_inode i n s) = ofiles s" "omap (put_inode i n s) = omap s"
  "fs_params (put_inode i n s) = fs_params s" "g_library_mutex (put_inode i n s) = g_library_mutex s"
  by (simp_all add: table_defs put_defs)

lemma tables_put_imap [simp]:
  "inodes (put_imap i st s) = inodes s" "imap (put_imap i st s) = (imap s)[i := st]"
  "dat (put_imap i st s) = dat s" "bmap (put_imap i st s) = bmap s"
  "ofiles (put_imap i st s) = ofiles s" "omap (put_imap i st s) = omap s"
  "fs_params (put_imap i st s) = fs_params s" "g_library_mutex (put_imap i st s) = g_library_mutex s"
  by (simp_all add: table_defs put_defs)

lemma tables_put_dat [simp]:
  "inodes (put_dat d s) = inodes s" "imap (put_dat d s) = imap s"
  "dat (put_dat d s) = d" "bmap (put_dat d s) = bmap s"
  "ofiles (put_dat d s) = ofiles s" "omap (put_dat d s) = omap s"
  "fs_params (put_dat d s) = fs_params s" "g_library_mutex (put_dat d s) = g_library_mutex s"
  by (simp_all add: table_defs put_defs)

lemma tables_put_bmap [simp]:
  "inodes (put_bmap b st s) = inodes s" "imap (put_bmap b st s) = imap s"
  "dat (put_bmap b st s) = dat s" "bmap (put_bmap b st s) = (bmap s)[b := st]"
  "ofiles (put_bmap b st s) = ofiles s" "omap (put_bmap b st s) = omap s"
  "fs_params (put_bmap b st s) = fs_params s" "g_library_mutex (put_bmap b st s) = g_library_mutex s"
  by (simp_all add: table_defs put_defs)

lemma tables_put_ofile [simp]:
  "inodes (put_ofile h e s) = inodes s" "imap (put_ofile h e s) = imap s"
  "dat (put_ofile h e s) = dat s" "bmap (put_ofile h e s) = bmap s"
  "ofiles (put_ofile h e s) = (ofiles s)[h := e]" "omap (put_ofile h e s) = omap s"
  "fs_params (put_ofile h e s) = fs_params s" "g_library_mutex (put_ofile h e s) = g_library_mutex s"
  by (simp_all add: table_defs put_defs)

lemma tables_put_omap [simp]:
  "inodes (put_omap h st s) = inodes s" "imap (put_omap h st s) = imap s"
  "dat (put_omap h st s) = dat s" "bmap (put_omap h st s) = bmap s"
  "ofiles (put_omap h st s) = ofiles s" "omap (put_omap h st s) = (omap s)[h := st]"
  "fs_params (put_omap h st s) = fs_params s" "g_library_mutex (put_omap h st s) = g_library_mutex s"
  by (simp_all add: table_defs put_defs)

lemma tables_put_lock [simp]:
  "inodes (put_lock b s) = inodes s" "imap (put_lock b s) = imap s"
  "dat (put_lock b s) = dat s" "bmap (put_lock b s) = bmap s"
  "ofiles (put_lock b s) = ofiles s" "omap (put_lock b s) = omap s"
  "fs_params (put_lock b s) = fs_params s" "g_library_mutex (put_lock b s) = b"
  by (simp_all add: table_defs put_defs)

lemma sizes_put_inode [simp]:
  "INODE_TABLE_SIZE (put_inode i n s) = INODE_TABLE_SIZE s"
  "DATA_BLOCKS (put_inode i n s) = DATA_BLOCKS s"
  "MAX_OPEN_FILES (put_inode i n s) = MAX_OPEN_FILES s"
  "BLOCK_SIZE (put_inode i n s) = BLOCK_SIZE s"
  "MAX_DIR_ENTRIES (put_inode i n s) = MAX_DIR_ENTRIES s"
  by (simp_all add: size_defs)

lemma sizes_put_imap [simp]:
  "INODE_TABLE_SIZE (put_imap i st s) = INODE_TABLE_SIZE s"
  "DATA_BLOCKS (put_imap i st s) = DATA_BLOCKS s"
  "MAX_OPEN_FILES (put_imap i st s) = MAX_OPEN_FILES s"
  "BLOCK_SIZE (put_imap i st s) = BLOCK_SIZE s"
  "MAX_DIR_ENTRIES (put_imap i st s) = MAX_DIR_ENTRIES s"
  by (simp_all add: size_defs)

lemma sizes_put_dat [simp]:
  "INODE_TABLE_SIZE (put_dat d s) = INODE_TABLE_SIZE s"
  "DATA_BLOCKS (put_dat d s) = DATA_BLOCKS s"
  "MAX_OPEN_FILES (put_dat d s) = MAX_OPEN_FILES s"
  "BLOCK_SIZE (put_dat d s) = BLOCK_SIZE s"
  "MAX_DIR_ENTRIES (put_dat d s) = MAX_DIR_ENTRIES s"
  by (simp_all add: size_defs)

lemma sizes_put_bmap [simp]:
  "INODE_TABLE_SIZE (put_bmap b st s) = INODE_TABLE_SIZE s"
  "DATA_BLOCKS (put_bmap b st s) = DATA_BLOCKS s"
  "MAX_OPEN_FILES (put_bmap b st s) = MAX_OPEN_FILES s"
  "BLOCK_SIZE (put_bmap b st s) = BLOCK_SIZE s"
  "MAX_DIR_ENTRIES (put_bmap b st s) = MAX_DIR_ENTRIES s"
  by (simp_all add: size_defs)

lemma sizes_put_ofile [simp]:
  "INODE_TABLE_SIZE (put_ofile h e s) = INODE_TABLE_SIZE s"
  "DATA_BLOCKS (put_ofile h e s) = DATA_BLOCKS s"
  "MAX_OPEN_FILES (put_ofile h e s) = MAX_OPEN_FILES s"
  "BLOCK_SIZE (put_ofile h e s) = BLOCK_SIZE s"
  "MAX_DIR_ENTRIES (put_ofile h e s) = MAX_DIR_ENTRIES s"
  by (simp_all add: size_defs)

lemma sizes_put_omap [simp]:
  "INODE_TABLE_SIZE (put_omap h st s) = INODE_TABLE_SIZE s"
  "DATA_BLOCKS (put_omap h st s) = DATA_BLOCKS s"
  "MAX_OPEN_FILES (put_omap h st s) = MAX_OPEN_FILES s"
  "BLOCK_SIZE (put_omap h st s) = BLOCK_SIZE s"
  "MAX_DIR_ENTRIES (put_omap h st s) = MAX_DIR_ENTRIES s"
  by (simp_all add: size_defs)

lemma sizes_put_lock [simp]:
  "INODE_TABLE_SIZE (put_lock b s) = INODE_TABLE_SIZE s"
  "DATA_BLOCKS (put_lock b s) = DATA_BLOCKS s"
  "MAX_OPEN_FILES (put_lock b s) = MAX_OPEN_FILES s"
  "BLOCK_SIZE (put_lock b s) = BLOCK_SIZE s"
  "MAX_DIR_ENTRIES (put_lock b s) = MAX_DIR_ENTRIES s"
  by (simp_all add: size_defs)

lemma valid_put [simp]:
  "valid_inumber (put_inode i n s) x = valid_inumber s x"
  "valid_block_number (put_inode i n s) x = valid_block_number s x"
  "valid_file_handle (put_inode i n s) x = valid_file_handle s x"
  "valid_inumber (put_imap i st s) x = valid_inumber s x"
  "valid_block_number (put_imap i st s) x = valid_block_number s x"
  "valid_file_handle (put_imap i st s) x = valid_file_handle s x"
  "valid_inumber (put_dat d s) x = valid_inumber s x"
  "valid_block_number (put_dat d s) x = valid_block_number s x"
  "valid_file_handle (put_dat d s) x = valid_file_handle s x"
  "valid_inumber (put_bmap b st s) x = valid_inumber s x"
  "valid_block_number (put_bmap b st s) x = valid_block_number s x"
  "valid_file_handle (put_bmap b st s) x = valid_file_handle s x"
  "valid_inumber (put_ofile h e s) x = valid_inumber s x"
  "valid_block_number (put_ofile h e s) x = valid_block_number s x"
  "valid_file_handle (put_ofile h e s) x = valid_file_handle s x"
  "valid_inumber (put_omap h st s) x = valid_inumber s x"
  "valid_block_number (put_omap h st s) x = valid_block_number s x"
  "valid_file_handle (put_omap h st s) x = valid_file_handle s x"
  "valid_inumber (put_lock lk s) x = valid_inumber s x"
  "valid_block_number (put_lock lk s) x = valid_block_number s x"
  "valid_file_handle (put_lock lk s) x = valid_file_handle s x"
  by (simp_all add: valid_inumber_def valid_block_number_def valid_file_handle_def)

lemma put_collapse [simp]: "put_dat d (put_dat d' s) = put_dat d s"
  "put_lock b (put_lock b' s) = put_lock b s"
  by (simp_all add: put_defs)

text \<open>Updates of different tables commute; the order that puts inodes and blocks innermost.\<close>

lemma put_inode_norm:
  "put_inode i n (put_inode i n' s) = put_inode i n s"
  "put_inode i n (put_ofile h e s) = put_ofile h e (put_inode i n s)"
  "put_inode i n (put_dat d s) = put_dat d (put_inode i n s)"
  by (simp_all add: put_defs table_defs)

section \<open>Shape\<close>

definition fs_shape :: "fs_state \<Rightarrow> bool" where
  "fs_shape s \<longleftrightarrow>
     inode_table s \<noteq> None \<and> freeinode_ts s \<noteq> None \<and> fs_data s \<noteq> None \<and> free_blocks s \<noteq> None \<and>
     open_file_table s \<noteq> None \<and> free_open_file_entries s \<noteq> None \<and>
     length (inodes s) = INODE_TABLE_SIZE s \<and> length (imap s) = INODE_TABLE_SIZE s \<and>
     length (dat s) = DATA_BLOCKS s * unat (BLOCK_SIZE s) \<and> length (bmap s) = DATA_BLOCKS s \<and>
     length (ofiles s) = MAX_OPEN_FILES s \<and> length (omap s) = MAX_OPEN_FILES s \<and>
     INODE_TABLE_SIZE s < 2 ^ 31 \<and> DATA_BLOCKS s < 2 ^ 31 \<and> MAX_OPEN_FILES s < 2 ^ 31 \<and>
     DATA_BLOCKS s * unat (BLOCK_SIZE s) < 2 ^ 63"

lemma fs_shape_tables:
  assumes "fs_shape s"
  shows "inode_table s = Some (inodes s)" "freeinode_ts s = Some (imap s)"
    "fs_data s = Some (dat s)" "free_blocks s = Some (bmap s)"
    "open_file_table s = Some (ofiles s)" "free_open_file_entries s = Some (omap s)"
    "length (inodes s) = INODE_TABLE_SIZE s" "length (imap s) = INODE_TABLE_SIZE s"
    "length (dat s) = DATA_BLOCKS s * unat (BLOCK_SIZE s)" "length (bmap s) = DATA_BLOCKS s"
    "length (ofiles s) = MAX_OPEN_FILES s" "length (omap s) = MAX_OPEN_FILES s"
  using assms by (simp_all add: fs_shape_def table_defs)

lemma fs_shape_small:
  assumes "fs_shape s"
  shows "INODE_TABLE_SIZE s < 2 ^ 31" "DATA_BLOCKS s < 2 ^ 31" "MAX_OPEN_FILES s < 2 ^ 31"
    "DATA_BLOCKS s * unat (BLOCK_SIZE s) < 2 ^ 63"
  using assms by (simp_all add: fs_shape_def)

lemma fs_shape_put [simp]:
  assumes "fs_shape s"
  shows "fs_shape (put_inode i n s)" "fs_shape (put_imap i st s)" "fs_shape (put_bmap b st s)"
    "fs_shape (put_ofile h e s)" "fs_shape (put_omap h st s)" "fs_shape (put_lock lk s)"
    "length d = length (dat s) \<Longrightarrow> fs_shape (put_dat d s)"
proof -
  have some: "inode_table s \<noteq> None" "freeinode_ts s \<noteq> None" "fs_data s \<noteq> None"
    "free_blocks s \<noteq> None" "open_file_table s \<noteq> None" "free_open_file_entries s \<noteq> None"
    using assms by (simp_all add: fs_shape_def)
  note rest = fs_shape_tables(7-12) [OF assms] fs_shape_small [OF assms] some
  show "fs_shape (put_inode i n s)" "fs_shape (put_imap i st s)" "fs_shape (put_bmap b st s)"
    "fs_shape (put_ofile h e s)" "fs_shape (put_omap h st s)" "fs_shape (put_lock lk s)"
    "length d = length (dat s) \<Longrightarrow> fs_shape (put_dat d s)"
    using rest by (simp_all add: fs_shape_def) (simp_all add: put_defs)
qed

lemma fs_shape_put_lock [simp]: "fs_shape (put_lock b s) \<longleftrightarrow> fs_shape s"
  by (simp add: fs_shape_def) (simp add: put_defs)

text \<open>Releasing the mutex after a run of updates is the same as not having taken it.\<close>

lemma put_lock_commute [simp]:
  "put_lock b (put_inode i n s) = put_inode i n (put_lock b s)"
  "put_lock b (put_imap i st s) = put_imap i st (put_lock b s)"
  "put_lock b (put_dat d s) = put_dat d (put_lock b s)"
  "put_lock b (put_bmap k st s) = put_bmap k st (put_lock b s)"
  "put_lock b (put_ofile h e s) = put_ofile h e (put_lock b s)"
  "put_lock b (put_omap h st s) = put_omap h st (put_lock b s)"
  by (simp_all add: put_defs table_defs)

lemma put_lock_free [simp]: "\<not> g_library_mutex s \<Longrightarrow> put_lock False s = s"
  by (simp add: put_defs)

section \<open>Table operations as equations\<close>

named_theorems tab_simps "operations of state.c on an initialised state"

lemma rd_tables [tab_simps]:
  assumes "fs_shape s"
  shows "i < INODE_TABLE_SIZE s \<Longrightarrow> rd inode_table i s = Inr (inodes s ! i, s)"
    "i < INODE_TABLE_SIZE s \<Longrightarrow> rd freeinode_ts i s = Inr (imap s ! i, s)"
    "b < DATA_BLOCKS s \<Longrightarrow> rd free_blocks b s = Inr (bmap s ! b, s)"
    "h < MAX_OPEN_FILES s \<Longrightarrow> rd open_file_table h s = Inr (ofiles s ! h, s)"
    "h < MAX_OPEN_FILES s \<Longrightarrow> rd free_open_file_entries h s = Inr (omap s ! h, s)"
  using fs_shape_tables [OF assms] by (simp_all add: rd_app)

lemma wr_tables [tab_simps]:
  assumes "fs_shape s"
  shows "i < INODE_TABLE_SIZE s \<Longrightarrow> wr inode_table inode_table_update i n s = Inr ((), put_inode i n s)"
    "i < INODE_TABLE_SIZE s \<Longrightarrow> wr freeinode_ts freeinode_ts_update i st s = Inr ((), put_imap i st s)"
    "b < DATA_BLOCKS s \<Longrightarrow> wr free_blocks free_blocks_update b st s = Inr ((), put_bmap b st s)"
    "h < MAX_OPEN_FILES s \<Longrightarrow> wr open_file_table open_file_table_update h e s = Inr ((), put_ofile h e s)"
    "h < MAX_OPEN_FILES s \<Longrightarrow>
       wr free_open_file_entries free_open_file_entries_update h st s = Inr ((), put_omap h st s)"
  using fs_shape_tables [OF assms] by (simp_all add: wr_app put_defs)

lemma set_inode_eq [tab_simps]:
  "fs_shape s \<Longrightarrow> i < INODE_TABLE_SIZE s \<Longrightarrow>
     set_inode i f s = Inr ((), put_inode i (f (inodes s ! i)) s)"
  by (simp add: set_inode_def prog_simps tab_simps)

lemma set_open_file_eq [tab_simps]:
  "fs_shape s \<Longrightarrow> h < MAX_OPEN_FILES s \<Longrightarrow>
     set_open_file h f s = Inr ((), put_ofile h (f (ofiles s ! h)) s)"
  by (simp add: set_open_file_def prog_simps tab_simps)

lemma mem_write_eq [tab_simps]:
  "fs_shape s \<Longrightarrow> off + length ys \<le> length (dat s) \<Longrightarrow>
     mem_write off ys s = Inr ((), put_dat (write_at off ys (dat s)) s)"
  by (simp add: mem_write_def prog_simps fs_shape_tables c_store_def put_defs)

lemma mem_read_eq [tab_simps]:
  "fs_shape s \<Longrightarrow> off + n \<le> length (dat s) \<Longrightarrow> mem_read off n s = Inr (read_at off n (dat s), s)"
  by (simp add: mem_read_def prog_simps fs_shape_tables c_load_def)

lemma mem_from_eq [tab_simps]:
  "fs_shape s \<Longrightarrow> mem_from off s = Inr (drop off (dat s), s)"
  by (simp add: mem_from_def prog_simps fs_shape_tables)

text \<open>Allocation takes the first free entry; -1 when there is none.\<close>

definition first_free :: "allocation_state_t list \<Rightarrow> nat option" where
  "first_free m = first_index (\<lambda>i. m ! i = FREE) (length m)"

lemma first_free_Some:
  "first_free m = Some k \<longleftrightarrow> k < length m \<and> m ! k = FREE \<and> (\<forall>j<k. m ! j = TAKEN)"
  by (auto simp: first_free_def first_index_Some) (metis allocation_state_t.exhaust)

lemma first_free_None: "first_free m = None \<longleftrightarrow> (\<forall>j<length m. m ! j = TAKEN)"
  by (auto simp: first_free_def first_index_None) (metis allocation_state_t.exhaust)

lemma data_block_alloc_eq [tab_simps]:
  assumes "fs_shape s"
  shows "data_block_alloc s = Inr (case first_free (bmap s) of None \<Rightarrow> (- 1, s)
     | Some b \<Rightarrow> (int b, put_bmap b TAKEN s))"
proof -
  have "for_ret 0 (DATA_BLOCKS s) (\<lambda>i. bind (rd free_blocks i) (\<lambda>st.
        if st = FREE
        then andthen (wr free_blocks free_blocks_update i TAKEN) (ret (Some (c_int i)))
        else ret None)) s =
      (case first_free (bmap s) of None \<Rightarrow> Inr (None, s)
       | Some k \<Rightarrow> Inr (Some (int k), put_bmap k TAKEN s))"
    unfolding first_free_def fs_shape_tables(10) [OF assms]
    by (rule for_ret_first)
      (use assms fs_shape_small(2) [OF assms] in \<open>simp add: prog_simps tab_simps c_int_small\<close>)
  then show ?thesis
    by (simp add: data_block_alloc_def prog_simps split: option.splits)
qed

lemma inode_alloc_eq [tab_simps]:
  assumes "fs_shape s"
  shows "inode_alloc s = Inr (case first_free (imap s) of None \<Rightarrow> (- 1, s)
     | Some i \<Rightarrow> (int i, put_imap i TAKEN s))"
proof -
  have "for_ret 0 (INODE_TABLE_SIZE s) (\<lambda>i. bind (rd freeinode_ts i) (\<lambda>st.
        if st = FREE
        then andthen (wr freeinode_ts freeinode_ts_update i TAKEN) (ret (Some (c_int i)))
        else ret None)) s =
      (case first_free (imap s) of None \<Rightarrow> Inr (None, s)
       | Some k \<Rightarrow> Inr (Some (int k), put_imap k TAKEN s))"
    unfolding first_free_def fs_shape_tables(8) [OF assms]
    by (rule for_ret_first)
      (use assms fs_shape_small(1) [OF assms] in \<open>simp add: prog_simps tab_simps c_int_small\<close>)
  then show ?thesis
    by (simp add: inode_alloc_def prog_simps split: option.splits)
qed

lemma add_to_open_file_table_eq [tab_simps]:
  assumes "fs_shape s"
  shows "add_to_open_file_table inumber offset s = Inr (case first_free (omap s) of None \<Rightarrow> (- 1, s)
     | Some h \<Rightarrow> (int h, put_ofile h \<lparr>of_inumber = inumber, of_offset = offset\<rparr> (put_omap h TAKEN s)))"
proof -
  have "for_ret 0 (MAX_OPEN_FILES s) (\<lambda>i. bind (rd free_open_file_entries i) (\<lambda>st.
        if st = FREE
        then
          andthen (wr free_open_file_entries free_open_file_entries_update i TAKEN)
          (andthen (wr open_file_table open_file_table_update i
                     \<lparr>of_inumber = inumber, of_offset = offset\<rparr>)
          (ret (Some (int i))))
        else ret None)) s =
      (case first_free (omap s) of None \<Rightarrow> Inr (None, s)
       | Some h \<Rightarrow> Inr (Some (int h),
           put_ofile h \<lparr>of_inumber = inumber, of_offset = offset\<rparr> (put_omap h TAKEN s)))"
    unfolding first_free_def fs_shape_tables(12) [OF assms]
    by (rule for_ret_first) (use assms in \<open>simp add: prog_simps tab_simps\<close>)
  then show ?thesis
    by (simp add: add_to_open_file_table_def prog_simps split: option.splits)
qed

text \<open>The address of a block; the product does not wrap on an initialised state.\<close>

definition blk_off :: "fs_state \<Rightarrow> int \<Rightarrow> nat" where
  "blk_off s b = nat b * unat (BLOCK_SIZE s)"

lemma data_block_get_eq [tab_simps]:
  assumes "fs_shape s" "valid_block_number s b"
  shows "data_block_get b s = Inr (blk_off s b, s)"
proof -
  have b: "0 \<le> b" "nat b < DATA_BLOCKS s" using assms(2) by (auto simp: valid_block_number_def)
  have "nat b * unat (BLOCK_SIZE s) \<le> DATA_BLOCKS s * unat (BLOCK_SIZE s)"
    using b by (intro mult_right_mono) simp_all
  from this fs_shape_small(4) [OF assms(1)]
  have lt: "nat b * unat (BLOCK_SIZE s) < 2 ^ 63" by (rule le_less_trans)
  have nb: "nat b < 2 ^ 64" using b fs_shape_small(2) [OF assms(1)] by simp
  have "unat (word_of_int b * BLOCK_SIZE s) = nat b * unat (BLOCK_SIZE s)"
  proof -
    have "(word_of_int b :: u64) = word_of_nat (nat b)" using b by simp
    moreover have "unat (word_of_nat (nat b) :: u64) = nat b"
      using nb by (simp add: unat_of_nat)
    ultimately show ?thesis using lt by (simp add: unat_word_ariths)
  qed
  then show ?thesis
    using assms by (simp add: data_block_get_def prog_simps blk_off_def)
qed

lemma data_block_free_eq [tab_simps]:
  "fs_shape s \<Longrightarrow> valid_block_number s b \<Longrightarrow>
     data_block_free b s = Inr ((), put_bmap (nat b) FREE s)"
  by (auto simp: data_block_free_def prog_simps tab_simps valid_block_number_def)

lemma inode_get_eq [tab_simps]: "valid_inumber s i \<Longrightarrow> inode_get i s = Inr (nat i, s)"
  by (simp add: inode_get_def prog_simps)

lemma get_open_file_entry_eq:
  "fs_shape s \<Longrightarrow> get_open_file_entry h s =
     Inr (if valid_file_handle s h \<and> omap s ! nat h = TAKEN then Some (nat h) else None, s)"
  by (auto simp: get_open_file_entry_def prog_simps tab_simps valid_file_handle_def)

lemma remove_from_open_file_table_eq:
  "fs_shape s \<Longrightarrow> valid_file_handle s h \<Longrightarrow> omap s ! nat h = TAKEN \<Longrightarrow>
     remove_from_open_file_table h s = Inr ((), put_omap (nat h) FREE s)"
  by (auto simp: remove_from_open_file_table_def prog_simps tab_simps valid_file_handle_def)

end
