(* ===== verification/FsDir.thy ===== *)
theory FsDir
  imports FsTables
begin

text \<open>
  The root directory as a list of slots: for each entry of its data block, the 40 bytes
  of \<open>d_name\<close> and the value of \<open>d_inumber\<close>. The three directory operations of
  fs/state.c, which work on the bytes of the data area, are shown to be a search, an
  insertion and a deletion in that list.
\<close>

type_synonym slot = "byte list \<times> int"

definition slot_at :: "byte list \<Rightarrow> nat \<Rightarrow> nat \<Rightarrow> slot" where
  "slot_at d p k = (read_at (d_name_at p k) MAX_FILE_NAME d, bytes_int32 (read_at (d_inumber_at p k) 4 d))"

definition slots_at :: "byte list \<Rightarrow> nat \<Rightarrow> nat \<Rightarrow> slot list" where
  "slots_at d p n = map (slot_at d p) [0..<n]"

definition slot_used :: "slot \<Rightarrow> bool" where
  "slot_used sl \<longleftrightarrow> snd sl \<noteq> - 1"

definition slot_name :: "slot \<Rightarrow> byte list" where
  "slot_name sl = c_str (fst sl)"

lemmas dir_layout = d_name_at_def d_inumber_at_def sizeof_dir_entry_def MAX_FILE_NAME_def

lemma length_slots_at [simp]: "length (slots_at d p n) = n"
  by (simp add: slots_at_def)

lemma nth_slots_at [simp]: "k < n \<Longrightarrow> slots_at d p n ! k = slot_at d p k"
  by (simp add: slots_at_def)

text \<open>Storing a name or an inumber in the block changes one slot.\<close>

lemma slot_at_write_name:
  assumes "p + n * sizeof_dir_entry \<le> length d" "k < n" "j < n" "length nm = MAX_FILE_NAME"
  shows "slot_at (write_at (d_name_at p k) nm d) p j =
    (if j = k then (nm, snd (slot_at d p k)) else slot_at d p j)"
proof (cases "j = k")
  case True
  have "d_name_at p k + length nm \<le> length d" using assms by (simp add: dir_layout)
  moreover have "read_at (d_inumber_at p k) 4 (write_at (d_name_at p k) nm d) = read_at (d_inumber_at p k) 4 d"
    using assms by (intro read_at_write_at_disjoint) (auto simp: dir_layout)
  ultimately show ?thesis
    using True assms(4) read_at_write_at_same [of "d_name_at p k" nm d] by (simp add: slot_at_def)
next
  case False
  then have far: "j * 44 + 44 \<le> k * 44 \<or> k * 44 + 44 \<le> j * 44" by linarith
  have "read_at (d_inumber_at p j) 4 (write_at (d_name_at p k) nm d) = read_at (d_inumber_at p j) 4 d"
    using assms far by (intro read_at_write_at_disjoint) (auto simp: dir_layout)
  moreover have "read_at (d_name_at p j) MAX_FILE_NAME (write_at (d_name_at p k) nm d) =
      read_at (d_name_at p j) MAX_FILE_NAME d"
    using assms far by (intro read_at_write_at_disjoint) (auto simp: dir_layout)
  ultimately show ?thesis using False by (simp add: slot_at_def)
qed

lemma slot_at_write_inumber:
  assumes "p + n * sizeof_dir_entry \<le> length d" "k < n" "j < n" "int32_range i"
  shows "slot_at (write_at (d_inumber_at p k) (int32_bytes i) d) p j =
    (if j = k then (fst (slot_at d p k), i) else slot_at d p j)"
proof (cases "j = k")
  case True
  have "d_inumber_at p k + length (int32_bytes i) \<le> length d" using assms by (simp add: dir_layout)
  from read_at_write_at_same [OF this]
  have "read_at (d_inumber_at p k) 4 (write_at (d_inumber_at p k) (int32_bytes i) d) = int32_bytes i"
    by simp
  moreover have "read_at (d_name_at p k) MAX_FILE_NAME (write_at (d_inumber_at p k) (int32_bytes i) d) =
      read_at (d_name_at p k) MAX_FILE_NAME d"
    using assms by (intro read_at_write_at_disjoint) (auto simp: dir_layout)
  ultimately show ?thesis using True assms(4) by (simp add: slot_at_def bytes_int32_bytes)
next
  case False
  then have far: "j * 44 + 44 \<le> k * 44 \<or> k * 44 + 44 \<le> j * 44" by linarith
  have "read_at (d_inumber_at p j) 4 (write_at (d_inumber_at p k) (int32_bytes i) d) = read_at (d_inumber_at p j) 4 d"
    using assms far by (intro read_at_write_at_disjoint) (auto simp: dir_layout)
  moreover have "read_at (d_name_at p j) MAX_FILE_NAME (write_at (d_inumber_at p k) (int32_bytes i) d) =
      read_at (d_name_at p j) MAX_FILE_NAME d"
    using assms far by (intro read_at_write_at_disjoint) (auto simp: dir_layout)
  ultimately show ?thesis using False by (simp add: slot_at_def)
qed

lemma slots_at_write_name:
  assumes "p + n * sizeof_dir_entry \<le> length d" "k < n" "length nm = MAX_FILE_NAME"
  shows "slots_at (write_at (d_name_at p k) nm d) p n =
    (slots_at d p n)[k := (nm, snd (slots_at d p n ! k))]"
  using assms by (intro nth_equalityI) (auto simp: slot_at_write_name nth_list_update)

lemma slots_at_write_inumber:
  assumes "p + n * sizeof_dir_entry \<le> length d" "k < n" "int32_range i"
  shows "slots_at (write_at (d_inumber_at p k) (int32_bytes i) d) p n =
    (slots_at d p n)[k := (fst (slots_at d p n ! k), i)]"
  using assms by (intro nth_equalityI) (auto simp: slot_at_write_inumber nth_list_update)

lemma slots_at_write_outside:
  assumes "off + length ys \<le> length d" "off + length ys \<le> p \<or> p + n * sizeof_dir_entry \<le> off"
  shows "slots_at (write_at off ys d) p n = slots_at d p n"
proof (rule nth_equalityI)
  show "length (slots_at (write_at off ys d) p n) = length (slots_at d p n)" by simp
next
  fix k assume "k < length (slots_at (write_at off ys d) p n)"
  then have k: "k < n" by simp
  then have "k * 44 + 44 \<le> n * 44" by linarith
  with assms have "read_at (d_name_at p k) MAX_FILE_NAME (write_at off ys d) = read_at (d_name_at p k) MAX_FILE_NAME d"
    "read_at (d_inumber_at p k) 4 (write_at off ys d) = read_at (d_inumber_at p k) 4 d"
    by (auto simp: dir_layout intro!: read_at_write_at_disjoint)
  with k show "slots_at (write_at off ys d) p n ! k = slots_at d p n ! k"
    by (simp add: slot_at_def)
qed

section \<open>The three operations\<close>

definition dir_off :: "fs_state \<Rightarrow> nat \<Rightarrow> nat" where
  "dir_off s r = blk_off s (i_data_block (inodes s ! r))"

definition dir_slots :: "fs_state \<Rightarrow> nat \<Rightarrow> slot list" where
  "dir_slots s r = slots_at (dat s) (dir_off s r) (MAX_DIR_ENTRIES s)"

text \<open>Inode \<open>r\<close> is a directory with a block.\<close>

definition dir_ready :: "fs_state \<Rightarrow> nat \<Rightarrow> bool" where
  "dir_ready s r \<longleftrightarrow> fs_shape s \<and> r < INODE_TABLE_SIZE s \<and>
     i_node_type (inodes s ! r) = T_DIRECTORY \<and> valid_block_number s (i_data_block (inodes s ! r))"

lemma dir_readyD:
  assumes "dir_ready s r"
  shows "fs_shape s" "r < INODE_TABLE_SIZE s" "i_node_type (inodes s ! r) = T_DIRECTORY"
    "valid_block_number s (i_data_block (inodes s ! r))"
  using assms by (simp_all add: dir_ready_def)

lemma blk_in_dat:
  assumes "fs_shape s" "valid_block_number s b"
  shows "blk_off s b + unat (BLOCK_SIZE s) \<le> length (dat s)"
proof -
  have "Suc (nat b) \<le> DATA_BLOCKS s" using assms(2) by (auto simp: valid_block_number_def)
  then have "Suc (nat b) * unat (BLOCK_SIZE s) \<le> DATA_BLOCKS s * unat (BLOCK_SIZE s)"
    by (rule mult_right_mono) simp
  then show ?thesis using fs_shape_tables(9) [OF assms(1)] by (simp add: blk_off_def)
qed

lemma dir_in_dat:
  assumes "dir_ready s r"
  shows "dir_off s r + MAX_DIR_ENTRIES s * sizeof_dir_entry \<le> length (dat s)"
proof -
  have "MAX_DIR_ENTRIES s * sizeof_dir_entry \<le> unat (BLOCK_SIZE s)"
    by (simp add: MAX_DIR_ENTRIES_def)
  moreover have "dir_off s r + unat (BLOCK_SIZE s) \<le> length (dat s)"
    using blk_in_dat [OF dir_readyD(1,4) [OF assms]] by (simp add: dir_off_def)
  ultimately show ?thesis by linarith
qed

lemma slot_in_dat:
  assumes "dir_ready s r" "k < MAX_DIR_ENTRIES s"
  shows "d_name_at (dir_off s r) k + MAX_FILE_NAME \<le> length (dat s)"
    "d_inumber_at (dir_off s r) k + 4 \<le> length (dat s)"
proof -
  have "Suc k * 44 \<le> MAX_DIR_ENTRIES s * 44" using assms(2) by simp
  with dir_in_dat [OF assms(1)]
  show "d_name_at (dir_off s r) k + MAX_FILE_NAME \<le> length (dat s)"
    "d_inumber_at (dir_off s r) k + 4 \<le> length (dat s)"
    by (simp_all add: dir_layout)
qed

lemma dir_slots_nth:
  "k < MAX_DIR_ENTRIES s \<Longrightarrow> dir_slots s r ! k =
    (read_at (d_name_at (dir_off s r) k) MAX_FILE_NAME (dat s),
     bytes_int32 (read_at (d_inumber_at (dir_off s r) k) 4 (dat s)))"
  by (simp add: dir_slots_def slot_at_def)

text \<open>The string a slot's name is, as the string functions see it in the data area.\<close>

lemma slot_string:
  assumes "k < MAX_DIR_ENTRIES s" "is_cstr (fst (dir_slots s r ! k))"
  shows "is_cstr (drop (d_name_at (dir_off s r) k) (dat s))"
    "c_str (drop (d_name_at (dir_off s r) k) (dat s)) = slot_name (dir_slots s r ! k)"
    "length (slot_name (dir_slots s r ! k)) < MAX_FILE_NAME"
proof -
  let ?m = "drop (d_name_at (dir_off s r) k) (dat s)"
  have t: "fst (dir_slots s r ! k) = take MAX_FILE_NAME ?m"
    using assms(1) by (simp add: dir_slots_nth read_at_def)
  with assms(2) have tk: "is_cstr (take MAX_FILE_NAME ?m)" by simp
  show "is_cstr ?m" using tk by (rule is_cstr_take)
  show "c_str ?m = slot_name (dir_slots s r ! k)"
    using c_str_take [OF tk] by (simp only: slot_name_def t)
  show "length (slot_name (dir_slots s r ! k)) < MAX_FILE_NAME"
    using length_c_str [OF tk] by (simp only: slot_name_def t) simp
qed

definition dir_lookup :: "slot list \<Rightarrow> byte list \<Rightarrow> nat option" where
  "dir_lookup sl name = first_index (\<lambda>k. slot_used (sl ! k) \<and> slot_name (sl ! k) = name) (length sl)"

definition dir_vacant :: "slot list \<Rightarrow> nat option" where
  "dir_vacant sl = first_index (\<lambda>k. \<not> slot_used (sl ! k)) (length sl)"

lemma length_dir_slots [simp]: "length (dir_slots s r) = MAX_DIR_ENTRIES s"
  by (simp add: dir_slots_def)

lemma find_in_dir_eq:
  assumes r: "dir_ready s r" and nm: "is_cstr name"
    and names: "\<And>k. k < MAX_DIR_ENTRIES s \<Longrightarrow> slot_used (dir_slots s r ! k) \<Longrightarrow> is_cstr (fst (dir_slots s r ! k))"
  shows "find_in_dir r name s = Inr (case dir_lookup (dir_slots s r) (c_str name) of
     None \<Rightarrow> - 1 | Some k \<Rightarrow> snd (dir_slots s r ! k), s)"
proof -
  let ?p = "dir_off s r"
  let ?body = "\<lambda>i. bind (mem_read (d_inumber_at ?p i) 4) (\<lambda>w.
         if bytes_int32 w \<noteq> - 1 then
           bind (mem_from (d_name_at ?p i)) (\<lambda>d_name.
           bind (defined (c_strncmp d_name name MAX_FILE_NAME)) (\<lambda>c.
           ret (if c = 0 then Some (bytes_int32 w) else None)))
         else ret None)"
  have "?body k s = (if slot_used (dir_slots s r ! k) \<and> slot_name (dir_slots s r ! k) = c_str name
      then Inr (Some (snd (dir_slots s r ! k)), s) else Inr (None, s))"
    if k: "k < MAX_DIR_ENTRIES s" for k
  proof -
    have w: "mem_read (d_inumber_at ?p k) 4 s = Inr (read_at (d_inumber_at ?p k) 4 (dat s), s)"
      using slot_in_dat(2) [OF r k] by (simp add: tab_simps dir_readyD(1) [OF r])
    show ?thesis
    proof (cases "slot_used (dir_slots s r ! k)")
      case False
      with w k show ?thesis by (simp add: prog_simps slot_used_def dir_slots_nth)
    next
      case True
      note str = slot_string [OF k names [OF k True]]
      obtain v where v: "c_strncmp (drop (d_name_at ?p k) (dat s)) name MAX_FILE_NAME = Some v"
        "v = 0 \<longleftrightarrow> slot_name (dir_slots s r ! k) = c_str name"
        using c_strncmp_zero [OF str(1) nm, of MAX_FILE_NAME] str by auto
      with True w k show ?thesis
        by (simp add: prog_simps tab_simps dir_readyD(1) [OF r] slot_used_def dir_slots_nth)
    qed
  qed
  then have "for_ret 0 (MAX_DIR_ENTRIES s) ?body s = (case dir_lookup (dir_slots s r) (c_str name) of
      None \<Rightarrow> Inr (None, s) | Some k \<Rightarrow> Inr (Some (snd (dir_slots s r ! k)), s))"
    unfolding dir_lookup_def length_dir_slots by (rule for_ret_first)
  then show ?thesis
    using dir_readyD [OF r]
    by (simp add: find_in_dir_def prog_simps tab_simps flip: dir_off_def split: option.splits)
qed

text \<open>The data area after an entry is stored in, or wiped from, slot \<open>k\<close>.\<close>

definition padded :: "byte list \<Rightarrow> byte list" where
  "padded name = name @ replicate (MAX_FILE_NAME - length name) 0"

definition dat_put_slot :: "fs_state \<Rightarrow> nat \<Rightarrow> nat \<Rightarrow> byte list \<Rightarrow> int \<Rightarrow> byte list" where
  "dat_put_slot s r k nm i =
     write_at (d_name_at (dir_off s r) k) nm
       (write_at (d_inumber_at (dir_off s r) k) (int32_bytes i) (dat s))"

lemma length_dat_put_slot:
  "dir_ready s r \<Longrightarrow> k < MAX_DIR_ENTRIES s \<Longrightarrow> length nm = MAX_FILE_NAME \<Longrightarrow>
     length (dat_put_slot s r k nm i) = length (dat s)"
  using slot_in_dat [of s r k] by (simp add: dat_put_slot_def)

lemma slots_put_slot:
  assumes "dir_ready s r" "k < MAX_DIR_ENTRIES s" "length nm = MAX_FILE_NAME" "int32_range i"
  shows "slots_at (dat_put_slot s r k nm i) (dir_off s r) (MAX_DIR_ENTRIES s) =
    (dir_slots s r)[k := (nm, i)]"
  using assms dir_in_dat [OF assms(1)] slot_in_dat [OF assms(1,2)]
  by (simp add: dat_put_slot_def slots_at_write_name slots_at_write_inumber dir_slots_def)

lemma dat_put_slot_outside:
  assumes "dir_ready s r" "k < MAX_DIR_ENTRIES s" "length nm = MAX_FILE_NAME"
    and "q + n \<le> dir_off s r \<or> dir_off s r + unat (BLOCK_SIZE s) \<le> q"
  shows "read_at q n (dat_put_slot s r k nm i) = read_at q n (dat s)"
proof -
  have "Suc k * 44 \<le> MAX_DIR_ENTRIES s * 44" using assms(2) by simp
  moreover have "MAX_DIR_ENTRIES s * 44 \<le> unat (BLOCK_SIZE s)"
    by (simp add: MAX_DIR_ENTRIES_def sizeof_dir_entry_def)
  ultimately have k: "k * 44 + 44 \<le> unat (BLOCK_SIZE s)" by simp
  let ?d = "write_at (d_inumber_at (dir_off s r) k) (int32_bytes i) (dat s)"
  have "read_at q n (dat_put_slot s r k nm i) = read_at q n ?d"
    unfolding dat_put_slot_def using assms k slot_in_dat [OF assms(1,2)]
    by (intro read_at_write_at_disjoint) (auto simp: dir_layout)
  also have "\<dots> = read_at q n (dat s)"
    using assms k slot_in_dat [OF assms(1,2)]
    by (intro read_at_write_at_disjoint) (auto simp: dir_layout)
  finally show ?thesis .
qed

lemma clear_dir_entry_eq:
  assumes r: "dir_ready s r" and nm: "is_cstr name" and k: "k < MAX_DIR_ENTRIES s"
    and strs: "\<And>j. j \<le> k \<Longrightarrow> is_cstr (fst (dir_slots s r ! j))"
    and hit: "slot_name (dir_slots s r ! k) = c_str name"
    and miss: "\<And>j. j < k \<Longrightarrow> slot_name (dir_slots s r ! j) \<noteq> c_str name"
  shows "clear_dir_entry r name s =
    Inr (0, put_dat (dat_put_slot s r k (replicate MAX_FILE_NAME 0) (- 1)) s)"
proof -
  let ?p = "dir_off s r"
  let ?body = "\<lambda>i. bind (mem_from (d_name_at ?p i)) (\<lambda>d_name.
         bind (defined (c_strcmp d_name name)) (\<lambda>c.
         if c = 0 then
           andthen (mem_write (d_inumber_at ?p i) (int32_bytes (- 1)))
           (andthen (mem_write (d_name_at ?p i) (replicate MAX_FILE_NAME 0))
           (ret (Some (0 :: int))))
         else ret None))"
  let ?t = "\<lambda>k. put_dat (dat_put_slot s r k (replicate MAX_FILE_NAME 0) (- 1)) s"
  have "?body j s = (if slot_name (dir_slots s r ! j) = c_str name
      then Inr (Some 0, ?t j) else Inr (None, s))" if j: "j \<le> k" for j
  proof -
    have jn: "j < MAX_DIR_ENTRIES s" using j k by simp
    note str = slot_string [OF jn strs [OF j]]
    obtain v where v: "c_strcmp (drop (d_name_at ?p j) (dat s)) name = Some v"
      "v = 0 \<longleftrightarrow> slot_name (dir_slots s r ! j) = c_str name"
      using c_strcmp_zero [OF str(1) nm] str by auto
    then show ?thesis
      using slot_in_dat [OF r jn] dir_readyD(1) [OF r]
      by (simp add: prog_simps tab_simps dat_put_slot_def)
  qed
  then have "for_ret 0 (MAX_DIR_ENTRIES s) ?body s = Inr (Some 0, ?t k)"
    using k hit miss by (intro for_ret_hit [where k = k]) simp_all
  then show ?thesis
    using dir_readyD [OF r]
    by (simp add: clear_dir_entry_def prog_simps tab_simps flip: dir_off_def)
qed

lemma add_dir_entry_eq:
  assumes r: "dir_ready s r" and nm: "is_cstr name"
  shows "add_dir_entry r name i s = Inr (
     if c_str name = [] \<or> length (c_str name) > MAX_FILE_NAME - 1 then (- 1, s)
     else case dir_vacant (dir_slots s r) of
            None \<Rightarrow> (- 1, s)
          | Some k \<Rightarrow> (0, put_dat (dat_put_slot s r k (padded (c_str name)) i) s))"
proof (cases "c_str name = [] \<or> length (c_str name) > MAX_FILE_NAME - 1")
  case True
  then show ?thesis by (auto simp: add_dir_entry_def prog_simps c_strlen_some [OF nm])
next
  case False
  let ?p = "dir_off s r"
  let ?len = "length (c_str name)"
  let ?nm = "c_str name @ replicate (MAX_FILE_NAME - 1 - ?len) 0"
  let ?body = "\<lambda>k. bind (mem_read (d_inumber_at ?p k) 4) (\<lambda>w.
           if bytes_int32 w = - 1 then
             andthen (mem_write (d_inumber_at ?p k) (int32_bytes i))
             (bind (defined (c_strncpy name (MAX_FILE_NAME - 1))) (\<lambda>nm.
              andthen (mem_write (d_name_at ?p k) nm)
              (andthen (mem_write (d_name_at ?p k + (MAX_FILE_NAME - 1)) [0])
              (ret (Some (0 :: int))))))
           else ret None)"
  let ?t = "\<lambda>k. put_dat (dat_put_slot s r k (padded (c_str name)) i) s"
  have cpy: "c_strncpy name (MAX_FILE_NAME - 1) = Some ?nm"
    using False nm by (intro c_strncpy_fits) auto
  have len: "length ?nm = MAX_FILE_NAME - 1" using False by (simp add: MAX_FILE_NAME_def)
  have "MAX_FILE_NAME - ?len = Suc (MAX_FILE_NAME - 1 - ?len)"
    using False unfolding MAX_FILE_NAME_def by linarith
  then have pad: "?nm @ [0] = padded (c_str name)"
    by (simp add: padded_def replicate_append_same)
  have "?body k s = (if \<not> slot_used (dir_slots s r ! k)
      then Inr (Some 0, ?t k) else Inr (None, s))" if k: "k < MAX_DIR_ENTRIES s" for k
  proof -
    let ?d = "write_at (d_inumber_at ?p k) (int32_bytes i) (dat s)"
    have fits: "d_name_at ?p k + MAX_FILE_NAME \<le> length ?d" and "0 < MAX_FILE_NAME"
      using slot_in_dat [OF r k] by (simp_all add: MAX_FILE_NAME_def)
    then have "write_at (d_name_at ?p k + (MAX_FILE_NAME - 1)) [0] (write_at (d_name_at ?p k) ?nm ?d)
        = write_at (d_name_at ?p k) (?nm @ [0]) ?d"
      using write_at_append [of "d_name_at ?p k" ?nm "[0]" ?d] len by simp
    moreover have "d_name_at ?p k + (MAX_FILE_NAME - 1) + length [0] \<le> length (dat s)"
      using slot_in_dat(1) [OF r k] by (simp add: MAX_FILE_NAME_def)
    ultimately show ?thesis
      using slot_in_dat [OF r k] dir_readyD(1) [OF r] len fits k cpy pad
      by (simp add: prog_simps tab_simps dat_put_slot_def slot_used_def dir_slots_nth)
  qed
  then have "for_ret 0 (MAX_DIR_ENTRIES s) ?body s = (case dir_vacant (dir_slots s r) of
      None \<Rightarrow> Inr (None, s) | Some k \<Rightarrow> Inr (Some 0, ?t k))"
    unfolding dir_vacant_def length_dir_slots by (rule for_ret_first)
  then show ?thesis
    using dir_readyD [OF r] False
    by (simp add: add_dir_entry_def prog_simps tab_simps c_strlen_some [OF nm]
        flip: dir_off_def split: option.splits)
qed

end
