(* ===== verification/FsInv.thy ===== *)
theory FsInv
  imports FsDir
begin

text \<open>
  The invariant of the file system and its preservation by each update the operations
  make. It says that the root directory is inode 0 and the only directory; that a block
  is taken exactly when one taken inode owns it; that the used directory slots and the
  taken file inodes correspond one to one, with distinct non-empty names, and the slots
  before a used one hold a string (the names of the slots that were never used are
  uninitialised memory); and that every open file is a file that exists, with an offset
  inside it.
\<close>

section \<open>The invariant\<close>

definition owns :: "inode_t list \<Rightarrow> allocation_state_t list \<Rightarrow> nat \<Rightarrow> nat \<Rightarrow> bool" where
  "owns its im i b \<longleftrightarrow>
     i < length its \<and> im ! i = TAKEN \<and> i_size (its ! i) > 0 \<and> i_data_block (its ! i) = int b"

definition blocks_ok :: "inode_t list \<Rightarrow> allocation_state_t list \<Rightarrow> allocation_state_t list \<Rightarrow> u64 \<Rightarrow> bool" where
  "blocks_ok its im bm bs \<longleftrightarrow>
     (\<forall>i<length its. im ! i = TAKEN \<and> i_size (its ! i) > 0 \<longrightarrow>
        i_size (its ! i) \<le> bs \<and> (\<exists>b<length bm. i_data_block (its ! i) = int b)) \<and>
     (\<forall>i j b. owns its im i b \<and> owns its im j b \<longrightarrow> i = j) \<and>
     (\<forall>b<length bm. bm ! b = TAKEN \<longleftrightarrow> (\<exists>i. owns its im i b))"

definition root_ok :: "inode_t list \<Rightarrow> allocation_state_t list \<Rightarrow> u64 \<Rightarrow> bool" where
  "root_ok its im bs \<longleftrightarrow>
     0 < length its \<and> 0 < bs \<and> im ! 0 = TAKEN \<and>
     i_node_type (its ! 0) = T_DIRECTORY \<and> i_size (its ! 0) = bs \<and>
     (\<forall>i<length its. 0 < i \<and> im ! i = TAKEN \<longrightarrow> i_node_type (its ! i) = T_FILE)"

definition file_inum :: "allocation_state_t list \<Rightarrow> int \<Rightarrow> bool" where
  "file_inum im i \<longleftrightarrow> 0 < i \<and> nat i < length im \<and> im ! nat i = TAKEN"

definition dir_ok :: "slot list \<Rightarrow> allocation_state_t list \<Rightarrow> bool" where
  "dir_ok sl im \<longleftrightarrow>
     (\<forall>k<length sl. slot_used (sl ! k) \<longrightarrow>
        slot_name (sl ! k) \<noteq> [] \<and> file_inum im (snd (sl ! k)) \<and> (\<forall>j\<le>k. is_cstr (fst (sl ! j))) \<and>
        (\<forall>j<k. \<not> slot_used (sl ! j) \<longrightarrow> slot_name (sl ! j) = [])) \<and>
     (\<forall>k<length sl. \<forall>l<length sl. slot_used (sl ! k) \<and> slot_used (sl ! l) \<and> k \<noteq> l \<longrightarrow>
        snd (sl ! k) \<noteq> snd (sl ! l) \<and> slot_name (sl ! k) \<noteq> slot_name (sl ! l)) \<and>
     (\<forall>i. file_inum im i \<longrightarrow> (\<exists>k<length sl. snd (sl ! k) = i))"

definition open_ok :: "allocation_state_t list \<Rightarrow> open_file_entry_t list \<Rightarrow> inode_t list \<Rightarrow> allocation_state_t list \<Rightarrow> bool" where
  "open_ok om ofs its im \<longleftrightarrow>
     (\<forall>h<length om. om ! h = TAKEN \<longrightarrow>
        file_inum im (of_inumber (ofs ! h)) \<and>
        of_offset (ofs ! h) \<le> i_size (its ! nat (of_inumber (ofs ! h))))"

definition fs_wf :: "fs_state \<Rightarrow> bool" where
  "fs_wf s \<longleftrightarrow> fs_shape s \<and>
     root_ok (inodes s) (imap s) (BLOCK_SIZE s) \<and>
     blocks_ok (inodes s) (imap s) (bmap s) (BLOCK_SIZE s) \<and>
     dir_ok (dir_slots s 0) (imap s) \<and>
     open_ok (omap s) (ofiles s) (inodes s) (imap s)"

text \<open>Between two calls the library mutex is free as well.\<close>

definition fs_inv :: "fs_state \<Rightarrow> bool" where
  "fs_inv s \<longleftrightarrow> fs_wf s \<and> \<not> g_library_mutex s"

lemma fs_wfD:
  assumes "fs_wf s"
  shows "fs_shape s" "root_ok (inodes s) (imap s) (BLOCK_SIZE s)"
    "blocks_ok (inodes s) (imap s) (bmap s) (BLOCK_SIZE s)"
    "dir_ok (dir_slots s 0) (imap s)" "open_ok (omap s) (ofiles s) (inodes s) (imap s)"
  using assms by (simp_all add: fs_wf_def)

lemma blocks_okD:
  assumes "blocks_ok its im bm bs" "i < length its" "im ! i = TAKEN" "0 < i_size (its ! i)"
  shows "i_size (its ! i) \<le> bs" "0 \<le> i_data_block (its ! i)" "nat (i_data_block (its ! i)) < length bm"
    "owns its im i (nat (i_data_block (its ! i)))" "bm ! nat (i_data_block (its ! i)) = TAKEN"
proof -
  obtain b where b: "b < length bm" "i_data_block (its ! i) = int b" and le: "i_size (its ! i) \<le> bs"
    using assms by (auto simp: blocks_ok_def)
  show "i_size (its ! i) \<le> bs" by (rule le)
  show "0 \<le> i_data_block (its ! i)" "nat (i_data_block (its ! i)) < length bm" using b by simp_all
  show o: "owns its im i (nat (i_data_block (its ! i)))"
    using assms b by (simp add: owns_def)
  show "bm ! nat (i_data_block (its ! i)) = TAKEN"
    using assms(1) b o by (auto simp: blocks_ok_def)
qed

lemma owns_fun: "owns its im i b \<Longrightarrow> owns its im i c \<Longrightarrow> b = c"
  by (simp add: owns_def)

lemma blocks_ok_inj: "blocks_ok its im bm bs \<Longrightarrow> owns its im i b \<Longrightarrow> owns its im j b \<Longrightarrow> i = j"
  unfolding blocks_ok_def by blast

lemma blocks_ok_taken: "blocks_ok its im bm bs \<Longrightarrow> b < length bm \<Longrightarrow> bm ! b = TAKEN \<longleftrightarrow> (\<exists>i. owns its im i b)"
  by (simp add: blocks_ok_def)

lemma fs_wf_root:
  assumes "fs_wf s"
  shows "dir_ready s 0" "0 < INODE_TABLE_SIZE s" "valid_inumber s 0"
proof -
  note w = fs_wfD [OF assms]
  have r: "0 < length (inodes s)" "imap s ! 0 = TAKEN" "0 < i_size (inodes s ! 0)"
    using w(2) by (simp_all add: root_ok_def)
  note b = blocks_okD [OF w(3) r]
  show n: "0 < INODE_TABLE_SIZE s" using r(1) fs_shape_tables [OF w(1)] by simp
  then show "valid_inumber s 0" by (simp add: valid_inumber_def)
  show "dir_ready s 0"
    using w(1,2) b n fs_shape_tables [OF w(1)]
    by (auto simp: dir_ready_def root_ok_def valid_block_number_def)
qed

text \<open>The lock is not part of what \<open>fs_wf\<close> talks about.\<close>

lemma dir_slots_put [simp]:
  "dir_slots (put_bmap b st s) r = dir_slots s r" "dir_slots (put_imap i st s) r = dir_slots s r"
  "dir_slots (put_ofile h e s) r = dir_slots s r" "dir_slots (put_omap h st s) r = dir_slots s r"
  "dir_slots (put_lock lk s) r = dir_slots s r"
  "i \<noteq> r \<Longrightarrow> dir_slots (put_inode i n s) r = dir_slots s r"
  by (simp_all add: dir_slots_def dir_off_def blk_off_def)

lemma dir_off_put [simp]:
  "dir_off (put_bmap b st s) r = dir_off s r" "dir_off (put_imap i st s) r = dir_off s r"
  "dir_off (put_ofile h e s) r = dir_off s r" "dir_off (put_omap h st s) r = dir_off s r"
  "dir_off (put_lock lk s) r = dir_off s r" "dir_off (put_dat d s) r = dir_off s r"
  "i \<noteq> r \<Longrightarrow> dir_off (put_inode i n s) r = dir_off s r"
  by (simp_all add: dir_off_def blk_off_def)

lemma dir_ready_put [simp]:
  assumes "dir_ready s r"
  shows "dir_ready (put_bmap b st s) r" "dir_ready (put_imap i st s) r"
    "dir_ready (put_ofile h e s) r" "dir_ready (put_omap h st s) r" "dir_ready (put_lock lk s) r"
    "i \<noteq> r \<Longrightarrow> dir_ready (put_inode i n s) r"
  using assms by (simp_all add: dir_ready_def valid_block_number_def)

lemma fs_wf_put_lock [simp]: "fs_wf (put_lock b s) \<longleftrightarrow> fs_wf s"
  by (simp add: fs_wf_def)

section \<open>Updates that keep the invariant\<close>

named_theorems wf_intros "updates of the tables that keep the invariant"

lemma file_inum_nat: "file_inum im i \<Longrightarrow> \<exists>n. i = int n \<and> 0 < n \<and> n < length im \<and> im ! n = TAKEN"
  by (rule exI [of _ "nat i"]) (auto simp: file_inum_def)

lemma wf_open_file [wf_intros]:
  assumes "fs_wf s" "file_inum (imap s) i" "off \<le> i_size (inodes s ! nat i)"
  shows "fs_wf (put_ofile h \<lparr>of_inumber = i, of_offset = off\<rparr> (put_omap h TAKEN s))"
  using assms fs_shape_tables [OF fs_wfD(1) [OF assms(1)]]
  by (auto simp: fs_wf_def open_ok_def nth_upd)

lemma wf_move_offset [wf_intros]:
  assumes "fs_wf s" "h < MAX_OPEN_FILES s" "omap s ! h = TAKEN"
    and "of_inumber e = of_inumber (ofiles s ! h)"
    and "of_offset e \<le> i_size (inodes s ! nat (of_inumber e))"
  shows "fs_wf (put_ofile h e s)"
  using assms fs_shape_tables [OF fs_wfD(1) [OF assms(1)]]
  by (auto simp: fs_wf_def open_ok_def nth_upd)

lemma wf_close_file [wf_intros]: "fs_wf s \<Longrightarrow> fs_wf (put_omap h FREE s)"
  by (auto simp: fs_wf_def open_ok_def nth_upd)

text \<open>The fields of a free inode do not matter.\<close>

lemma wf_free_inode [wf_intros]:
  assumes "fs_wf s" "imap s ! i = FREE" "i < INODE_TABLE_SIZE s"
  shows "fs_wf (put_inode i n s)"
proof -
  note w = fs_wfD [OF assms(1)]
  note len = fs_shape_tables [OF w(1)]
  have i0: "i \<noteq> 0" using w(2) assms(2) by (auto simp: root_ok_def)
  have o: "owns ((inodes s)[i := n]) (imap s) j b \<longleftrightarrow> owns (inodes s) (imap s) j b" for j b
    using assms(2) by (auto simp: owns_def nth_upd)
  have "root_ok ((inodes s)[i := n]) (imap s) (BLOCK_SIZE s)"
    using w(2) assms(2) i0 by (auto simp: root_ok_def nth_upd)
  moreover have "blocks_ok ((inodes s)[i := n]) (imap s) (bmap s) (BLOCK_SIZE s)"
    using w(3) assms(2) by (auto simp: blocks_ok_def o nth_upd)
  moreover have "open_ok (omap s) (ofiles s) ((inodes s)[i := n]) (imap s)"
    using w(5) assms(2) by (auto simp: open_ok_def file_inum_def nth_upd)
  ultimately show ?thesis using w i0 by (simp add: fs_wf_def)
qed

text \<open>No open file refers to inode \<open>i\<close>.\<close>

definition not_open :: "fs_state \<Rightarrow> nat \<Rightarrow> bool" where
  "not_open s i \<longleftrightarrow>
     list_all (\<lambda>h. omap s ! h = TAKEN \<longrightarrow> of_inumber (ofiles s ! h) \<noteq> int i) [0..<MAX_OPEN_FILES s]"

lemma not_open_iff: "not_open s i \<longleftrightarrow>
    (\<forall>h<MAX_OPEN_FILES s. omap s ! h = TAKEN \<longrightarrow> of_inumber (ofiles s ! h) \<noteq> int i)"
  by (auto simp: not_open_def list_all_iff)

text \<open>
  Two facts about the block table: a block can be released when its owner stops owning
  it, and a free block can be claimed by an inode that owned none.
\<close>

lemma blocks_ok_release:
  assumes ok: "blocks_ok its im bm bs" and i: "owns its im i b"
    and len: "length its' = length its"
    and gone: "im' ! i = FREE \<or> i_size (its' ! i) = 0"
    and rest: "\<And>j. j \<noteq> i \<Longrightarrow> its' ! j = its ! j \<and> im' ! j = im ! j"
  shows "blocks_ok its' im' (bm[b := FREE]) bs"
proof -
  have o: "owns its' im' j c \<longleftrightarrow> j \<noteq> i \<and> owns its im j c" for j c
  proof (cases "j = i")
    case True
    then show ?thesis using gone by (auto simp: owns_def)
  next
    case False
    then show ?thesis using rest [OF False] len by (simp add: owns_def)
  qed
  show ?thesis
    unfolding blocks_ok_def o
  proof (intro conjI allI impI)
    fix j assume j: "j < length its'" "im' ! j = TAKEN \<and> 0 < i_size (its' ! j)"
    then have "j \<noteq> i" using gone by auto
    with j show "i_size (its' ! j) \<le> bs" "\<exists>c<length (bm[b := FREE]). i_data_block (its' ! j) = int c"
      using ok rest [of j] len by (auto simp: blocks_ok_def)
  next
    fix j k c assume "(j \<noteq> i \<and> owns its im j c) \<and> k \<noteq> i \<and> owns its im k c"
    then show "j = k" using blocks_ok_inj [OF ok] by blast
  next
    fix c assume c: "c < length (bm[b := FREE])"
    show "(bm[b := FREE] ! c = TAKEN) = (\<exists>j. j \<noteq> i \<and> owns its im j c)"
    proof (cases "c = b")
      case True
      then show ?thesis using c i blocks_ok_inj [OF ok] by auto
    next
      case False
      then have "\<not> owns its im i c" using i owns_fun by blast
      with False c show ?thesis using blocks_ok_taken [OF ok, of c] by (auto simp: nth_upd)
    qed
  qed
qed

lemma blocks_ok_claim:
  assumes ok: "blocks_ok its im bm bs" and b: "b < length bm" "bm ! b = FREE"
    and i: "i < length its" "im ! i = TAKEN" "i_size (its ! i) = 0"
    and n: "i_size n \<le> bs" "0 < i_size n" "i_data_block n = int b"
  shows "blocks_ok (its[i := n]) im (bm[b := TAKEN]) bs"
proof -
  have o: "owns (its[i := n]) im j c \<longleftrightarrow> (if j = i then c = b else owns its im j c)" for j c
    using i n by (auto simp: owns_def nth_upd)
  have free: "\<not> owns its im j b" for j
    using blocks_ok_taken [OF ok b(1)] b(2) by auto
  show ?thesis
    unfolding blocks_ok_def o
  proof (intro conjI allI impI)
    fix j assume "j < length (its[i := n])" "im ! j = TAKEN \<and> 0 < i_size (its[i := n] ! j)"
    then show "i_size (its[i := n] ! j) \<le> bs"
      "\<exists>c<length (bm[b := TAKEN]). i_data_block (its[i := n] ! j) = int c"
      using ok n b by (auto simp: blocks_ok_def nth_upd split: if_splits)
  next
    fix j k c
    assume "(if j = i then c = b else owns its im j c) \<and> (if k = i then c = b else owns its im k c)"
    then show "j = k" using free blocks_ok_inj [OF ok] by (auto split: if_splits)
  next
    fix c assume "c < length (bm[b := TAKEN])"
    then have c: "c < length bm" by simp
    show "(bm[b := TAKEN] ! c = TAKEN) = (\<exists>j. if j = i then c = b else owns its im j c)"
    proof (cases "c = b")
      case True
      then show ?thesis using c by (auto intro: exI [of _ i])
    next
      case False
      have "\<not> owns its im i c" using i by (simp add: owns_def)
      then have "(\<exists>j. if j = i then c = b else owns its im j c) \<longleftrightarrow> (\<exists>j. owns its im j c)"
        using False by metis
      then show ?thesis using False blocks_ok_taken [OF ok c] by (simp add: nth_upd)
    qed
  qed
qed

text \<open>Freeing the block of a file whose size is set to 0.\<close>

lemma wf_truncate [wf_intros]:
  assumes wf: "fs_wf s" and i: "0 < i" "i < INODE_TABLE_SIZE s" "imap s ! i = TAKEN"
    and ne: "0 < i_size (inodes s ! i)" and closed: "not_open s i"
  shows "fs_wf (put_inode i ((inodes s ! i)\<lparr>i_size := 0\<rparr>)
           (put_bmap (nat (i_data_block (inodes s ! i))) FREE s))"
proof -
  note w = fs_wfD [OF wf]
  note len = fs_shape_tables [OF w(1)]
  let ?its = "(inodes s)[i := (inodes s ! i)\<lparr>i_size := 0\<rparr>]"
  have il: "i < length (inodes s)" using i len by simp
  note bi = blocks_okD [OF w(3) il i(3) ne]
  have "root_ok ?its (imap s) (BLOCK_SIZE s)"
    using w(2) i by (auto simp: root_ok_def nth_upd)
  moreover have "blocks_ok ?its (imap s) ((bmap s)[nat (i_data_block (inodes s ! i)) := FREE]) (BLOCK_SIZE s)"
    by (rule blocks_ok_release [OF w(3) bi(4)]) (use il in \<open>auto simp: nth_upd\<close>)
  moreover have "open_ok (omap s) (ofiles s) ?its (imap s)"
    using w(5) closed len i by (auto simp: open_ok_def not_open_iff file_inum_def nth_upd)
  ultimately show ?thesis using w i by (simp add: fs_wf_def)
qed

text \<open>A write that stays in the file's block, and one that gives the file its first block.\<close>

lemma blk_off_put [simp]:
  "blk_off (put_inode i n s) b = blk_off s b" "blk_off (put_dat d s) b = blk_off s b"
  "blk_off (put_bmap c st s) b = blk_off s b" "blk_off (put_imap i st s) b = blk_off s b"
  "blk_off (put_ofile h e s) b = blk_off s b" "blk_off (put_omap h st s) b = blk_off s b"
  "blk_off (put_lock lk s) b = blk_off s b"
  by (simp_all add: blk_off_def)

lemma blk_off_disjoint:
  assumes "0 \<le> b" "0 \<le> c" "b \<noteq> c"
  shows "blk_off s b + unat (BLOCK_SIZE s) \<le> blk_off s c \<or> blk_off s c + unat (BLOCK_SIZE s) \<le> blk_off s b"
proof -
  have step: "x < y \<Longrightarrow> x * z + z \<le> y * z" for x y z :: nat
  proof -
    assume "x < y"
    then have "Suc x * z \<le> y * z" by (intro mult_right_mono) simp_all
    then show "x * z + z \<le> y * z" by simp
  qed
  from assms have "nat b < nat c \<or> nat c < nat b" by auto
  then show ?thesis using step by (auto simp: blk_off_def)
qed

lemma wf_put_dat [wf_intros]:
  assumes "fs_wf s" "off + length ys \<le> length (dat s)"
    and "off + length ys \<le> dir_off s 0 \<or> dir_off s 0 + unat (BLOCK_SIZE s) \<le> off"
  shows "fs_wf (put_dat (write_at off ys (dat s)) s)"
proof -
  have "MAX_DIR_ENTRIES s * sizeof_dir_entry \<le> unat (BLOCK_SIZE s)"
    by (simp add: MAX_DIR_ENTRIES_def)
  then have "dir_slots (put_dat (write_at off ys (dat s)) s) 0 = dir_slots s 0"
    using assms(2,3) by (auto simp: dir_slots_def intro!: slots_at_write_outside)
  then show ?thesis using assms by (simp add: fs_wf_def)
qed

lemma wf_grow [wf_intros]:
  assumes wf: "fs_wf s" and i: "0 < i" "i < INODE_TABLE_SIZE s" "imap s ! i = TAKEN"
    and ne: "0 < i_size (inodes s ! i)" and n: "i_size (inodes s ! i) \<le> sz" "sz \<le> BLOCK_SIZE s"
  shows "fs_wf (put_inode i ((inodes s ! i)\<lparr>i_size := sz\<rparr>) s)"
proof -
  note w = fs_wfD [OF wf]
  note len = fs_shape_tables [OF w(1)]
  let ?its = "(inodes s)[i := (inodes s ! i)\<lparr>i_size := sz\<rparr>]"
  have pos: "0 < sz" using ne n by simp
  have o: "owns ?its (imap s) j b \<longleftrightarrow> owns (inodes s) (imap s) j b" for j b
    using pos ne by (auto simp: owns_def nth_upd)
  have "root_ok ?its (imap s) (BLOCK_SIZE s)"
    using w(2) i by (auto simp: root_ok_def nth_upd)
  moreover have "blocks_ok ?its (imap s) (bmap s) (BLOCK_SIZE s)"
    using w(3) n ne by (auto simp: blocks_ok_def o nth_upd)
  moreover have "open_ok (omap s) (ofiles s) ?its (imap s)"
    using w(5) n by (auto simp: open_ok_def nth_upd)
  ultimately show ?thesis using w i by (simp add: fs_wf_def)
qed

lemma wf_first_block [wf_intros]:
  assumes wf: "fs_wf s" and i: "0 < i" "i < INODE_TABLE_SIZE s" "imap s ! i = TAKEN"
    and e: "i_size (inodes s ! i) = 0" and b: "b < DATA_BLOCKS s" "bmap s ! b = FREE"
    and sz: "0 < sz" "sz \<le> BLOCK_SIZE s"
  shows "fs_wf (put_inode i ((inodes s ! i)\<lparr>i_size := sz, i_data_block := int b\<rparr>) (put_bmap b TAKEN s))"
proof -
  note w = fs_wfD [OF wf]
  note len = fs_shape_tables [OF w(1)]
  let ?n = "(inodes s ! i)\<lparr>i_size := sz, i_data_block := int b\<rparr>"
  have "root_ok ((inodes s)[i := ?n]) (imap s) (BLOCK_SIZE s)"
    using w(2) i by (auto simp: root_ok_def nth_upd)
  moreover have "blocks_ok ((inodes s)[i := ?n]) (imap s) ((bmap s)[b := TAKEN]) (BLOCK_SIZE s)"
    by (rule blocks_ok_claim [OF w(3)]) (use i b e sz len in simp_all)
  moreover have "open_ok (omap s) (ofiles s) ((inodes s)[i := ?n]) (imap s)"
    using w(5) e by (auto simp: open_ok_def nth_upd)
  ultimately show ?thesis using w i by (simp add: fs_wf_def)
qed

section \<open>Directory and inode map together\<close>

lemma dir_okD:
  assumes "dir_ok sl im" "k < length sl" "slot_used (sl ! k)"
  shows "slot_name (sl ! k) \<noteq> []" "file_inum im (snd (sl ! k))" "j \<le> k \<Longrightarrow> is_cstr (fst (sl ! j))"
    "j < k \<Longrightarrow> \<not> slot_used (sl ! j) \<Longrightarrow> slot_name (sl ! j) = []"
  using assms by (auto simp: dir_ok_def)

lemma dir_ok_distinct:
  assumes "dir_ok sl im" "k < length sl" "l < length sl" "slot_used (sl ! k)" "slot_used (sl ! l)"
  shows "slot_name (sl ! k) = slot_name (sl ! l) \<Longrightarrow> k = l" "snd (sl ! k) = snd (sl ! l) \<Longrightarrow> k = l"
  using assms by (auto simp: dir_ok_def)

lemma file_inum_used: "file_inum im (snd sl) \<Longrightarrow> slot_used sl"
  by (auto simp: file_inum_def slot_used_def)

lemma padded_name:
  assumes "0 \<notin> set nm" "length nm < MAX_FILE_NAME"
  shows "is_cstr (padded nm)" "slot_name (padded nm, i) = nm" "length (padded nm) = MAX_FILE_NAME"
proof -
  have r: "padded nm = nm @ 0 # replicate (MAX_FILE_NAME - length nm - 1) 0"
    using assms(2) by (simp add: padded_def Suc_diff_Suc flip: replicate_Suc)
  show "is_cstr (padded nm)" by (simp add: r is_cstr_def)
  show "slot_name (padded nm, i) = nm"
    using assms(1) by (simp add: r slot_name_def c_str_append_nul)
  show "length (padded nm) = MAX_FILE_NAME" using assms(2) by (simp add: padded_def)
qed

lemma file_inum_claim:
  "i < length im \<Longrightarrow> 0 < i \<Longrightarrow> file_inum (im[i := TAKEN]) j \<longleftrightarrow> j = int i \<or> file_inum im j"
  by (auto simp: file_inum_def nth_upd)

lemma file_inum_release:
  "i < length im \<Longrightarrow> file_inum (im[i := FREE]) j \<longleftrightarrow> j \<noteq> int i \<and> file_inum im j"
  by (auto simp: file_inum_def nth_upd)

lemma dir_ok_add:
  assumes ok: "dir_ok sl im" and k: "k < length sl" "\<not> slot_used (sl ! k)"
    and full: "\<And>j. j < k \<Longrightarrow> slot_used (sl ! j)" and i: "0 < i" "i < length im" "im ! i = FREE"
    and nm: "nm \<noteq> []" "0 \<notin> set nm" "length nm < MAX_FILE_NAME" "dir_lookup sl nm = None"
  shows "dir_ok (sl[k := (padded nm, int i)]) (im[i := TAKEN])"
proof -
  note new = padded_name [OF nm(2,3)]
  have used: "slot_used (padded nm, int i)" by (simp add: slot_used_def)
  have fresh: "slot_name (sl ! l) \<noteq> nm" "snd (sl ! l) \<noteq> int i" if "l < length sl" "slot_used (sl ! l)" for l
    using nm(4) that dir_okD(2) [OF ok that] i(3)
    by (auto simp: dir_lookup_def first_index_None file_inum_def)
  show ?thesis
    unfolding dir_ok_def
  proof (intro conjI allI impI)
    fix l assume l: "l < length (sl[k := (padded nm, int i)])"
    assume u: "slot_used (sl[k := (padded nm, int i)] ! l)"
    show "slot_name (sl[k := (padded nm, int i)] ! l) \<noteq> []"
      "file_inum (im[i := TAKEN]) (snd (sl[k := (padded nm, int i)] ! l))"
      using l u k i nm new dir_okD [OF ok, of l] by (auto simp: nth_upd file_inum_claim split: if_splits)
    fix j
    show "is_cstr (fst (sl[k := (padded nm, int i)] ! j))" if "j \<le> l"
    proof (cases "j = k")
      case False
      have "is_cstr (fst (sl ! j))"
      proof (cases "l = k")
        case True
        then show ?thesis using that False k full [of j] dir_okD(3) [OF ok, of j j] by simp
      qed (use that l u dir_okD(3) [OF ok, of l j] in simp)
      then show ?thesis using False by simp
    qed (use k new in simp)
    show "slot_name (sl[k := (padded nm, int i)] ! j) = []"
      if "j < l" "\<not> slot_used (sl[k := (padded nm, int i)] ! j)"
    proof -
      have "j \<noteq> k" using that(2) k used by auto
      then have "l \<noteq> k" "\<not> slot_used (sl ! j)" using that full [of j] by auto
      then show ?thesis using \<open>j \<noteq> k\<close> that(1) l u dir_okD(4) [OF ok, of l j] by simp
    qed
  next
    fix l m assume lm: "l < length (sl[k := (padded nm, int i)])" "m < length (sl[k := (padded nm, int i)])"
      and u: "slot_used (sl[k := (padded nm, int i)] ! l) \<and> slot_used (sl[k := (padded nm, int i)] ! m) \<and> l \<noteq> m"
    then show "snd (sl[k := (padded nm, int i)] ! l) \<noteq> snd (sl[k := (padded nm, int i)] ! m)"
      "slot_name (sl[k := (padded nm, int i)] ! l) \<noteq> slot_name (sl[k := (padded nm, int i)] ! m)"
      using fresh new(2) dir_ok_distinct [OF ok, of l m]
      by (auto simp: nth_upd split: if_splits) (metis fresh(1) fresh(2))+
  next
    fix j assume "file_inum (im[i := TAKEN]) j"
    then have "j = int i \<or> file_inum im j" using i by (simp add: file_inum_claim)
    then show "\<exists>l<length (sl[k := (padded nm, int i)]). snd (sl[k := (padded nm, int i)] ! l) = j"
    proof
      assume "j = int i"
      then show ?thesis using k by (intro exI [of _ k]) simp
    next
      assume j: "file_inum im j"
      then obtain l where l: "l < length sl" "snd (sl ! l) = j" using ok by (auto simp: dir_ok_def)
      then have "l \<noteq> k" using k(2) j file_inum_used by blast
      then show ?thesis using l by (intro exI [of _ l]) simp
    qed
  qed
qed

lemma dir_ok_remove:
  assumes ok: "dir_ok sl im" and k: "k < length sl" "slot_used (sl ! k)" "snd (sl ! k) = int i"
  shows "dir_ok (sl[k := (replicate MAX_FILE_NAME 0, - 1)]) (im[i := FREE])"
proof -
  let ?z = "(replicate MAX_FILE_NAME 0, - 1) :: slot"
  have z: "is_cstr (fst ?z)" "slot_name ?z = []" "\<not> slot_used ?z"
    by (simp_all add: is_cstr_def slot_name_def slot_used_def MAX_FILE_NAME_def c_str_def numeral_eq_Suc)
  have i: "i < length im" "0 < i" using dir_okD(2) [OF ok k(1,2)] k(3) by (simp_all add: file_inum_def)
  show ?thesis
    unfolding dir_ok_def
  proof (intro conjI allI impI)
    fix l assume l: "l < length (sl[k := ?z])"
    assume u: "slot_used (sl[k := ?z] ! l)"
    then have lk: "l \<noteq> k" "slot_used (sl ! l)" "l < length sl" using l k z by (auto simp: nth_upd split: if_splits)
    have "snd (sl ! l) \<noteq> int i" using dir_ok_distinct(2) [OF ok, of l k] lk k by auto
    then show "slot_name (sl[k := ?z] ! l) \<noteq> []" "file_inum (im[i := FREE]) (snd (sl[k := ?z] ! l))"
      using lk i dir_okD(1,2) [OF ok lk(3,2)] by (simp_all add: file_inum_release)
    fix j
    show "is_cstr (fst (sl[k := ?z] ! j))" if "j \<le> l"
      using that lk z dir_okD(3) [OF ok lk(3,2) that] by (simp add: nth_upd)
    show "slot_name (sl[k := ?z] ! j) = []" if "j < l" "\<not> slot_used (sl[k := ?z] ! j)"
      using that lk z dir_okD(4) [OF ok lk(3,2) that(1)] by (auto simp: nth_upd split: if_splits)
  next
    fix l m assume lm: "l < length (sl[k := ?z])" "m < length (sl[k := ?z])"
      and u: "slot_used (sl[k := ?z] ! l) \<and> slot_used (sl[k := ?z] ! m) \<and> l \<noteq> m"
    then have "slot_used (sl ! l)" "slot_used (sl ! m)" "l \<noteq> m" "l \<noteq> k" "m \<noteq> k"
      using z by (auto simp: nth_upd split: if_splits)
    then show "snd (sl[k := ?z] ! l) \<noteq> snd (sl[k := ?z] ! m)"
      "slot_name (sl[k := ?z] ! l) \<noteq> slot_name (sl[k := ?z] ! m)"
      using lm dir_ok_distinct [OF ok, of l m] by (auto simp: nth_upd)
  next
    fix j assume "file_inum (im[i := FREE]) j"
    then have j: "j \<noteq> int i" "file_inum im j" using i by (simp_all add: file_inum_release)
    then obtain l where l: "l < length sl" "snd (sl ! l) = j" using ok by (auto simp: dir_ok_def)
    then have "l \<noteq> k" using k(3) j by auto
    then show "\<exists>l<length (sl[k := ?z]). snd (sl[k := ?z] ! l) = j"
      using l by (intro exI [of _ l]) simp
  qed
qed

lemma blocks_ok_same:
  assumes "blocks_ok its im bm bs" "length its' = length its"
    and "\<And>j. j < length its \<Longrightarrow> im' ! j = TAKEN \<and> 0 < i_size (its' ! j) \<longleftrightarrow> im ! j = TAKEN \<and> 0 < i_size (its ! j)"
    and "\<And>j. j < length its \<Longrightarrow> im ! j = TAKEN \<Longrightarrow> 0 < i_size (its ! j) \<Longrightarrow> its' ! j = its ! j"
  shows "blocks_ok its' im' bm bs"
proof -
  have "owns its' im' j c \<longleftrightarrow> owns its im j c" for j c
    using assms(2) assms(3,4) [of j] by (auto simp: owns_def)
  then show ?thesis using assms by (simp add: blocks_ok_def)
qed

lemma dat_put_slot_put [simp]:
  "dat_put_slot (put_bmap b st s) r k nm x = dat_put_slot s r k nm x"
  "dat_put_slot (put_imap i st s) r k nm x = dat_put_slot s r k nm x"
  "dat_put_slot (put_lock lk s) r k nm x = dat_put_slot s r k nm x"
  "i \<noteq> r \<Longrightarrow> dat_put_slot (put_inode i n s) r k nm x = dat_put_slot s r k nm x"
  by (simp_all add: dat_put_slot_def)

lemma dir_slots_put_slot:
  assumes "dir_ready s 0" "k < MAX_DIR_ENTRIES s" "length nm = MAX_FILE_NAME" "int32_range i"
  shows "dir_slots (put_dat (dat_put_slot s 0 k nm i) s) 0 = (dir_slots s 0)[k := (nm, i)]"
  using slots_put_slot [OF assms] by (simp add: dir_slots_def)

lemma dir_slots_put_dat:
  "dir_slots (put_dat d s) 0 = slots_at d (dir_off s 0) (MAX_DIR_ENTRIES s)"
  by (simp add: dir_slots_def)

text \<open>A new file: an inode, its slot in the directory, no block.\<close>

lemma wf_create_file [wf_intros]:
  assumes wf: "fs_wf s" and i: "i < INODE_TABLE_SIZE s" "imap s ! i = FREE"
    and n: "i_node_type n = T_FILE" "i_size n = 0"
    and k: "dir_vacant (dir_slots s 0) = Some k"
    and nm: "nm \<noteq> []" "0 \<notin> set nm" "length nm < MAX_FILE_NAME" "dir_lookup (dir_slots s 0) nm = None"
  shows "fs_wf (put_dat (dat_put_slot s 0 k (padded nm) (int i)) (put_inode i n (put_imap i TAKEN s)))"
proof -
  note w = fs_wfD [OF wf]
  note len = fs_shape_tables [OF w(1)]
  note r = fs_wf_root [OF wf]
  have i0: "0 < i" using w(2) i(2) by (metis allocation_state_t.distinct(1) not_gr_zero root_ok_def)
  have k': "k < MAX_DIR_ENTRIES s" "\<not> slot_used (dir_slots s 0 ! k)"
    using k by (simp_all add: dir_vacant_def first_index_Some)
  have i32: "int32_range (int i)"
    using i(1) fs_shape_small(1) [OF w(1)] by (intro int32_range_of_nat) simp
  note pad = padded_name [OF nm(2,3)]
  have "root_ok ((inodes s)[i := n]) ((imap s)[i := TAKEN]) (BLOCK_SIZE s)"
    using w(2) i i0 n by (auto simp: root_ok_def nth_upd)
  moreover have "blocks_ok ((inodes s)[i := n]) ((imap s)[i := TAKEN]) (bmap s) (BLOCK_SIZE s)"
    by (rule blocks_ok_same [OF w(3)]) (use i n len in \<open>auto simp: nth_upd split: if_splits\<close>)
  moreover have "dir_ok ((dir_slots s 0)[k := (padded nm, int i)]) ((imap s)[i := TAKEN])"
    by (rule dir_ok_add [OF w(4)]) (use k k' i i0 nm len in \<open>simp_all add: dir_vacant_def first_index_Some\<close>)
  moreover have "open_ok (omap s) (ofiles s) ((inodes s)[i := n]) ((imap s)[i := TAKEN])"
    using w(5) i by (auto simp: open_ok_def file_inum_def nth_upd)
  moreover have "slots_at (dat_put_slot s 0 k (padded nm) (int i)) (dir_off s 0) (MAX_DIR_ENTRIES s)
      = (dir_slots s 0)[k := (padded nm, int i)]"
    by (rule slots_put_slot [OF r(1) k'(1) pad(3) i32])
  ultimately show ?thesis
    using w(1) i0 length_dat_put_slot [OF r(1) k'(1) pad(3), of "int i"]
    by (simp add: fs_wf_def dir_slots_put_dat)
qed

text \<open>A deleted file: its slot wiped, its inode free, its block (if it had one) free.\<close>

definition release_block :: "nat \<Rightarrow> fs_state \<Rightarrow> fs_state" where
  "release_block i s =
     (if 0 < i_size (inodes s ! i) then put_bmap (nat (i_data_block (inodes s ! i))) FREE s else s)"

lemma tables_release_block [simp]:
  "inodes (release_block i s) = inodes s" "imap (release_block i s) = imap s"
  "dat (release_block i s) = dat s" "ofiles (release_block i s) = ofiles s"
  "omap (release_block i s) = omap s" "fs_params (release_block i s) = fs_params s"
  "BLOCK_SIZE (release_block i s) = BLOCK_SIZE s" "dir_slots (release_block i s) r = dir_slots s r"
  "dir_off (release_block i s) r = dir_off s r" "MAX_DIR_ENTRIES (release_block i s) = MAX_DIR_ENTRIES s"
  "dat_put_slot (release_block i s) r k nm x = dat_put_slot s r k nm x"
  "blk_off (release_block i s) b = blk_off s b" "INODE_TABLE_SIZE (release_block i s) = INODE_TABLE_SIZE s"
  "put_lock lk (release_block i s) = release_block i (put_lock lk s)"
  "g_library_mutex (release_block i s) = g_library_mutex s"
  "fs_shape s \<Longrightarrow> fs_shape (release_block i s)" "dir_ready s r \<Longrightarrow> dir_ready (release_block i s) r"
  by (simp_all add: release_block_def)

lemma wf_delete_file [wf_intros]:
  assumes wf: "fs_wf s" and k: "k < MAX_DIR_ENTRIES s" "slot_used (dir_slots s 0 ! k)"
    and i: "snd (dir_slots s 0 ! k) = int i" and closed: "not_open s i"
  shows "fs_wf (put_dat (dat_put_slot s 0 k (replicate MAX_FILE_NAME 0) (- 1))
           (put_imap i FREE (release_block i s)))"
proof -
  note w = fs_wfD [OF wf]
  note len = fs_shape_tables [OF w(1)]
  note r = fs_wf_root [OF wf]
  have fi: "file_inum (imap s) (int i)" using dir_okD(2) [OF w(4), of k] k i by simp
  then have i': "0 < i" "i < length (inodes s)" "imap s ! i = TAKEN" using len by (simp_all add: file_inum_def)
  have "root_ok (inodes s) ((imap s)[i := FREE]) (BLOCK_SIZE s)"
    using w(2) i' by (auto simp: root_ok_def nth_upd split: if_splits)
  moreover have "blocks_ok (inodes s) ((imap s)[i := FREE]) (bmap (release_block i s)) (BLOCK_SIZE s)"
  proof (cases "0 < i_size (inodes s ! i)")
    case True
    note bi = blocks_okD [OF w(3) i'(2,3) True]
    have "blocks_ok (inodes s) ((imap s)[i := FREE])
        ((bmap s)[nat (i_data_block (inodes s ! i)) := FREE]) (BLOCK_SIZE s)"
      by (rule blocks_ok_release [OF w(3) bi(4)]) (use i' len in simp_all)
    with True show ?thesis by (simp add: release_block_def)
  next
    case False
    then have "blocks_ok (inodes s) ((imap s)[i := FREE]) (bmap s) (BLOCK_SIZE s)"
      by (intro blocks_ok_same [OF w(3)]) (auto simp: nth_upd word_gt_0 split: if_splits)
    with False show ?thesis by (simp add: release_block_def)
  qed
  moreover have "dir_ok ((dir_slots s 0)[k := (replicate MAX_FILE_NAME 0, - 1)]) ((imap s)[i := FREE])"
    by (rule dir_ok_remove [OF w(4)]) (use k i in simp_all)
  moreover have "open_ok (omap s) (ofiles s) (inodes s) ((imap s)[i := FREE])"
    using w(5) closed len i' by (auto simp: open_ok_def not_open_iff file_inum_release)
  moreover have "slots_at (dat_put_slot s 0 k (replicate MAX_FILE_NAME 0) (- 1)) (dir_off s 0) (MAX_DIR_ENTRIES s)
      = (dir_slots s 0)[k := (replicate MAX_FILE_NAME 0, - 1)]"
    by (rule slots_put_slot [OF r(1) k(1)]) simp_all
  ultimately show ?thesis
    using w(1) length_dat_put_slot [OF r(1) k(1), of "replicate MAX_FILE_NAME 0" "- 1"]
    by (simp add: fs_wf_def dir_slots_put_dat)
qed

end
