(* ===== verification/FsSpec.thy ===== *)
theory FsSpec
  imports FsInv
begin

text \<open>
  The calls of fs/operations.c on a state that satisfies the invariant: each is first
  shown equal to an update of the tables, then to the operation of an abstract file
  system made of a map from names to files, the contents of the files, and the open
  handles with their offsets.
\<close>

section \<open>Names\<close>

definition fname :: "byte list \<Rightarrow> byte list" where
  "fname m = tl (c_str m)"

definition valid_name :: "byte list \<Rightarrow> bool" where
  "valid_name m \<longleftrightarrow> length (c_str m) > 1 \<and> m ! 0 = slash"

lemma valid_nameD:
  assumes "valid_name m" "is_cstr m"
  shows "is_cstr (drop 1 m)" "c_str (drop 1 m) = fname m" "fname m \<noteq> []" "0 \<notin> set (fname m)"
proof -
  obtain a r where m: "m = a # r" using assms(2) by (cases m) (auto simp: is_cstr_def)
  have a: "a \<noteq> 0" using assms(1) m by (simp add: valid_name_def slash_def)
  show "is_cstr (drop 1 m)" using assms(2) a m by (auto simp: is_cstr_def)
  show e: "c_str (drop 1 m) = fname m" using a m by (simp add: fname_def c_str_def)
  show "fname m \<noteq> []" using assms(1) a m by (auto simp: fname_def valid_name_def c_str_def)
  show "0 \<notin> set (fname m)" using c_str_no_nul [of "drop 1 m"] e by simp
qed

lemma valid_pathname_eq [tab_simps]:
  "is_cstr m \<Longrightarrow> valid_pathname (Some m) s = Inr (valid_name m, s)"
  by (simp add: valid_pathname_def prog_simps c_strlen_some valid_name_def)

definition name_slot :: "fs_state \<Rightarrow> byte list \<Rightarrow> nat option" where
  "name_slot s nm = dir_lookup (dir_slots s 0) nm"

lemma name_slot_put [simp]:
  "name_slot (put_lock b s) nm = name_slot s nm" "name_slot (put_omap h st s) nm = name_slot s nm"
  "name_slot (put_ofile h e s) nm = name_slot s nm" "name_slot (put_bmap k st s) nm = name_slot s nm"
  "name_slot (put_imap i st s) nm = name_slot s nm"
  "0 < i \<Longrightarrow> name_slot (put_inode i n s) nm = name_slot s nm"
  by (simp_all add: name_slot_def)

lemma name_slot_Some:
  assumes "fs_wf s" "name_slot s nm = Some k"
  shows "k < MAX_DIR_ENTRIES s" "slot_used (dir_slots s 0 ! k)" "slot_name (dir_slots s 0 ! k) = nm"
    "file_inum (imap s) (snd (dir_slots s 0 ! k))"
proof -
  show k: "k < MAX_DIR_ENTRIES s" "slot_used (dir_slots s 0 ! k)" "slot_name (dir_slots s 0 ! k) = nm"
    using assms(2) by (simp_all add: name_slot_def dir_lookup_def first_index_Some)
  show "file_inum (imap s) (snd (dir_slots s 0 ! k))"
    using k dir_okD(2) [OF fs_wfD(4) [OF assms(1)]] by simp
qed

lemma name_slot_iff:
  assumes "fs_wf s"
  shows "name_slot s nm = Some k \<longleftrightarrow>
    k < MAX_DIR_ENTRIES s \<and> slot_used (dir_slots s 0 ! k) \<and> slot_name (dir_slots s 0 ! k) = nm"
proof
  assume "name_slot s nm = Some k"
  then show "k < MAX_DIR_ENTRIES s \<and> slot_used (dir_slots s 0 ! k) \<and> slot_name (dir_slots s 0 ! k) = nm"
    using name_slot_Some [OF assms] by simp
next
  assume k: "k < MAX_DIR_ENTRIES s \<and> slot_used (dir_slots s 0 ! k) \<and> slot_name (dir_slots s 0 ! k) = nm"
  have "\<not> (slot_used (dir_slots s 0 ! j) \<and> slot_name (dir_slots s 0 ! j) = nm)" if "j < k" for j
    using dir_ok_distinct(1) [OF fs_wfD(4) [OF assms], of j k] k that by auto
  then show "name_slot s nm = Some k"
    using k by (simp add: name_slot_def dir_lookup_def first_index_Some)
qed

lemma tfs_lookup_eq [tab_simps]:
  assumes "fs_wf s" "is_cstr m" "valid_name m"
  shows "tfs_lookup (Some m) 0 s =
    Inr (case name_slot s (fname m) of None \<Rightarrow> - 1 | Some k \<Rightarrow> snd (dir_slots s 0 ! k), s)"
proof -
  note v = valid_nameD [OF assms(3,2)]
  have "find_in_dir 0 (drop 1 m) s = Inr (case dir_lookup (dir_slots s 0) (c_str (drop 1 m)) of
      None \<Rightarrow> - 1 | Some k \<Rightarrow> snd (dir_slots s 0 ! k), s)"
    by (rule find_in_dir_eq [OF fs_wf_root(1) [OF assms(1)] v(1)])
      (simp add: dir_okD(3) [OF fs_wfD(4) [OF assms(1)]])
  then show ?thesis
    using assms by (simp add: tfs_lookup_def prog_simps tab_simps v(2)[simplified] name_slot_def)
qed

lemma file_inum_valid:
  "fs_wf s \<Longrightarrow> file_inum (imap s) i \<Longrightarrow> valid_inumber s i \<and> 0 \<le> i \<and> 0 < nat i \<and> nat i < INODE_TABLE_SIZE s"
  using fs_shape_tables(8) [OF fs_wfD(1)] by (auto simp: file_inum_def valid_inumber_def)

section \<open>The calls as updates of the tables\<close>

lemma lock_library_eq [tab_simps]: "\<not> g_library_mutex s \<Longrightarrow> lock_library s = Inr (0, put_lock True s)"
  by (simp add: lock_library_def put_defs)

lemma unlock_return_eq [tab_simps]:
  "g_library_mutex s \<Longrightarrow> unlock_return v s = Inr (v, put_lock False s)"
  by (simp add: unlock_return_def unlock_library_def prog_simps put_defs)

definition open_handle :: "fs_state \<Rightarrow> int \<Rightarrow> bool" where
  "open_handle s h \<longleftrightarrow> valid_file_handle s h \<and> omap s ! nat h = TAKEN"

lemma open_handle_put_lock [simp]: "open_handle (put_lock b s) h = open_handle s h"
  by (simp add: open_handle_def valid_file_handle_def)

lemma get_open_file_entry_handle [tab_simps]:
  "fs_shape s \<Longrightarrow> get_open_file_entry h s = Inr (if open_handle s h then Some (nat h) else None, s)"
  by (simp add: get_open_file_entry_eq open_handle_def)

lemma remove_handle_eq [tab_simps]:
  "fs_shape s \<Longrightarrow> open_handle s h \<Longrightarrow>
     remove_from_open_file_table h s = Inr ((), put_omap (nat h) FREE s)"
  by (simp add: open_handle_def remove_from_open_file_table_eq)

lemma open_handleD:
  assumes "fs_wf s" "open_handle s h"
  shows "0 \<le> h" "nat h < MAX_OPEN_FILES s" "file_inum (imap s) (of_inumber (ofiles s ! nat h))"
    "of_offset (ofiles s ! nat h) \<le> i_size (inodes s ! nat (of_inumber (ofiles s ! nat h)))"
proof -
  show v: "0 \<le> h" "nat h < MAX_OPEN_FILES s"
    using assms(2) by (auto simp: open_handle_def valid_file_handle_def)
  show "file_inum (imap s) (of_inumber (ofiles s ! nat h))"
    "of_offset (ofiles s ! nat h) \<le> i_size (inodes s ! nat (of_inumber (ofiles s ! nat h)))"
    using fs_wfD(5) [OF assms(1)] v assms(2) fs_shape_tables(12) [OF fs_wfD(1) [OF assms(1)]]
    by (auto simp: open_ok_def open_handle_def)
qed

lemma tfs_close_eq:
  assumes "fs_inv s"
  shows "tfs_close h s = Inr (if open_handle s h then (0, put_omap (nat h) FREE s) else (- 1, s))"
proof -
  have wf: "fs_wf s" and free: "\<not> g_library_mutex s" using assms by (simp_all add: fs_inv_def)
  show ?thesis
    using fs_wfD(1) [OF wf] free by (simp add: tfs_close_def prog_simps tab_simps)
qed

definition fresh_file :: "inode_t \<Rightarrow> inode_t" where
  "fresh_file n = n\<lparr>i_node_type := T_FILE, i_size := 0, i_data_block := - 1\<rparr>"

lemma inode_create_file_eq [tab_simps]:
  assumes "fs_shape s"
  shows "inode_create T_FILE s = Inr (case first_free (imap s) of None \<Rightarrow> (- 1, s)
     | Some i \<Rightarrow> (int i, put_inode i (fresh_file (inodes s ! i)) (put_imap i TAKEN s)))"
proof (cases "first_free (imap s)")
  case None
  then show ?thesis using assms by (simp add: inode_create_def prog_simps tab_simps)
next
  case (Some i)
  then have "i < INODE_TABLE_SIZE s" by (simp add: first_free_Some fs_shape_tables [OF assms])
  then show ?thesis
    using assms Some fs_shape_tables(7) [OF assms]
    by (simp add: inode_create_def prog_simps tab_simps put_inode_norm fresh_file_def)
qed

lemma inode_delete_eq:
  assumes "fs_shape s" "valid_inumber s i" "imap s ! nat i = TAKEN"
    and "0 < i_size (inodes s ! nat i) \<Longrightarrow> valid_block_number s (i_data_block (inodes s ! nat i))"
  shows "inode_delete i s = Inr ((), put_imap (nat i) FREE (release_block (nat i) s))"
proof -
  have "nat i < INODE_TABLE_SIZE s" using assms(2) by (auto simp: valid_inumber_def)
  then show ?thesis
    using assms by (auto simp: inode_delete_def prog_simps tab_simps release_block_def)
qed

definition opened :: "fs_state \<Rightarrow> int \<Rightarrow> u64 \<Rightarrow> int \<times> fs_state" where
  "opened s i off = (case first_free (omap s) of None \<Rightarrow> (- 1, s)
     | Some h \<Rightarrow> (int h, put_ofile h \<lparr>of_inumber = i, of_offset = off\<rparr> (put_omap h TAKEN s)))"

lemma add_open_unlock [tab_simps]:
  "fs_shape s \<Longrightarrow> g_library_mutex s \<Longrightarrow>
     bind (add_to_open_file_table i off) unlock_return s = Inr (opened (put_lock False s) i off)"
  by (simp add: prog_simps tab_simps opened_def split: option.splits)

definition truncated :: "fs_state \<Rightarrow> nat \<Rightarrow> u32 \<Rightarrow> fs_state" where
  "truncated s i mode =
     (if has_flag mode TFS_O_TRUNC \<and> 0 < i_size (inodes s ! i)
      then put_inode i ((inodes s ! i)\<lparr>i_size := 0\<rparr>) (put_bmap (nat (i_data_block (inodes s ! i))) FREE s)
      else s)"

lemma truncated_simps [simp]:
  "fs_shape s \<Longrightarrow> fs_shape (truncated s i mode)" "imap (truncated s i mode) = imap s"
  "INODE_TABLE_SIZE (truncated s i mode) = INODE_TABLE_SIZE s"
  "put_lock lk (truncated s i mode) = truncated (put_lock lk s) i mode"
  "g_library_mutex (truncated s i mode) = g_library_mutex s"
  "omap (truncated s i mode) = omap s" "inodes (truncated (put_lock lk s) i mode) = inodes (truncated s i mode)"
  by (simp_all add: truncated_def)

definition new_file :: "fs_state \<Rightarrow> nat \<Rightarrow> fs_state" where
  "new_file s i = put_inode i (fresh_file (inodes s ! i)) (put_imap i TAKEN s)"

lemma file_block_valid:
  assumes "fs_wf s" "file_inum (imap s) i" "0 < i_size (inodes s ! nat i)"
  shows "valid_block_number s (i_data_block (inodes s ! nat i))"
proof -
  have "nat i < length (inodes s)" "imap s ! nat i = TAKEN"
    using assms(2) fs_shape_tables [OF fs_wfD(1) [OF assms(1)]] by (simp_all add: file_inum_def)
  from blocks_okD(2,3) [OF fs_wfD(3) [OF assms(1)] this assms(3)]
  show ?thesis
    using fs_shape_tables [OF fs_wfD(1) [OF assms(1)]] by (simp add: valid_block_number_def)
qed

lemma tfs_open_existing_eq:
  assumes inv: "fs_inv s" and m: "is_cstr m" "valid_name m" and k: "name_slot s (fname m) = Some k"
  shows "tfs_open (Some m) mode s =
    (let i = snd (dir_slots s 0 ! k); s1 = truncated s (nat i) mode in
     Inr (opened s1 i (if has_flag mode TFS_O_APPEND then i_size (inodes s1 ! nat i) else 0)))"
proof -
  have wf: "fs_wf s" and free: "\<not> g_library_mutex s" using inv by (simp_all add: fs_inv_def)
  let ?i = "snd (dir_slots s 0 ! k)"
  let ?t = "put_lock True s"
  let ?nd = "inodes s ! nat ?i"
  note fi = name_slot_Some(4) [OF wf k]
  have i: "valid_inumber ?t ?i" "0 \<le> ?i" "nat ?i < INODE_TABLE_SIZE s"
    using file_inum_valid [OF wf fi] by (simp_all add: valid_inumber_def)
  have vb: "0 < i_size ?nd \<Longrightarrow> valid_block_number ?t (i_data_block ?nd)"
    using file_block_valid [OF wf fi] by simp
  have "(if has_flag mode TFS_O_TRUNC \<and> i_size ?nd > 0
         then andthen (data_block_free (i_data_block ?nd)) (set_inode (nat ?i) (i_size_update (\<lambda>_. 0)))
         else ret ()) ?t = Inr ((), truncated ?t (nat ?i) mode)"
    using fs_wfD(1) [OF wf] i vb by (auto simp: prog_simps tab_simps truncated_def)
  moreover have "valid_inumber ?t 0" using fs_wf_root(3) [OF wf] by (simp add: valid_inumber_def)
  moreover have "fs_wf ?t" "name_slot ?t (fname m) = Some k" using wf k by simp_all
  ultimately show ?thesis
    using fs_wfD(1) [OF wf] free m i
    by (simp add: tfs_open_def Let_def bind_app [of lock_library] bind_app [of "valid_pathname _"]
        bind_app [of "inode_get _"] bind_app [of "tfs_lookup _ _"] bind_app [of "rd _ _"]
        andthen_app tab_simps ROOT_DIR_INUM_def)
qed

lemma tfs_open_new_eq:
  assumes inv: "fs_inv s" and m: "is_cstr m" "valid_name m" and k: "name_slot s (fname m) = None"
  shows "tfs_open (Some m) mode s = Inr (
    if \<not> has_flag mode TFS_O_CREAT then (- 1, s)
    else case first_free (imap s) of
        None \<Rightarrow> (- 1, s)
      | Some i \<Rightarrow>
          if length (fname m) > MAX_FILE_NAME - 1 then (- 1, put_imap i FREE (new_file s i))
          else case dir_vacant (dir_slots s 0) of
              None \<Rightarrow> (- 1, put_imap i FREE (new_file s i))
            | Some k \<Rightarrow> opened (put_dat (dat_put_slot s 0 k (padded (fname m)) (int i)) (new_file s i)) (int i) 0)"
proof -
  have wf: "fs_wf s" and free: "\<not> g_library_mutex s" using inv by (simp_all add: fs_inv_def)
  let ?t = "put_lock True s"
  note v = valid_nameD [OF m(2,1)]
  have sh: "fs_shape s" by (rule fs_wfD(1) [OF wf])
  have wft: "fs_wf ?t" "name_slot ?t (fname m) = None" using wf k by simp_all
  have start: "tfs_open (Some m) mode s =
    (if has_flag mode TFS_O_CREAT then
       bind (inode_create T_FILE) (\<lambda>inum.
       if inum = - 1 then unlock_return (- 1)
       else bind (add_dir_entry 0 (drop 1 m) inum) (\<lambda>e.
            if e = - 1 then andthen (inode_delete inum) (unlock_return (- 1))
            else bind (add_to_open_file_table inum 0) unlock_return)) ?t
     else unlock_return (- 1) ?t)"
    using sh free m wft fs_wf_root(3) [OF wf]
    by (simp add: tfs_open_def bind_app [of lock_library] bind_app [of "valid_pathname _"]
        bind_app [of "inode_get _"] bind_app [of "tfs_lookup _ _"] tab_simps ROOT_DIR_INUM_def
        cong: if_cong)
  show ?thesis
  proof (cases "has_flag mode TFS_O_CREAT")
    case False
    then show ?thesis using start free by (simp add: tab_simps)
  next
    case True
    show ?thesis
    proof (cases "first_free (imap s)")
      case None
      then show ?thesis
        using start True free sh by (simp add: bind_app [of "inode_create _"] tab_simps)
    next
      case (Some i)
      then have i: "i < INODE_TABLE_SIZE s" "imap s ! i = FREE"
        using fs_shape_tables [OF sh] by (simp_all add: first_free_Some)
      have i0: "0 < i" using fs_wfD(2) [OF wf] i(2)
        by (metis allocation_state_t.distinct(1) not_gr_zero root_ok_def)
      have r: "dir_ready (new_file ?t i) 0" "dir_slots (new_file ?t i) 0 = dir_slots s 0"
        using fs_wf_root(1) [OF wf] i0 by (simp_all add: new_file_def)
      have add: "add_dir_entry 0 (drop 1 m) (int i) (new_file ?t i) = Inr (
          if length (fname m) > MAX_FILE_NAME - 1 then (- 1, new_file ?t i)
          else case dir_vacant (dir_slots s 0) of
            None \<Rightarrow> (- 1, new_file ?t i)
          | Some k \<Rightarrow> (0, put_dat (dat_put_slot s 0 k (padded (fname m)) (int i)) (new_file ?t i)))"
        using add_dir_entry_eq [OF r(1) v(1), of "int i"] r(2) v(2,3) i0
        by (auto simp: new_file_def split: option.splits)
      have del: "inode_delete (int i) (new_file ?t i) = Inr ((), put_imap i FREE (new_file ?t i))"
      proof -
        have "inode_delete (int i) (new_file ?t i) =
            Inr ((), put_imap (nat (int i)) FREE (release_block (nat (int i)) (new_file ?t i)))"
          by (rule inode_delete_eq)
            (use i sh fs_shape_tables [OF sh] in \<open>simp_all add: new_file_def valid_inumber_def fresh_file_def\<close>)
        then show ?thesis
          using i fs_shape_tables(7) [OF sh] by (simp add: release_block_def new_file_def fresh_file_def)
      qed
      have start2: "tfs_open (Some m) mode s =
         (bind (add_dir_entry 0 (drop 1 m) (int i)) (\<lambda>e.
            if e = - 1 then andthen (inode_delete (int i)) (unlock_return (- 1))
            else bind (add_to_open_file_table (int i) 0) unlock_return)) (new_file ?t i)"
        unfolding start using True Some sh
        by (simp add: bind_app [of "inode_create _"] tab_simps new_file_def)
      have slot_shape: "fs_shape (put_dat (dat_put_slot s 0 k (padded (fname m)) (int i)) (new_file ?t i))"
        if "length (fname m) \<le> MAX_FILE_NAME - 1" "dir_vacant (dir_slots s 0) = Some k" for k
        using that sh length_dat_put_slot [OF fs_wf_root(1) [OF wf], of k "padded (fname m)" "int i"]
          padded_name(3) [OF v(4)]
        by (simp add: new_file_def dir_vacant_def first_index_Some MAX_FILE_NAME_def)
      show ?thesis
        unfolding start2 bind_app [of "add_dir_entry _ _ _"] add
        using True Some free slot_shape
        by (auto simp: del [unfolded new_file_def, simplified] andthen_app tab_simps new_file_def split: option.splits)
    qed
  qed
qed

text \<open>
  \<open>tfs_write\<close> clips the length at the end of the block; without wrap-around of the sum
  the clipped length is the minimum one expects.
\<close>

definition clip :: "u64 \<Rightarrow> u64 \<Rightarrow> u64 \<Rightarrow> u64" where
  "clip len off bs = (if len + off > bs then bs - off else len)"

lemma unat_clip:
  assumes "unat len + unat off < 2 ^ 64" "off \<le> bs"
  shows "unat (clip len off bs) = min (unat len) (unat bs - unat off)"
proof -
  have "unat (len + off) = unat len + unat off" using assms(1) by (simp add: unat_word_ariths)
  moreover have "unat (bs - off) = unat bs - unat off" using assms(2) by (rule unat_sub)
  moreover have "unat off \<le> unat bs" using assms(2) by (simp add: word_le_nat_alt)
  ultimately show ?thesis by (auto simp: clip_def word_less_nat_alt)
qed

lemma open_file_props:
  assumes wf: "fs_wf s" and h: "open_handle s h"
  defines "e \<equiv> ofiles s ! nat h"
  defines "i \<equiv> nat (of_inumber e)"
  shows "nat h < MAX_OPEN_FILES s" "0 < i" "i < INODE_TABLE_SIZE s" "imap s ! i = TAKEN"
    "valid_inumber s (of_inumber e)" "of_inumber e = int i" "file_inum (imap s) (of_inumber e)"
    "of_offset e \<le> i_size (inodes s ! i)" "i_size (inodes s ! i) \<le> BLOCK_SIZE s"
    "0 < i_size (inodes s ! i) \<Longrightarrow> valid_block_number s (i_data_block (inodes s ! i))"
proof -
  note o = open_handleD [OF wf h, folded e_def, folded i_def]
  note len = fs_shape_tables [OF fs_wfD(1) [OF wf]]
  show "nat h < MAX_OPEN_FILES s" and fi: "file_inum (imap s) (of_inumber e)"
    and "of_offset e \<le> i_size (inodes s ! i)" by (rule o)+
  show "0 < i" "i < INODE_TABLE_SIZE s" "imap s ! i = TAKEN" "valid_inumber s (of_inumber e)"
    "of_inumber e = int i"
    using fi len by (auto simp: file_inum_def i_def valid_inumber_def)
  show "0 < i_size (inodes s ! i) \<Longrightarrow> valid_block_number s (i_data_block (inodes s ! i))"
    using file_block_valid [OF wf fi] by (simp add: i_def)
  show "i_size (inodes s ! i) \<le> BLOCK_SIZE s"
  proof (cases "0 < i_size (inodes s ! i)")
    case True
    then show ?thesis
      using blocks_okD(1) [OF fs_wfD(3) [OF wf], of i] fi len by (simp add: file_inum_def i_def)
  next
    case False
    then show ?thesis by (simp add: word_gt_0)
  qed
qed

lemma sint_small: "unat (w :: u64) < 2 ^ 63 \<Longrightarrow> sint w = int (unat w)"
proof -
  assume a: "unat w < 2 ^ 63"
  have "sint w = signed_take_bit 63 (uint w)"
    by (simp add: sint_uint)
  moreover have "int (unat w) < int (2 ^ 63)" using a by (simp only: of_nat_less_iff)
  then have "uint w < 2 ^ 63" by simp
  moreover have "- (2 ^ 63) \<le> uint w" by (rule order_trans [OF _ unsigned_greater_eq]) simp
  ultimately have "sint w = uint w" by (simp only: signed_take_bit_int_eq_self)
  then show ?thesis by simp
qed

lemma block_size_small:
  assumes "fs_wf s" shows "unat (BLOCK_SIZE s) < 2 ^ 63"
proof -
  have r: "valid_block_number s (i_data_block (inodes s ! 0))"
    using fs_wf_root(1) [OF assms] by (simp add: dir_ready_def)
  then have "1 \<le> DATA_BLOCKS s" by (simp add: valid_block_number_def)
  then have "1 * unat (BLOCK_SIZE s) \<le> DATA_BLOCKS s * unat (BLOCK_SIZE s)"
    by (rule mult_right_mono) simp
  from this fs_shape_small(4) [OF fs_wfD(1) [OF assms]]
  have "1 * unat (BLOCK_SIZE s) < 2 ^ 63" by (rule le_less_trans)
  then show ?thesis by (simp only: mult_1)
qed

definition with_block :: "fs_state \<Rightarrow> nat \<Rightarrow> nat \<Rightarrow> fs_state" where
  "with_block s i b = put_inode i ((inodes s ! i)\<lparr>i_data_block := int b\<rparr>) (put_bmap b TAKEN s)"

definition written :: "fs_state \<Rightarrow> nat \<Rightarrow> byte list \<Rightarrow> u64 \<Rightarrow> fs_state" where
  "written t f bytes n =
     (let e = ofiles t ! f; i = nat (of_inumber e); nd = inodes t ! i;
          off = of_offset e + n;
          t1 = put_ofile f (e\<lparr>of_offset := off\<rparr>)
                (put_dat (write_at (blk_off t (i_data_block nd) + unat (of_offset e)) bytes (dat t)) t)
      in if off > i_size nd then put_inode i (nd\<lparr>i_size := off\<rparr>) t1 else t1)"

text \<open>The part of the call after a block is at hand.\<close>

definition write_block :: "nat \<Rightarrow> open_file_entry_t \<Rightarrow> nat \<Rightarrow> byte list \<Rightarrow> u64 \<Rightarrow> int fs" where
  "write_block file f inode buffer to_write =
     bind (rd inode_table inode) (\<lambda>nd.
     bind (data_block_get (i_data_block nd)) (\<lambda>block.
     bind (defined (c_load 0 (unat to_write) buffer)) (\<lambda>bytes.
     andthen (mem_write (block + unat (of_offset f)) bytes)
     (let new_offset = of_offset f + to_write in
      andthen (set_open_file file (of_offset_update (\<lambda>_. new_offset)))
      (andthen (if new_offset > i_size nd
                then set_inode inode (i_size_update (\<lambda>_. new_offset)) else ret ())
      (unlock_return (sint to_write)))))))"

lemma write_block_eq:
  assumes sh: "fs_shape t" and f: "file < MAX_OPEN_FILES t" "ofiles t ! file = f"
    and i: "inode = nat (of_inumber f)" "inode < INODE_TABLE_SIZE t"
    and vb: "valid_block_number t (i_data_block (inodes t ! inode))"
    and fits: "unat (of_offset f) + unat n \<le> unat (BLOCK_SIZE t)" "unat n \<le> length buffer"
    and small: "unat n < 2 ^ 63" and lk: "g_library_mutex t"
  shows "write_block file f inode buffer n t =
    Inr (int (unat n), put_lock False (written t file (take (unat n) buffer) n))"
proof -
  have room: "blk_off t (i_data_block (inodes t ! inode)) + unat (of_offset f) + unat n \<le> length (dat t)"
    using blk_in_dat [OF sh vb] fits(1) by simp
  show ?thesis
    using assms room
    by (auto simp: write_block_def written_def Let_def prog_simps tab_simps c_load_def read_at_def
        put_inode_norm sint_small)
qed

lemma tfs_write_closed:
  assumes "fs_inv s" "\<not> open_handle s h"
  shows "tfs_write h buffer len s = Inr (- 1, s)"
  using assms fs_wfD(1) [of s] by (simp add: fs_inv_def tfs_write_def prog_simps tab_simps)

lemma tfs_write_eq:
  assumes inv: "fs_inv s" and h: "open_handle s h"
    and nowrap: "unat len + unat (of_offset (ofiles s ! nat h)) < 2 ^ 64" and buf: "unat len \<le> length buffer"
  defines "e \<equiv> ofiles s ! nat h"
  defines "i \<equiv> nat (of_inumber e)"
  defines "n \<equiv> clip len (of_offset e) (BLOCK_SIZE s)"
  shows "tfs_write h buffer len s = Inr (
    if n = 0 then (0, s)
    else if i_size (inodes s ! i) = 0 then
      (case first_free (bmap s) of
         None \<Rightarrow> (- 1, s)
       | Some b \<Rightarrow> (int (unat n), written (with_block s i b) (nat h) (take (unat n) buffer) n))
    else (int (unat n), written s (nat h) (take (unat n) buffer) n))"
proof -
  have wf: "fs_wf s" and free: "\<not> g_library_mutex s" using inv by (simp_all add: fs_inv_def)
  note sh = fs_wfD(1) [OF wf]
  note o = open_file_props [OF wf h, folded e_def, folded i_def]
  note nn = nowrap [folded e_def]
  have off: "of_offset e \<le> BLOCK_SIZE s" using o(8,9) by (rule order_trans)
  have un: "unat n = min (unat len) (unat (BLOCK_SIZE s) - unat (of_offset e))"
    unfolding n_def by (rule unat_clip [OF nn off])
  have "unat (of_offset e) \<le> unat (BLOCK_SIZE s)" using off by (simp add: word_le_nat_alt)
  then have fits: "unat (of_offset e) + unat n \<le> unat (BLOCK_SIZE s)" "unat n \<le> length buffer" "unat n < 2 ^ 63"
    using un buf block_size_small [OF wf] by simp_all
  let ?t = "put_lock True s"
  have start: "tfs_write h buffer len s =
    (if n > 0 then
       bind (if i_size (inodes s ! i) = 0
             then bind data_block_alloc (\<lambda>bnum.
                  if bnum = - 1 then ret False
                  else andthen (set_inode i (i_data_block_update (\<lambda>_. bnum))) (ret True))
             else ret True)
       (\<lambda>have_block. if \<not> have_block then unlock_return (- 1) else write_block (nat h) e i buffer n) ?t
     else unlock_return (sint n) ?t)"
    using sh free h o
    by (simp add: tfs_write_def bind_app [of lock_library] bind_app [of "get_open_file_entry _"]
        bind_app [of "rd _ _"] bind_app [of "inode_get _"] bind_app [of "gets BLOCK_SIZE"] tab_simps
        state_block_size_def gets_app write_block_def Let_def
        flip: e_def i_def n_def clip_def cong: if_cong)
  show ?thesis
  proof (cases "n = 0")
    case True
    then show ?thesis using start free by (simp add: tab_simps)
  next
    case False
    then have pos: "n > 0" by (simp add: word_gt_0)
    show ?thesis
    proof (cases "i_size (inodes s ! i) = 0")
      case True
      show ?thesis
      proof (cases "first_free (bmap s)")
        case None
        then show ?thesis using start pos True sh free by (simp add: prog_simps tab_simps)
      next
        case (Some b)
        then have b: "b < DATA_BLOCKS s" using fs_shape_tables [OF sh] by (simp add: first_free_Some)
        let ?w = "with_block ?t i b"
        have "write_block (nat h) e i buffer n ?w =
            Inr (int (unat n), put_lock False (written ?w (nat h) (take (unat n) buffer) n))"
          by (rule write_block_eq)
            (use sh o fits b fs_shape_tables(7) [OF sh] in
              \<open>simp_all add: with_block_def valid_block_number_def e_def i_def\<close>)
        moreover have "put_lock False (written ?w (nat h) (take (unat n) buffer) n) =
            written (with_block s i b) (nat h) (take (unat n) buffer) n"
          using free by (simp add: written_def with_block_def Let_def)
        ultimately show ?thesis
          using start pos True Some sh o by (simp add: prog_simps tab_simps with_block_def)
      qed
    next
      case ne: False
      then have vb: "valid_block_number s (i_data_block (inodes s ! i))" using o(10) by (simp add: word_gt_0)
      have "write_block (nat h) e i buffer n ?t =
          Inr (int (unat n), put_lock False (written ?t (nat h) (take (unat n) buffer) n))"
        by (rule write_block_eq) (use sh o fits vb in \<open>simp_all add: e_def i_def\<close>)
      moreover have "put_lock False (written ?t (nat h) (take (unat n) buffer) n) =
          written s (nat h) (take (unat n) buffer) n"
        using free by (simp add: written_def Let_def)
      ultimately show ?thesis using start pos ne False by (simp add: prog_simps)
    qed
  qed
qed

lemma tfs_read_closed:
  assumes "fs_inv s" "\<not> open_handle s h"
  shows "tfs_read h buffer len s = Inr ((- 1, buffer), s)"
  using assms fs_wfD(1) [of s] by (simp add: fs_inv_def tfs_read_def prog_simps tab_simps)

lemma tfs_read_eq:
  assumes inv: "fs_inv s" and h: "open_handle s h" and buf: "unat len \<le> length buffer"
  defines "e \<equiv> ofiles s ! nat h"
  defines "i \<equiv> nat (of_inumber e)"
  defines "n \<equiv> (if i_size (inodes s ! i) - of_offset e > len then len else i_size (inodes s ! i) - of_offset e)"
  shows "unat n = min (unat len) (unat (i_size (inodes s ! i)) - unat (of_offset e))"
    and "tfs_read h buffer len s = Inr (
      if n = 0 then ((0, buffer), s)
      else ((int (unat n), write_at 0 (read_at (blk_off s (i_data_block (inodes s ! i)) + unat (of_offset e))
               (unat n) (dat s)) buffer),
            put_ofile (nat h) (e\<lparr>of_offset := of_offset e + n\<rparr>) s))"
proof -
  have wf: "fs_wf s" and free: "\<not> g_library_mutex s" using inv by (simp_all add: fs_inv_def)
  note sh = fs_wfD(1) [OF wf]
  note o = open_file_props [OF wf h, folded e_def, folded i_def]
  let ?sz = "i_size (inodes s ! i)"
  have sub: "unat (?sz - of_offset e) = unat ?sz - unat (of_offset e)" using o(8) by (rule unat_sub)
  then show un: "unat n = min (unat len) (unat ?sz - unat (of_offset e))"
    by (auto simp: n_def word_less_nat_alt)
  have le: "unat (of_offset e) \<le> unat ?sz" "unat ?sz \<le> unat (BLOCK_SIZE s)"
    using o(8,9) by (simp_all add: word_le_nat_alt)
  let ?t = "put_lock True s"
  let ?blk = "blk_off s (i_data_block (inodes s ! i))"
  have start: "tfs_read h buffer len s =
     (if n > 0 then
         bind (data_block_get (i_data_block (inodes s ! i))) (\<lambda>block.
         bind (mem_read (block + unat (of_offset e)) (unat n)) (\<lambda>bytes.
         bind (defined (c_store 0 bytes buffer)) (\<lambda>buffer'.
         andthen (set_open_file (nat h) (\<lambda>e. e\<lparr>of_offset := of_offset e + n\<rparr>))
         (bind (unlock_return (sint n)) (\<lambda>v. ret (v, buffer')))))) ?t
       else bind (unlock_return (sint n)) (\<lambda>v. ret (v, buffer)) ?t)"
    using sh free h o
    by (simp add: tfs_read_def bind_app [of lock_library] bind_app [of "get_open_file_entry _"]
        bind_app [of "rd _ _"] bind_app [of "inode_get _"] tab_simps Let_def
        flip: e_def i_def n_def cong: if_cong)
  show "tfs_read h buffer len s = Inr (
      if n = 0 then ((0, buffer), s)
      else ((int (unat n), write_at 0 (read_at (?blk + unat (of_offset e)) (unat n) (dat s)) buffer),
            put_ofile (nat h) (e\<lparr>of_offset := of_offset e + n\<rparr>) s))"
  proof (cases "n = 0")
    case True
    then show ?thesis using start free by (simp add: prog_simps tab_simps)
  next
    case False
    then have pos: "n > 0" "unat n > 0" by (simp_all add: word_gt_0 unat_gt_0)
    then have "0 < unat ?sz" using un by simp
    then have vb: "valid_block_number s (i_data_block (inodes s ! i))"
      using o(10) by (simp add: word_less_nat_alt)
    have "?blk + unat (of_offset e) + unat n \<le> length (dat s)"
      using blk_in_dat [OF sh vb] le un by simp
    moreover have "sint n = int (unat n)"
      using un le block_size_small [OF wf] by (intro sint_small) simp
    moreover have "unat n \<le> length buffer" using un buf by simp
    ultimately show ?thesis
      using start pos(1) False sh free o vb
      by (simp add: prog_simps tab_simps c_store_def min.coboundedI1 flip: e_def)
  qed
qed

definition unlinked :: "fs_state \<Rightarrow> nat \<Rightarrow> fs_state" where
  "unlinked s k =
     (let i = nat (snd (dir_slots s 0 ! k)) in
      put_dat (dat_put_slot s 0 k (replicate MAX_FILE_NAME 0) (- 1)) (put_imap i FREE (release_block i s)))"

lemma tfs_unlink_eq:
  assumes inv: "fs_inv s" and m: "is_cstr m"
  shows "tfs_unlink (Some m) s = Inr (
    if \<not> valid_name m then (- 1, s)
    else case name_slot s (fname m) of None \<Rightarrow> (- 1, s) | Some k \<Rightarrow> (0, unlinked s k))"
proof -
  have wf: "fs_wf s" and free: "\<not> g_library_mutex s" using inv by (simp_all add: fs_inv_def)
  note sh = fs_wfD(1) [OF wf]
  let ?t = "put_lock True s"
  have wft: "fs_wf ?t" using wf by simp
  show ?thesis
  proof (cases "valid_name m")
    case False
    then show ?thesis using sh free m by (simp add: tfs_unlink_def prog_simps tab_simps)
  next
    case True
    note v = valid_nameD [OF True m]
    have start: "tfs_unlink (Some m) s =
      (let inum = (case name_slot s (fname m) of None \<Rightarrow> - 1 | Some k \<Rightarrow> snd (dir_slots s 0 ! k)) in
       if inum = - 1 then unlock_return (- 1) ?t
       else andthen (inode_delete inum)
          (bind (clear_dir_entry 0 (drop 1 m)) (\<lambda>e.
           if e = - 1 then unlock_return (- 1) else unlock_return 0)) ?t)"
      using sh free m True wft fs_wf_root(3) [OF wf]
      by (simp add: tfs_unlink_def bind_app [of lock_library] bind_app [of "valid_pathname _"]
          bind_app [of "inode_get _"] bind_app [of "tfs_lookup _ _"] tab_simps ROOT_DIR_INUM_def Let_def
          cong: if_cong option.case_cong)
    show ?thesis
    proof (cases "name_slot s (fname m)")
      case None
      then show ?thesis using start True free by (simp add: tab_simps)
    next
      case (Some k)
      let ?i = "snd (dir_slots s 0 ! k)"
      note ks = name_slot_Some [OF wf Some]
      note iv = file_inum_valid [OF wf ks(4)]
      let ?d = "put_imap (nat ?i) FREE (release_block (nat ?i) ?t)"
      have del: "inode_delete ?i ?t = Inr ((), ?d)"
        by (rule inode_delete_eq)
          (use sh iv ks(4) file_block_valid [OF wf ks(4)] in \<open>simp_all add: file_inum_def\<close>)
      have r: "dir_ready ?d 0" "dir_slots ?d 0 = dir_slots s 0"
        using fs_wf_root(1) [OF wf] by simp_all
      have kl: "k < length (dir_slots s 0)" using ks(1) by simp
      have others: "slot_name (dir_slots s 0 ! j) \<noteq> fname m" if "j < k" for j
      proof (cases "slot_used (dir_slots s 0 ! j)")
        case True
        then show ?thesis using that Some by (simp add: name_slot_def dir_lookup_def first_index_Some)
      next
        case False
        then show ?thesis using dir_okD(4) [OF fs_wfD(4) [OF wf] kl ks(2) that] v(3) by simp
      qed
      have clr: "clear_dir_entry 0 (drop 1 m) ?d =
          Inr (0, put_dat (dat_put_slot s 0 k (replicate MAX_FILE_NAME 0) (- 1)) ?d)"
        using clear_dir_entry_eq [OF r(1) v(1), of k] ks dir_okD(3) [OF fs_wfD(4) [OF wf] kl ks(2)] others
        by (simp add: r(2) v(2) [unfolded One_nat_def])
      have "?i \<noteq> - 1" using iv by simp
      then show ?thesis
        unfolding start using Some True free
        by (simp add: Let_def andthen_app bind_app del clr [unfolded One_nat_def] tab_simps unlinked_def)
    qed
  qed
qed

end
