(* ===== verification/FsRefine.thy ===== *)
theory FsRefine
  imports FsSpec
begin

text \<open>
  The abstract file system, and the refinement: on a state with the invariant every call
  of fs/operations.c returns what its abstract operation returns, leaves a state whose
  abstraction is the abstract operation's, and keeps the invariant with the mutex free.
\<close>

section \<open>The abstract file system\<close>

text \<open>
  Names are linked to file numbers, file numbers to contents, handles to a file number
  and an offset.
\<close>

record afs =
  a_names :: "byte list \<Rightarrow> nat option"
  a_files :: "nat \<Rightarrow> byte list option"
  a_handles :: "int \<Rightarrow> (nat \<times> nat) option"

definition a_attach :: "nat \<Rightarrow> nat \<Rightarrow> nat \<Rightarrow> afs \<Rightarrow> int \<times> afs" where
  "a_attach max_open i off a =
     (case first_index (\<lambda>h. a_handles a (int h) = None) max_open of
        None \<Rightarrow> (- 1, a)
      | Some h \<Rightarrow> (int h, a\<lparr>a_handles := (a_handles a)(int h \<mapsto> (i, off))\<rparr>))"

definition a_open :: "nat \<Rightarrow> nat \<Rightarrow> bool \<Rightarrow> byte list \<Rightarrow> u32 \<Rightarrow> afs \<Rightarrow> int \<times> afs" where
  "a_open max_inodes max_open dir_room nm mode a =
     (case a_names a nm of
        Some i \<Rightarrow>
          (let a1 = (if has_flag mode TFS_O_TRUNC then a\<lparr>a_files := (a_files a)(i \<mapsto> [])\<rparr> else a);
               off = (if has_flag mode TFS_O_APPEND then length (the (a_files a1 i)) else 0)
           in a_attach max_open i off a1)
      | None \<Rightarrow>
          if has_flag mode TFS_O_CREAT \<and> length nm < MAX_FILE_NAME \<and> dir_room then
            (case first_index (\<lambda>i. 0 < i \<and> a_files a i = None) max_inodes of
               None \<Rightarrow> (- 1, a)
             | Some i \<Rightarrow> a_attach max_open i 0
                 (a\<lparr>a_names := (a_names a)(nm \<mapsto> i), a_files := (a_files a)(i \<mapsto> [])\<rparr>))
          else (- 1, a))"

definition a_close :: "int \<Rightarrow> afs \<Rightarrow> int \<times> afs" where
  "a_close h a =
     (case a_handles a h of None \<Rightarrow> (- 1, a)
      | Some _ \<Rightarrow> (0, a\<lparr>a_handles := (a_handles a)(h := None)\<rparr>))"

definition a_write :: "nat \<Rightarrow> bool \<Rightarrow> int \<Rightarrow> byte list \<Rightarrow> afs \<Rightarrow> int \<times> afs" where
  "a_write max_size room h bytes a =
     (case a_handles a h of None \<Rightarrow> (- 1, a)
      | Some (i, off) \<Rightarrow>
          (let n = min (length bytes) (max_size - off); file = the (a_files a i) in
           if n > 0 \<and> file = [] \<and> \<not> room then (- 1, a)
           else (int n, a\<lparr>a_files := (a_files a)(i \<mapsto> write_at off (take n bytes) file),
                          a_handles := (a_handles a)(h \<mapsto> (i, off + n))\<rparr>)))"

definition a_read :: "int \<Rightarrow> byte list \<Rightarrow> nat \<Rightarrow> afs \<Rightarrow> (int \<times> byte list) \<times> afs" where
  "a_read h buffer len a =
     (case a_handles a h of None \<Rightarrow> ((- 1, buffer), a)
      | Some (i, off) \<Rightarrow>
          (let bytes = take len (drop off (the (a_files a i))) in
           ((int (length bytes), bytes @ drop (length bytes) buffer),
            a\<lparr>a_handles := (a_handles a)(h \<mapsto> (i, off + length bytes))\<rparr>)))"

definition a_unlink :: "byte list \<Rightarrow> afs \<Rightarrow> int \<times> afs" where
  "a_unlink nm a =
     (case a_names a nm of None \<Rightarrow> (- 1, a)
      | Some i \<Rightarrow> (0, a\<lparr>a_names := (a_names a)(nm := None), a_files := (a_files a)(i := None)\<rparr>))"

section \<open>The abstraction\<close>

definition content :: "fs_state \<Rightarrow> nat \<Rightarrow> byte list" where
  "content s i = read_at (blk_off s (i_data_block (inodes s ! i))) (unat (i_size (inodes s ! i))) (dat s)"

definition afs_of :: "fs_state \<Rightarrow> afs" where
  "afs_of s =
     \<lparr>a_names = (\<lambda>nm. map_option (\<lambda>k. nat (snd (dir_slots s 0 ! k))) (name_slot s nm)),
      a_files = (\<lambda>i. if file_inum (imap s) (int i) then Some (content s i) else None),
      a_handles = (\<lambda>h. if open_handle s h
         then Some (nat (of_inumber (ofiles s ! nat h)), unat (of_offset (ofiles s ! nat h))) else None)\<rparr>"

lemma afs_of_sel [simp]:
  "a_names (afs_of s) nm = map_option (\<lambda>k. nat (snd (dir_slots s 0 ! k))) (name_slot s nm)"
  "a_files (afs_of s) i = (if file_inum (imap s) (int i) then Some (content s i) else None)"
  "a_handles (afs_of s) h = (if open_handle s h
     then Some (nat (of_inumber (ofiles s ! nat h)), unat (of_offset (ofiles s ! nat h))) else None)"
  by (simp_all add: afs_of_def)

lemma open_handle_int: "open_handle s (int h) \<longleftrightarrow> h < MAX_OPEN_FILES s \<and> omap s ! h = TAKEN"
  by (simp add: open_handle_def valid_file_handle_def)

lemma afs_eqI:
  "(\<And>x. a_names a x = a_names b x) \<Longrightarrow> (\<And>x. a_files a x = a_files b x) \<Longrightarrow>
   (\<And>x. a_handles a x = a_handles b x) \<Longrightarrow> a = (b :: afs)"
  by (cases a; cases b) auto

lemma map_eqI: "(\<And>j. f = Some j \<longleftrightarrow> g = Some j) \<Longrightarrow> f = (g :: 'a option)"
  by (cases f; cases g) auto

lemma a_names_iff:
  assumes "fs_wf s"
  shows "a_names (afs_of s) nm = Some i \<longleftrightarrow>
    (\<exists>k<MAX_DIR_ENTRIES s. slot_used (dir_slots s 0 ! k) \<and> slot_name (dir_slots s 0 ! k) = nm \<and>
       snd (dir_slots s 0 ! k) = int i)"
proof
  assume "a_names (afs_of s) nm = Some i"
  then obtain k where k: "name_slot s nm = Some k" "i = nat (snd (dir_slots s 0 ! k))" by auto
  have "0 \<le> snd (dir_slots s 0 ! k)"
    using name_slot_Some(4) [OF assms k(1)] by (simp add: file_inum_def)
  then show "\<exists>k<MAX_DIR_ENTRIES s. slot_used (dir_slots s 0 ! k) \<and> slot_name (dir_slots s 0 ! k) = nm \<and>
       snd (dir_slots s 0 ! k) = int i"
    using name_slot_Some(1-3) [OF assms k(1)] k(2) by (intro exI [of _ k]) simp
next
  assume "\<exists>k<MAX_DIR_ENTRIES s. slot_used (dir_slots s 0 ! k) \<and> slot_name (dir_slots s 0 ! k) = nm \<and>
       snd (dir_slots s 0 ! k) = int i"
  then obtain k where k: "k < MAX_DIR_ENTRIES s" "slot_used (dir_slots s 0 ! k)"
    "slot_name (dir_slots s 0 ! k) = nm" "snd (dir_slots s 0 ! k) = int i" by blast
  then have "name_slot s nm = Some k" by (simp add: name_slot_iff [OF assms])
  then show "a_names (afs_of s) nm = Some i" using k(4) by simp
qed

lemma content_put [simp]:
  "content (put_bmap b st s) i = content s i" "content (put_imap j st s) i = content s i"
  "content (put_ofile h e s) i = content s i" "content (put_omap h st s) i = content s i"
  "content (put_lock lk s) i = content s i" "j \<noteq> i \<Longrightarrow> content (put_inode j n s) i = content s i"
  "content (release_block j s) i = content s i"
  by (simp_all add: content_def)

lemma MAX_OPEN_put: "MAX_OPEN_FILES (release_block i s) = MAX_OPEN_FILES s"
  by (simp add: release_block_def)

lemma not_taken: "(st \<noteq> TAKEN) = (st = FREE)" "(st \<noteq> FREE) = (st = TAKEN)"
  by (cases st; simp)+

lemma first_index_cong: "(\<And>i. i < n \<Longrightarrow> P i = Q i) \<Longrightarrow> first_index P n = first_index Q n"
  unfolding first_index_def by (rule find_cong) auto

lemma first_free_handle:
  assumes "fs_shape s"
  shows "first_free (omap s) = first_index (\<lambda>h. a_handles (afs_of s) (int h) = None) (MAX_OPEN_FILES s)"
  unfolding first_free_def fs_shape_tables(12) [OF assms]
  by (rule first_index_cong) (simp add: not_taken open_handle_int)

lemma opened_refines:
  assumes wf: "fs_wf s" and i: "file_inum (imap s) (int i)" and off: "off \<le> i_size (inodes s ! i)"
  shows "fs_wf (snd (opened s (int i) off))"
    "(fst (opened s (int i) off), afs_of (snd (opened s (int i) off))) =
       a_attach (MAX_OPEN_FILES s) i (unat off) (afs_of s)"
    "g_library_mutex (snd (opened s (int i) off)) = g_library_mutex s"
    "fs_params (snd (opened s (int i) off)) = fs_params s"
proof -
  show "fs_wf (snd (opened s (int i) off))"
    using wf i off by (auto simp: opened_def intro!: wf_intros split: option.splits)
  show "g_library_mutex (snd (opened s (int i) off)) = g_library_mutex s"
    "fs_params (snd (opened s (int i) off)) = fs_params s"
    by (simp_all add: opened_def split: option.splits)
  note sh = fs_wfD(1) [OF wf]
  show "(fst (opened s (int i) off), afs_of (snd (opened s (int i) off))) =
       a_attach (MAX_OPEN_FILES s) i (unat off) (afs_of s)"
  proof (cases "first_free (omap s)")
    case None
    then show ?thesis
      using first_free_handle [OF sh] by (simp add: opened_def a_attach_def)
  next
    case (Some h)
    then have h: "h < MAX_OPEN_FILES s" using fs_shape_tables [OF sh] by (simp add: first_free_Some)
    have "afs_of (put_ofile h \<lparr>of_inumber = int i, of_offset = off\<rparr> (put_omap h TAKEN s)) =
        (afs_of s)\<lparr>a_handles := (a_handles (afs_of s))(int h \<mapsto> (i, unat off))\<rparr>"
      using h fs_shape_tables [OF sh] by (intro afs_eqI) (auto simp: nth_upd open_handle_def valid_file_handle_def)
    then show ?thesis
      using Some first_free_handle [OF sh] by (simp add: opened_def a_attach_def)
  qed
qed

section \<open>Writing\<close>

lemma write_at_extend:
  assumes "p + m \<le> length d" "sz \<le> m" "off \<le> sz" "off + length ys \<le> m"
    "m = sz \<or> m = off + length ys"
  shows "write_at off ys (read_at p m d) = write_at off ys (read_at p sz d)"
  using assms by (auto simp: write_at_def read_at_def min_def)

text \<open>The file's block is a valid one and no other inode that is in use owns it.\<close>

definition block_of :: "fs_state \<Rightarrow> nat \<Rightarrow> bool" where
  "block_of t i \<longleftrightarrow> valid_block_number t (i_data_block (inodes t ! i)) \<and>
     (\<forall>j<INODE_TABLE_SIZE t. j \<noteq> i \<and> imap t ! j = TAKEN \<and> 0 < i_size (inodes t ! j) \<longrightarrow>
        0 \<le> i_data_block (inodes t ! j) \<and> i_data_block (inodes t ! j) \<noteq> i_data_block (inodes t ! i))"

lemma block_of_owner:
  assumes "fs_wf s" "i < INODE_TABLE_SIZE s" "imap s ! i = TAKEN" "0 < i_size (inodes s ! i)"
  shows "block_of s i"
proof -
  note w = fs_wfD [OF assms(1)]
  note len = fs_shape_tables [OF w(1)]
  have i: "i < length (inodes s)" using assms(2) len by simp
  note bi = blocks_okD [OF w(3) i assms(3,4)]
  have "0 \<le> i_data_block (inodes s ! j) \<and> i_data_block (inodes s ! j) \<noteq> i_data_block (inodes s ! i)"
    if "j < INODE_TABLE_SIZE s" "j \<noteq> i" "imap s ! j = TAKEN" "0 < i_size (inodes s ! j)" for j
  proof -
    have j: "j < length (inodes s)" using that len by simp
    note bj = blocks_okD [OF w(3) j that(3,4)]
    show ?thesis using bj(2,4) bi(4) blocks_ok_inj [OF w(3)] that(2) by auto
  qed
  moreover have "valid_block_number s (i_data_block (inodes s ! i))"
    using bi(2,3) len by (simp add: valid_block_number_def)
  ultimately show ?thesis by (simp add: block_of_def)
qed

lemma block_of_with_block:
  assumes "fs_wf s" "i < INODE_TABLE_SIZE s" "imap s ! i = TAKEN" "b < DATA_BLOCKS s" "bmap s ! b = FREE"
  shows "block_of (with_block s i b) i"
proof -
  note w = fs_wfD [OF assms(1)]
  note len = fs_shape_tables [OF w(1)]
  have "0 \<le> i_data_block (inodes s ! j) \<and> i_data_block (inodes s ! j) \<noteq> int b"
    if "j < INODE_TABLE_SIZE s" "imap s ! j = TAKEN" "0 < i_size (inodes s ! j)" for j
  proof -
    have j: "j < length (inodes s)" using that len by simp
    note bj = blocks_okD [OF w(3) j that(2,3)]
    show ?thesis using bj(2,5) assms(5) by auto
  qed
  then show ?thesis
    using assms(2,4) len by (simp add: block_of_def with_block_def nth_upd valid_block_number_def)
qed

lemma content_written:
  assumes sh: "fs_shape t" and f: "ofiles t ! f = e" and i: "i = nat (of_inumber e)" "i < INODE_TABLE_SIZE t"
    and b: "block_of t i" and n: "length bytes = unat n" "unat (of_offset e) + unat n \<le> unat (BLOCK_SIZE t)"
    and off: "of_offset e \<le> i_size (inodes t ! i)" "i_size (inodes t ! i) \<le> BLOCK_SIZE t"
  shows "content (written t f bytes n) i = write_at (unat (of_offset e)) bytes (content t i)"
    and "j < INODE_TABLE_SIZE t \<Longrightarrow> j \<noteq> i \<Longrightarrow> imap t ! j = TAKEN \<Longrightarrow> i_size (inodes t ! j) \<le> BLOCK_SIZE t \<Longrightarrow>
      content (written t f bytes n) j = content t j"
proof -
  let ?nd = "inodes t ! i"
  let ?b = "blk_off t (i_data_block ?nd)"
  let ?o = "unat (of_offset e)"
  let ?m = "max (unat (i_size ?nd)) (?o + unat n)"
  have vb: "valid_block_number t (i_data_block ?nd)" using b by (simp add: block_of_def)
  have room: "?b + unat (BLOCK_SIZE t) \<le> length (dat t)" by (rule blk_in_dat [OF sh vb])
  have le: "?o \<le> unat (i_size ?nd)" "unat (i_size ?nd) \<le> unat (BLOCK_SIZE t)"
    using off by (simp_all add: word_le_nat_alt)
  have "unat (BLOCK_SIZE t) < 2 ^ 64" using unsigned_less [of "BLOCK_SIZE t"] by simp
  then have sum: "unat (of_offset e + n) = ?o + unat n" using n(2) by (simp add: unat_word_ariths)
  have sz: "unat (i_size (inodes (written t f bytes n) ! i)) = ?m"
    "i_data_block (inodes (written t f bytes n) ! i) = i_data_block ?nd"
    "\<And>j. j \<noteq> i \<Longrightarrow> inodes (written t f bytes n) ! j = inodes t ! j"
    using f i sum fs_shape_tables(7) [OF sh]
    by (auto simp: written_def Let_def nth_upd word_less_nat_alt max_def)
  have d: "dat (written t f bytes n) = write_at (?b + ?o) bytes (dat t)"
    "\<And>c. blk_off (written t f bytes n) c = blk_off t c"
    using f i by (simp_all add: written_def Let_def)
  have "content (written t f bytes n) i = write_at ?o bytes (read_at ?b ?m (dat t))"
    unfolding content_def sz d using n room le
    by (subst read_at_write_at_inside) simp_all
  also have "\<dots> = write_at ?o bytes (read_at ?b (unat (i_size ?nd)) (dat t))"
    by (rule write_at_extend) (use n room le in auto)
  finally show "content (written t f bytes n) i = write_at ?o bytes (content t i)"
    by (simp add: content_def)
  assume j: "j < INODE_TABLE_SIZE t" "j \<noteq> i" "imap t ! j = TAKEN" "i_size (inodes t ! j) \<le> BLOCK_SIZE t"
  show "content (written t f bytes n) j = content t j"
  proof (cases "i_size (inodes t ! j) = 0")
    case True
    then show ?thesis using j sz(3) by (simp add: content_def read_at_def)
  next
    case False
    then have bj: "0 \<le> i_data_block (inodes t ! j)" "i_data_block (inodes t ! j) \<noteq> i_data_block ?nd"
      using b j by (simp_all add: block_of_def word_gt_0)
    have "0 \<le> i_data_block ?nd" using vb by (simp add: valid_block_number_def)
    from blk_off_disjoint [OF bj(1) this bj(2), of t]
    have "blk_off t (i_data_block (inodes t ! j)) + unat (i_size (inodes t ! j)) \<le> ?b + ?o \<or>
        ?b + ?o + length bytes \<le> blk_off t (i_data_block (inodes t ! j))"
      using j(4) n by (auto simp: word_le_nat_alt)
    then show ?thesis
      using j sz(3) d n room
      by (simp add: content_def read_at_write_at_disjoint)
  qed
qed

lemma written_handle:
  assumes "fs_shape t" "h < MAX_OPEN_FILES t" "ofiles t ! h = e"
  shows "ofiles (written t h bytes n) ! h' =
      (if h' = h then e\<lparr>of_offset := of_offset e + n\<rparr> else ofiles t ! h')"
    "omap (written t h bytes n) = omap t" "imap (written t h bytes n) = imap t"
    "fs_params (written t h bytes n) = fs_params t" "MAX_OPEN_FILES (written t h bytes n) = MAX_OPEN_FILES t"
    "g_library_mutex (written t h bytes n) = g_library_mutex t"
  using assms fs_shape_tables(11) [OF assms(1)] by (auto simp: written_def Let_def nth_upd)

text \<open>The abstract effect of a write, given that the directory is out of its way.\<close>

lemma written_afs:
  assumes sh: "fs_shape t" and h: "h < MAX_OPEN_FILES t" "omap t ! h = TAKEN" and f: "ofiles t ! h = e"
    and i: "i = nat (of_inumber e)" "file_inum (imap t) (int i)"
    and b: "block_of t i" and n: "length bytes = unat n" "unat (of_offset e) + unat n \<le> unat (BLOCK_SIZE t)"
    and off: "of_offset e \<le> i_size (inodes t ! i)"
    and small: "\<And>j. j < INODE_TABLE_SIZE t \<Longrightarrow> imap t ! j = TAKEN \<Longrightarrow> i_size (inodes t ! j) \<le> BLOCK_SIZE t"
    and names: "\<And>nm. name_slot (written t h bytes n) nm = name_slot t nm"
      "dir_slots (written t h bytes n) 0 = dir_slots t 0"
  shows "afs_of (written t h bytes n) =
    (afs_of t)\<lparr>a_files := (a_files (afs_of t))(i \<mapsto> write_at (unat (of_offset e)) bytes (content t i)),
               a_handles := (a_handles (afs_of t))(int h \<mapsto> (i, unat (of_offset e) + unat n))\<rparr>"
proof (rule afs_eqI)
  note wh = written_handle [OF sh h(1) f]
  have iN: "i < INODE_TABLE_SIZE t" "imap t ! i = TAKEN"
    using i(2) fs_shape_tables [OF sh] by (simp_all add: file_inum_def)
  have "unat (BLOCK_SIZE t) < 2 ^ 64" using unsigned_less [of "BLOCK_SIZE t"] by simp
  then have sum: "unat (of_offset e + n) = unat (of_offset e) + unat n" using n(2) by (simp add: unat_word_ariths)
  fix y :: int and x :: nat
  show "a_handles (afs_of (written t h bytes n)) y = a_handles ((afs_of t)
      \<lparr>a_files := (a_files (afs_of t))(i \<mapsto> write_at (unat (of_offset e)) bytes (content t i)),
       a_handles := (a_handles (afs_of t))(int h \<mapsto> (i, unat (of_offset e) + unat n))\<rparr>) y"
    using h i f sum by (auto simp: wh open_handle_def valid_file_handle_def)
  show "a_files (afs_of (written t h bytes n)) x = a_files ((afs_of t)
      \<lparr>a_files := (a_files (afs_of t))(i \<mapsto> write_at (unat (of_offset e)) bytes (content t i)),
       a_handles := (a_handles (afs_of t))(int h \<mapsto> (i, unat (of_offset e) + unat n))\<rparr>) x"
  proof (cases "x = i")
    case True
    then show ?thesis
      using content_written(1) [OF sh f i(1) iN(1) b n off small [OF iN]] i(2) by (simp add: wh)
  next
    case False
    show ?thesis
    proof (cases "file_inum (imap t) (int x)")
      case True
      then have x: "x < INODE_TABLE_SIZE t" "imap t ! x = TAKEN"
        using fs_shape_tables [OF sh] by (simp_all add: file_inum_def)
      show ?thesis
        using content_written(2) [OF sh f i(1) iN(1) b n off small [OF iN] x(1) False x(2) small [OF x]] False
        by (simp add: wh)
    next
      case no: False
      then show ?thesis using False by (simp add: wh)
    qed
  qed
qed (simp add: names)

lemma dir_untouched:
  assumes wf: "dir_ready t 0" and i: "0 < i" "i < INODE_TABLE_SIZE t" "i = nat (of_inumber (ofiles t ! h))"
    and b: "block_of t i" and root: "imap t ! 0 = TAKEN" "0 < i_size (inodes t ! 0)"
    and n: "unat (of_offset (ofiles t ! h)) + length bytes \<le> unat (BLOCK_SIZE t)"
  shows "let off = blk_off t (i_data_block (inodes t ! i)) + unat (of_offset (ofiles t ! h)) in
      off + length bytes \<le> length (dat t) \<and>
      (off + length bytes \<le> dir_off t 0 \<or> dir_off t 0 + unat (BLOCK_SIZE t) \<le> off)"
    and "dir_slots (written t h bytes w) 0 = dir_slots t 0"
    and "name_slot (written t h bytes w) nm = name_slot t nm"
proof -
  let ?b = "blk_off t (i_data_block (inodes t ! i))"
  let ?off = "?b + unat (of_offset (ofiles t ! h))"
  have v: "0 \<le> i_data_block (inodes t ! i)" "valid_block_number t (i_data_block (inodes t ! i))"
    using b by (simp_all add: block_of_def valid_block_number_def)
  have r: "0 \<le> i_data_block (inodes t ! 0)" "i_data_block (inodes t ! 0) \<noteq> i_data_block (inodes t ! i)"
    using b i root by (auto simp: block_of_def)
  have room: "?b + unat (BLOCK_SIZE t) \<le> length (dat t)"
    using wf by (intro blk_in_dat v) (simp add: dir_ready_def)
  have off: "?off + length bytes \<le> length (dat t)" using room n by simp
  have out: "?off + length bytes \<le> dir_off t 0 \<or> dir_off t 0 + unat (BLOCK_SIZE t) \<le> ?off"
    using blk_off_disjoint [OF v(1) r(1) r(2)[symmetric], of t] n unfolding dir_off_def by linarith
  show "let off = ?off in off + length bytes \<le> length (dat t) \<and>
      (off + length bytes \<le> dir_off t 0 \<or> dir_off t 0 + unat (BLOCK_SIZE t) \<le> off)"
    using off out by simp
  have "MAX_DIR_ENTRIES t * sizeof_dir_entry \<le> unat (BLOCK_SIZE t)" by (simp add: MAX_DIR_ENTRIES_def)
  then have "slots_at (write_at ?off bytes (dat t)) (dir_off t 0) (MAX_DIR_ENTRIES t) = dir_slots t 0"
    unfolding dir_slots_def using off out by (intro slots_at_write_outside) auto
  then show d: "dir_slots (written t h bytes w) 0 = dir_slots t 0"
    using i by (simp add: written_def Let_def dir_slots_put_dat)
  then show "name_slot (written t h bytes w) nm = name_slot t nm" by (simp add: name_slot_def)
qed

lemma fs_wf_root_inode:
  assumes "fs_wf s" shows "imap s ! 0 = TAKEN" "0 < i_size (inodes s ! 0)"
  using fs_wfD(2) [OF assms] by (simp_all add: root_ok_def)

lemma inode_size_le:
  assumes "fs_wf s" "j < INODE_TABLE_SIZE s" "imap s ! j = TAKEN"
  shows "i_size (inodes s ! j) \<le> BLOCK_SIZE s"
  using blocks_okD(1) [OF fs_wfD(3) [OF assms(1)], of j] assms fs_shape_tables(7) [OF fs_wfD(1) [OF assms(1)]]
  by (cases "0 < i_size (inodes s ! j)") (auto simp: word_gt_0)

lemma content_empty:
  assumes wf: "fs_wf s" and i: "file_inum (imap s) (int i)"
  shows "content s i = [] \<longleftrightarrow> i_size (inodes s ! i) = 0"
    and "length (content s i) = unat (i_size (inodes s ! i))"
proof -
  note w = fs_wfD [OF wf]
  note len = fs_shape_tables [OF w(1)]
  show l: "length (content s i) = unat (i_size (inodes s ! i))"
  proof (cases "0 < i_size (inodes s ! i)")
    case True
    then have vb: "valid_block_number s (i_data_block (inodes s ! i))"
      using file_block_valid [OF wf i] by simp
    have "i < length (inodes s)" "imap s ! i = TAKEN" using i len by (simp_all add: file_inum_def)
    from blocks_okD(1) [OF w(3) this True]
    have "unat (i_size (inodes s ! i)) \<le> unat (BLOCK_SIZE s)" by (simp add: word_le_nat_alt)
    then show ?thesis using blk_in_dat [OF w(1) vb] by (simp add: content_def)
  qed (simp add: content_def read_at_def word_gt_0)
  show "content s i = [] \<longleftrightarrow> i_size (inodes s ! i) = 0" using l by (metis length_0_conv unat_eq_zero)
qed

text \<open>The invariant after a write, with and without a new block.\<close>

lemma wf_written:
  assumes wf: "fs_wf s" and h: "open_handle s h"
  defines "e \<equiv> ofiles s ! nat h"
  defines "i \<equiv> nat (of_inumber e)"
  assumes ne: "0 < i_size (inodes s ! i)"
    and n: "length bytes = unat n" "unat (of_offset e) + unat n \<le> unat (BLOCK_SIZE s)"
  shows "fs_wf (written s (nat h) bytes n)"
proof -
  note sh = fs_wfD(1) [OF wf]
  note o = open_file_props [OF wf h, folded e_def, folded i_def]
  note root = fs_wf_root_inode [OF wf]
  let ?off = "of_offset e + n"
  have "unat (BLOCK_SIZE s) < 2 ^ 64" using unsigned_less [of "BLOCK_SIZE s"] by simp
  then have "unat ?off = unat (of_offset e) + unat n" using n(2) by (simp add: unat_word_ariths)
  then have le: "?off \<le> BLOCK_SIZE s" using n(2) by (simp add: word_le_nat_alt)
  let ?d = "put_dat (write_at (blk_off s (i_data_block (inodes s ! i)) + unat (of_offset e)) bytes (dat s)) s"
  have "let off = blk_off s (i_data_block (inodes s ! i)) + unat (of_offset (ofiles s ! nat h)) in
      off + length bytes \<le> length (dat s) \<and>
      (off + length bytes \<le> dir_off s 0 \<or> dir_off s 0 + unat (BLOCK_SIZE s) \<le> off)"
    by (rule dir_untouched(1) [OF fs_wf_root(1) [OF wf] o(2,3) _ block_of_owner [OF wf o(3,4) ne] root])
      (use n in \<open>simp_all add: e_def i_def\<close>)
  then have wd: "fs_wf ?d" by (intro wf_put_dat [OF wf]) (simp_all add: Let_def flip: e_def)
  have move: "fs_wf (put_ofile (nat h) (e\<lparr>of_offset := ?off\<rparr>) u)"
    if "fs_wf u" "omap u = omap s" "ofiles u = ofiles s" "MAX_OPEN_FILES u = MAX_OPEN_FILES s"
      "?off \<le> i_size (inodes u ! i)" for u
    using that o(1) h by (intro wf_move_offset) (auto simp: e_def i_def open_handle_def)
  show ?thesis
  proof (cases "?off > i_size (inodes s ! i)")
    case True
    have "fs_wf (put_inode i ((inodes ?d ! i)\<lparr>i_size := ?off\<rparr>) ?d)"
      using o ne le True by (intro wf_grow [OF wd]) auto
    then have "fs_wf (put_ofile (nat h) (e\<lparr>of_offset := ?off\<rparr>)
        (put_inode i ((inodes ?d ! i)\<lparr>i_size := ?off\<rparr>) ?d))"
      by (rule move) (use o fs_shape_tables(7) [OF sh] in simp_all)
    then show ?thesis
      using True by (simp add: written_def Let_def put_inode_norm flip: e_def i_def)
  next
    case False
    have "fs_wf (put_ofile (nat h) (e\<lparr>of_offset := ?off\<rparr>) ?d)"
      by (rule move [OF wd]) (use False in simp_all)
    then show ?thesis
      using False by (simp add: written_def Let_def flip: e_def i_def)
  qed
qed

lemma inode_fields_swap: "n\<lparr>i_data_block := b, i_size := z\<rparr> = n\<lparr>i_size := z, i_data_block := b\<rparr>"
  by simp

lemma wf_written_first:
  assumes wf: "fs_wf s" and h: "open_handle s h"
  defines "e \<equiv> ofiles s ! nat h"
  defines "i \<equiv> nat (of_inumber e)"
  assumes empty: "i_size (inodes s ! i) = 0" and b: "b < DATA_BLOCKS s" "bmap s ! b = FREE"
    and n: "length bytes = unat n" "unat (of_offset e) + unat n \<le> unat (BLOCK_SIZE s)" "0 < unat n"
  shows "fs_wf (written (with_block s i b) (nat h) bytes n)"
proof -
  note sh = fs_wfD(1) [OF wf]
  note o = open_file_props [OF wf h, folded e_def, folded i_def]
  note root = fs_wf_root_inode [OF wf]
  let ?w = "with_block s i b"
  have off: "of_offset e = 0" using o(8) empty by simp
  have le: "0 < n" "n \<le> BLOCK_SIZE s" using n off by (simp_all add: word_le_nat_alt word_less_nat_alt)
  let ?u = "put_inode i ((inodes s ! i)\<lparr>i_size := n, i_data_block := int b\<rparr>) (put_bmap b TAKEN s)"
  have wu: "fs_wf ?u" by (rule wf_first_block [OF wf o(2,3,4) empty b le])
  have il: "i < length (inodes s)" using o(3) fs_shape_tables(7) [OF sh] by simp
  let ?off = "blk_off s (int b)"
  have "let off = blk_off ?u (i_data_block (inodes ?u ! i)) + unat (of_offset (ofiles ?u ! nat h)) in
      off + length bytes \<le> length (dat ?u) \<and>
      (off + length bytes \<le> dir_off ?u 0 \<or> dir_off ?u 0 + unat (BLOCK_SIZE ?u) \<le> off)"
    by (rule dir_untouched(1) [OF fs_wf_root(1) [OF wu] o(2) _ _ block_of_owner [OF wu]])
      (use n o il root le in \<open>simp_all add: e_def i_def\<close>)
  then have "?off + length bytes \<le> length (dat ?u) \<and>
      (?off + length bytes \<le> dir_off ?u 0 \<or> dir_off ?u 0 + unat (BLOCK_SIZE ?u) \<le> ?off)"
    using off il by (simp add: Let_def flip: e_def)
  then have wd: "fs_wf (put_dat (write_at ?off bytes (dat ?u)) ?u)" by (intro wf_put_dat [OF wu]) simp_all
  have "fs_wf (put_ofile (nat h) (e\<lparr>of_offset := n\<rparr>) (put_dat (write_at ?off bytes (dat ?u)) ?u))"
    by (rule wf_move_offset [OF wd])
      (use o(1) h il in \<open>auto simp: open_handle_def simp flip: e_def i_def\<close>)
  then show ?thesis
    using off le(1) empty il
    by (simp add: written_def with_block_def Let_def put_inode_norm inode_fields_swap flip: e_def i_def)
qed

text \<open>The two ways a write goes: into the file's block, and into a first one.\<close>

definition a_written :: "int \<Rightarrow> nat \<Rightarrow> nat \<Rightarrow> byte list \<Rightarrow> afs \<Rightarrow> afs" where
  "a_written h i off bytes a =
     a\<lparr>a_files := (a_files a)(i \<mapsto> write_at off bytes (the (a_files a i))),
       a_handles := (a_handles a)(h \<mapsto> (i, off + length bytes))\<rparr>"

lemma written_spec:
  assumes wf: "fs_wf s" and h: "open_handle s h"
  defines "e \<equiv> ofiles s ! nat h"
  defines "i \<equiv> nat (of_inumber e)"
  assumes ne: "0 < i_size (inodes s ! i)"
    and n: "length bytes = unat n" "unat (of_offset e) + unat n \<le> unat (BLOCK_SIZE s)"
  shows "afs_of (written s (nat h) bytes n) = a_written h i (unat (of_offset e)) bytes (afs_of s)"
proof -
  note sh = fs_wfD(1) [OF wf]
  note o = open_file_props [OF wf h, folded e_def, folded i_def]
  note root = fs_wf_root_inode [OF wf]
  note small = inode_size_le [OF wf]
  have b: "block_of s i" by (rule block_of_owner [OF wf o(3,4) ne])
  have i: "file_inum (imap s) (int i)" using o(6,7) by simp
  have t: "omap s ! nat h = TAKEN" "int (nat h) = h"
    using h open_handleD(1) [OF wf h] by (simp_all add: open_handle_def)
  note du = dir_untouched(2,3) [OF fs_wf_root(1) [OF wf] o(2,3) _ b root, of "nat h" bytes]
  have "afs_of (written s (nat h) bytes n) = (afs_of s)
     \<lparr>a_files := (a_files (afs_of s))(i \<mapsto> write_at (unat (of_offset e)) bytes (content s i)),
      a_handles := (a_handles (afs_of s))(int (nat h) \<mapsto> (i, unat (of_offset e) + unat n))\<rparr>"
    by (rule written_afs [OF sh o(1) t(1) _ _ i b n o(8) small])
      (use du n in \<open>simp_all add: e_def i_def\<close>)
  then show ?thesis using i n(1) t(2) by (simp add: a_written_def)
qed

lemma afs_with_block:
  assumes "0 < i" "i_size (inodes s ! i) = 0" "i < length (inodes s)"
  shows "afs_of (with_block s i b) = afs_of s"
proof (rule afs_eqI)
  fix x
  show "a_files (afs_of (with_block s i b)) x = a_files (afs_of s) x"
    using assms by (auto simp: with_block_def content_def nth_upd read_at_def)
  fix y show "a_names (afs_of (with_block s i b)) y = a_names (afs_of s) y"
    using assms by (simp add: with_block_def)
  fix z show "a_handles (afs_of (with_block s i b)) z = a_handles (afs_of s) z"
    by (simp add: with_block_def open_handle_def)
qed

lemma written_first_spec:
  assumes wf: "fs_wf s" and h: "open_handle s h"
  defines "e \<equiv> ofiles s ! nat h"
  defines "i \<equiv> nat (of_inumber e)"
  assumes empty: "i_size (inodes s ! i) = 0" and b: "b < DATA_BLOCKS s" "bmap s ! b = FREE"
    and n: "length bytes = unat n" "unat (of_offset e) + unat n \<le> unat (BLOCK_SIZE s)"
  shows "afs_of (written (with_block s i b) (nat h) bytes n) =
    a_written h i (unat (of_offset e)) bytes (afs_of s)"
proof -
  note sh = fs_wfD(1) [OF wf]
  note o = open_file_props [OF wf h, folded e_def, folded i_def]
  have il: "i < length (inodes s)" using o(3) fs_shape_tables(7) [OF sh] by simp
  let ?w = "with_block s i b"
  have wt: "fs_shape ?w" "ofiles ?w = ofiles s" "omap ?w = omap s" "imap ?w = imap s"
    "BLOCK_SIZE ?w = BLOCK_SIZE s" "MAX_OPEN_FILES ?w = MAX_OPEN_FILES s"
    "INODE_TABLE_SIZE ?w = INODE_TABLE_SIZE s" "dir_ready ?w 0"
    "\<And>j. i_size (inodes ?w ! j) = i_size (inodes s ! j)"
    using sh fs_wf_root(1) [OF wf] o(2) by (auto simp: with_block_def nth_upd)
  note root = fs_wf_root_inode [OF wf]
  note small = inode_size_le [OF wf]
  have bo: "block_of ?w i" by (rule block_of_with_block [OF wf o(3,4) b])
  have i: "file_inum (imap s) (int i)" using o(6,7) by simp
  have t: "omap s ! nat h = TAKEN" "int (nat h) = h"
    using h open_handleD(1) [OF wf h] by (simp_all add: open_handle_def)
  have du: "dir_slots (written ?w (nat h) bytes n) 0 = dir_slots ?w 0"
    "name_slot (written ?w (nat h) bytes n) nm = name_slot ?w nm" for nm
    by (rule dir_untouched(2,3) [of ?w i "nat h"];
        use wt o bo n root in \<open>simp add: e_def i_def\<close>)+
  have "afs_of (written ?w (nat h) bytes n) = (afs_of ?w)
     \<lparr>a_files := (a_files (afs_of ?w))(i \<mapsto> write_at (unat (of_offset e)) bytes (content ?w i)),
      a_handles := (a_handles (afs_of ?w))(int (nat h) \<mapsto> (i, unat (of_offset e) + unat n))\<rparr>"
    by (rule written_afs [OF wt(1) _ _ _ _ _ bo _ _ _ _ du(2,1)])
      (use wt o i t n small in \<open>simp_all add: e_def i_def\<close>)
  moreover have "content ?w i = []" using empty by (simp add: content_def wt read_at_def)
  moreover have "content s i = []" using empty by (simp add: content_def read_at_def)
  ultimately show ?thesis
    using i n(1) t(2) by (simp add: a_written_def afs_with_block [OF o(2) empty il])
qed

section \<open>Directory updates\<close>

lemma content_put_slot:
  assumes wf: "fs_wf s" and k: "k < MAX_DIR_ENTRIES s" "length nm = MAX_FILE_NAME"
    and j: "file_inum (imap s) (int j)" and t: "inodes t ! j = inodes s ! j" "BLOCK_SIZE t = BLOCK_SIZE s"
  shows "content (put_dat (dat_put_slot s 0 k nm x) t) j = content s j"
proof (cases "0 < i_size (inodes s ! j)")
  case True
  note r = fs_wf_root [OF wf]
  have j': "j < INODE_TABLE_SIZE s" "imap s ! j = TAKEN" "0 < j"
    using j fs_shape_tables [OF fs_wfD(1) [OF wf]] by (simp_all add: file_inum_def)
  have "block_of s j" by (rule block_of_owner [OF wf j'(1,2) True])
  then have b: "0 \<le> i_data_block (inodes s ! j)" "0 \<le> i_data_block (inodes s ! 0)"
    "i_data_block (inodes s ! 0) \<noteq> i_data_block (inodes s ! j)"
    using j' r(2) fs_wf_root_inode [OF wf] by (auto simp: block_of_def valid_block_number_def)
  have "unat (i_size (inodes s ! j)) \<le> unat (BLOCK_SIZE s)"
    using inode_size_le [OF wf j'(1,2)] by (simp add: word_le_nat_alt)
  then have "blk_off s (i_data_block (inodes s ! j)) + unat (i_size (inodes s ! j)) \<le> dir_off s 0 \<or>
      dir_off s 0 + unat (BLOCK_SIZE s) \<le> blk_off s (i_data_block (inodes s ! j))"
    using blk_off_disjoint [OF b(1,2) b(3)[symmetric], of s] unfolding dir_off_def by linarith
  from dat_put_slot_outside [OF r(1) k this] show ?thesis
    using t by (simp add: content_def blk_off_def)
next
  case False
  then show ?thesis using t by (simp add: content_def read_at_def word_gt_0)
qed

lemma wf_unlinked [wf_intros]:
  assumes wf: "fs_wf s" and k: "name_slot s nm = Some k" and closed: "not_open s (nat (snd (dir_slots s 0 ! k)))"
  shows "fs_wf (unlinked s k)"
  using name_slot_Some [OF wf k] wf_delete_file [OF wf _ _ _ closed] file_inum_valid [OF wf]
  by (simp add: unlinked_def Let_def)

lemma dir_slots_unlinked:
  assumes wf: "fs_wf s" and k: "name_slot s nm = Some k"
  shows "dir_slots (unlinked s k) 0 = (dir_slots s 0)[k := (replicate MAX_FILE_NAME 0, - 1)]"
proof -
  have "int32_range (- 1)" by (simp add: int32_range_def)
  from slots_put_slot [OF fs_wf_root(1) [OF wf] name_slot_Some(1) [OF wf k] length_replicate this]
  show ?thesis by (simp add: unlinked_def Let_def dir_slots_put_dat)
qed

lemma unlinked_afs:
  assumes wf: "fs_wf s" and k: "name_slot s nm = Some k" and i: "snd (dir_slots s 0 ! k) = int i"
    and closed: "not_open s i"
  shows "afs_of (unlinked s k) =
    (afs_of s)\<lparr>a_names := (a_names (afs_of s))(nm := None), a_files := (a_files (afs_of s))(i := None)\<rparr>"
proof (rule afs_eqI)
  note n = name_slot_Some [OF wf k]
  have wf': "fs_wf (unlinked s k)" using wf_unlinked [OF wf k] closed i by simp
  have il: "i < length (imap s)" using n(4) i by (simp add: file_inum_def)
  fix x
  have mde: "MAX_DIR_ENTRIES (unlinked s k) = MAX_DIR_ENTRIES s" by (simp add: unlinked_def Let_def)
  show "a_names (afs_of (unlinked s k)) x = a_names ((afs_of s)\<lparr>a_names := (a_names (afs_of s))(nm := None),
      a_files := (a_files (afs_of s))(i := None)\<rparr>) x"
  proof (rule map_eqI)
    fix j
    let ?new = "dir_slots (unlinked s k) 0"
    have slot: "slot_used (?new ! l) \<and> slot_name (?new ! l) = x \<and> snd (?new ! l) = int j \<longleftrightarrow>
        x \<noteq> nm \<and> slot_used (dir_slots s 0 ! l) \<and> slot_name (dir_slots s 0 ! l) = x \<and>
        snd (dir_slots s 0 ! l) = int j" if "l < MAX_DIR_ENTRIES s" for l
    proof (cases "l = k")
      case True
      then show ?thesis using n(3) that by (simp add: dir_slots_unlinked [OF wf k] slot_used_def)
    next
      case False
      then show ?thesis
        using n(1-3) dir_ok_distinct(1) [OF fs_wfD(4) [OF wf], of l k] that
        by (auto simp: dir_slots_unlinked [OF wf k])
    qed
    have "a_names (afs_of (unlinked s k)) x = Some j \<longleftrightarrow> x \<noteq> nm \<and> a_names (afs_of s) x = Some j"
      unfolding a_names_iff [OF wf'] a_names_iff [OF wf] mde using slot by auto
    then show "a_names (afs_of (unlinked s k)) x = Some j \<longleftrightarrow>
        a_names ((afs_of s)\<lparr>a_names := (a_names (afs_of s))(nm := None),
          a_files := (a_files (afs_of s))(i := None)\<rparr>) x = Some j"
      by (simp del: afs_of_sel)
  qed
  fix y
  show "a_files (afs_of (unlinked s k)) y = a_files ((afs_of s)\<lparr>a_names := (a_names (afs_of s))(nm := None),
      a_files := (a_files (afs_of s))(i := None)\<rparr>) y"
    using content_put_slot [OF wf n(1) length_replicate, of y] il i
    by (auto simp: unlinked_def Let_def file_inum_release)
  fix z
  show "a_handles (afs_of (unlinked s k)) z = a_handles ((afs_of s)\<lparr>a_names := (a_names (afs_of s))(nm := None),
      a_files := (a_files (afs_of s))(i := None)\<rparr>) z"
    by (simp add: open_handle_def unlinked_def Let_def valid_file_handle_def MAX_OPEN_FILES_def)
qed

section \<open>Truncating and creating\<close>

lemma truncated_params [simp]:
  "fs_params (truncated s i mode) = fs_params s" "ofiles (truncated s i mode) = ofiles s"
  "dir_off (truncated s i mode) 0 = dir_off s 0 \<or> i = 0" "dat (truncated s i mode) = dat s"
  "MAX_OPEN_FILES (truncated s i mode) = MAX_OPEN_FILES s"
  by (auto simp: truncated_def)

lemma wf_truncated [wf_intros]:
  assumes "fs_wf s" "file_inum (imap s) (int i)" "has_flag mode TFS_O_TRUNC \<Longrightarrow> not_open s i"
  shows "fs_wf (truncated s i mode)"
  using assms fs_shape_tables(8) [OF fs_wfD(1) [OF assms(1)]]
  by (auto simp: truncated_def file_inum_def intro!: wf_truncate)

lemma truncated_afs:
  assumes wf: "fs_wf s" and i: "file_inum (imap s) (int i)"
  shows "afs_of (truncated s i mode) =
    (if has_flag mode TFS_O_TRUNC then (afs_of s)\<lparr>a_files := (a_files (afs_of s))(i \<mapsto> [])\<rparr> else afs_of s)"
proof (cases "has_flag mode TFS_O_TRUNC")
  case True
  have il: "0 < i" "i < length (inodes s)"
    using i fs_shape_tables [OF fs_wfD(1) [OF wf]] by (simp_all add: file_inum_def)
  have "afs_of (truncated s i mode) = (afs_of s)\<lparr>a_files := (a_files (afs_of s))(i \<mapsto> [])\<rparr>"
  proof (rule afs_eqI)
    fix x show "a_names (afs_of (truncated s i mode)) x =
        a_names ((afs_of s)\<lparr>a_files := (a_files (afs_of s))(i \<mapsto> [])\<rparr>) x"
      using il by (simp add: truncated_def)
    fix y show "a_handles (afs_of (truncated s i mode)) y =
        a_handles ((afs_of s)\<lparr>a_files := (a_files (afs_of s))(i \<mapsto> [])\<rparr>) y"
      by (simp add: open_handle_def valid_file_handle_def)
    fix z show "a_files (afs_of (truncated s i mode)) z =
        a_files ((afs_of s)\<lparr>a_files := (a_files (afs_of s))(i \<mapsto> [])\<rparr>) z"
      using True il i content_empty(1) [OF wf i]
      by (auto simp: truncated_def content_def nth_upd read_at_def word_gt_0)
  qed
  with True show ?thesis by simp
next
  case False
  then show ?thesis by (simp add: truncated_def)
qed

definition created :: "fs_state \<Rightarrow> nat \<Rightarrow> nat \<Rightarrow> byte list \<Rightarrow> fs_state" where
  "created s k i nm = put_dat (dat_put_slot s 0 k (padded nm) (int i)) (new_file s i)"

lemma first_free_inode:
  assumes "fs_wf s"
  shows "first_free (imap s) =
    first_index (\<lambda>i. 0 < i \<and> a_files (afs_of s) i = None) (INODE_TABLE_SIZE s)"
  unfolding first_free_def fs_shape_tables(8) [OF fs_wfD(1) [OF assms]]
proof (rule first_index_cong)
  fix i assume "i < INODE_TABLE_SIZE s"
  then show "(imap s ! i = FREE) = (0 < i \<and> a_files (afs_of s) i = None)"
    using fs_wf_root_inode(1) [OF assms] fs_shape_tables(8) [OF fs_wfD(1) [OF assms]]
    by (cases "i = 0") (auto simp: file_inum_def not_taken)
qed

lemma created_spec:
  assumes wf: "fs_wf s" and i: "first_free (imap s) = Some i" and k: "dir_vacant (dir_slots s 0) = Some k"
    and nm: "nm \<noteq> []" "0 \<notin> set nm" "length nm < MAX_FILE_NAME" "name_slot s nm = None"
  shows "fs_wf (created s k i nm)" "fs_params (created s k i nm) = fs_params s"
    "g_library_mutex (created s k i nm) = g_library_mutex s" "file_inum (imap (created s k i nm)) (int i)"
    "afs_of (created s k i nm) = (afs_of s)
       \<lparr>a_names := (a_names (afs_of s))(nm \<mapsto> i), a_files := (a_files (afs_of s))(i \<mapsto> [])\<rparr>"
proof -
  note len = fs_shape_tables [OF fs_wfD(1) [OF wf]]
  have i': "i < INODE_TABLE_SIZE s" "imap s ! i = FREE" using i len by (simp_all add: first_free_Some)
  have i0: "0 < i" using i' fs_wf_root_inode(1) [OF wf] by (cases i) auto
  have k': "k < MAX_DIR_ENTRIES s" "\<not> slot_used (dir_slots s 0 ! k)"
    using k by (simp_all add: dir_vacant_def first_index_Some)
  note pad = padded_name [OF nm(2,3)]
  show wf': "fs_wf (created s k i nm)"
    unfolding created_def new_file_def
    by (rule wf_create_file [OF wf i' _ _ k nm(1-3)])
      (use nm(4) in \<open>simp_all add: fresh_file_def name_slot_def\<close>)
  show "fs_params (created s k i nm) = fs_params s"
    "g_library_mutex (created s k i nm) = g_library_mutex s" "file_inum (imap (created s k i nm)) (int i)"
    using i' i0 len by (simp_all add: created_def new_file_def file_inum_def)
  have mde: "MAX_DIR_ENTRIES (created s k i nm) = MAX_DIR_ENTRIES s" by (simp add: created_def new_file_def)
  have "int32_range (int i)" using i'(1) fs_shape_small(1) [OF fs_wfD(1) [OF wf]] by (simp add: int32_range_def)
  from slots_put_slot [OF fs_wf_root(1) [OF wf] k'(1) pad(3) this]
  have sl: "dir_slots (created s k i nm) 0 = (dir_slots s 0)[k := (padded nm, int i)]"
    using i0 by (simp add: created_def new_file_def dir_slots_put_dat)
  show "afs_of (created s k i nm) = (afs_of s)
       \<lparr>a_names := (a_names (afs_of s))(nm \<mapsto> i), a_files := (a_files (afs_of s))(i \<mapsto> [])\<rparr>"
  proof (rule afs_eqI)
    fix x show "a_names (afs_of (created s k i nm)) x = a_names ((afs_of s)
       \<lparr>a_names := (a_names (afs_of s))(nm \<mapsto> i), a_files := (a_files (afs_of s))(i \<mapsto> [])\<rparr>) x"
    proof (rule map_eqI)
      fix j
      have nofirst: "\<not> (slot_used (dir_slots s 0 ! l) \<and> slot_name (dir_slots s 0 ! l) = nm)"
        if "l < MAX_DIR_ENTRIES s" for l
        using that nm(4) by (simp add: name_slot_def dir_lookup_def first_index_None)
      have "a_names (afs_of (created s k i nm)) x = Some j \<longleftrightarrow>
          (if x = nm then j = i else a_names (afs_of s) x = Some j)"
      proof (cases "x = nm")
        case True
        then show ?thesis unfolding a_names_iff [OF wf'] mde sl
          using k' nofirst pad(2) by (auto simp: nth_upd slot_used_def)
      next
        case False
        then show ?thesis unfolding a_names_iff [OF wf'] a_names_iff [OF wf] mde sl
          using k' pad(2) by (auto simp: nth_upd) metis
      qed
      then show "a_names (afs_of (created s k i nm)) x = Some j \<longleftrightarrow> a_names ((afs_of s)
          \<lparr>a_names := (a_names (afs_of s))(nm \<mapsto> i), a_files := (a_files (afs_of s))(i \<mapsto> [])\<rparr>) x = Some j"
        by (auto simp del: afs_of_sel split: if_splits)
    qed
    fix y show "a_files (afs_of (created s k i nm)) y = a_files ((afs_of s)
       \<lparr>a_names := (a_names (afs_of s))(nm \<mapsto> i), a_files := (a_files (afs_of s))(i \<mapsto> [])\<rparr>) y"
    proof (cases "y = i")
      case True
      then show ?thesis using i' i0 len
        by (simp add: created_def new_file_def content_def read_at_def fresh_file_def file_inum_def)
    next
      case False
      then show ?thesis
        using content_put_slot [OF wf k'(1) pad(3), of y "new_file s i"] i' i0 len
        by (auto simp: created_def new_file_def file_inum_claim)
    qed
    fix z show "a_handles (afs_of (created s k i nm)) z = a_handles ((afs_of s)
       \<lparr>a_names := (a_names (afs_of s))(nm \<mapsto> i), a_files := (a_files (afs_of s))(i \<mapsto> [])\<rparr>) z"
      by (simp add: open_handle_def created_def new_file_def)
  qed
qed

text \<open>A creation that fails after the inode was taken gives the inode back.\<close>

lemma put_imap_restore:
  assumes "freeinode_ts s = Some (imap s)" "i < length (imap s)" "imap s ! i = FREE"
  shows "put_imap i FREE (put_inode j n (put_imap i TAKEN s)) = put_inode j n s"
proof -
  obtain m where m: "freeinode_ts s = Some m" using assms(1) by blast
  with assms(2,3) have "m[i := FREE] = m" by (simp add: imap_def list_update_same_conv)
  then show ?thesis using m by (cases s) (simp add: put_defs table_defs)
qed

lemma failed_create:
  assumes wf: "fs_wf s" and i: "first_free (imap s) = Some i"
  shows "fs_wf (put_imap i FREE (new_file s i))" "afs_of (put_imap i FREE (new_file s i)) = afs_of s"
    "fs_params (put_imap i FREE (new_file s i)) = fs_params s"
    "g_library_mutex (put_imap i FREE (new_file s i)) = g_library_mutex s"
proof -
  note len = fs_shape_tables [OF fs_wfD(1) [OF wf]]
  have i': "i < INODE_TABLE_SIZE s" "imap s ! i = FREE" using i len by (simp_all add: first_free_Some)
  have i0: "0 < i" using i' fs_wf_root_inode(1) [OF wf] by (cases i) auto
  have eq: "put_imap i FREE (new_file s i) = put_inode i (fresh_file (inodes s ! i)) s"
    unfolding new_file_def using i' len by (intro put_imap_restore) simp_all
  show "fs_wf (put_imap i FREE (new_file s i))" unfolding eq by (rule wf_free_inode [OF wf i'(2,1)])
  show "fs_params (put_imap i FREE (new_file s i)) = fs_params s"
    "g_library_mutex (put_imap i FREE (new_file s i)) = g_library_mutex s"
    by (simp_all add: eq)
  show "afs_of (put_imap i FREE (new_file s i)) = afs_of s"
    unfolding eq
  proof (rule afs_eqI)
    fix x show "a_files (afs_of (put_inode i (fresh_file (inodes s ! i)) s)) x = a_files (afs_of s) x"
      using i' by (cases "x = i") (simp_all add: file_inum_def)
  qed (use i0 in \<open>simp_all add: open_handle_def\<close>)
qed

end
