(* ===== verification/FsCalls.thy ===== *)
theory FsCalls
  imports FsRefine
begin

text \<open>
  The refinement of each call of fs/operations.c: on a state with the invariant the call
  returns (no panic, no undefined access, no wait), its value and the abstraction of its
  final state are those of the abstract operation, the invariant holds again and the
  mutex is free.
\<close>

text \<open>What every call promises about the state it leaves, beside its result.\<close>

definition refines :: "fs_state \<Rightarrow> 'a \<times> afs \<Rightarrow> 'a \<Rightarrow> fs_state \<Rightarrow> bool" where
  "refines s spec r s' \<longleftrightarrow>
     fs_inv s' \<and> fs_params s' = fs_params s \<and> r = fst spec \<and> afs_of s' = snd spec"

lemma refinesI:
  "fs_inv s' \<Longrightarrow> fs_params s' = fs_params s \<Longrightarrow> r = fst spec \<Longrightarrow> afs_of s' = snd spec \<Longrightarrow>
     refines s spec r s'"
  by (simp add: refines_def)

section \<open>Closing\<close>

lemma close_afs:
  assumes "open_handle s h" "fs_wf s"
  shows "afs_of (put_omap (nat h) FREE s) = (afs_of s)\<lparr>a_handles := (a_handles (afs_of s))(h := None)\<rparr>"
proof (rule afs_eqI)
  fix x
  have "nat h < length (omap s)"
    using open_handleD [OF assms(2,1)] fs_shape_tables [OF fs_wfD(1) [OF assms(2)]] by simp
  then show "a_handles (afs_of (put_omap (nat h) FREE s)) x =
      a_handles ((afs_of s)\<lparr>a_handles := (a_handles (afs_of s))(h := None)\<rparr>) x"
    using assms(1) by (auto simp: open_handle_def valid_file_handle_def nth_upd)
qed simp_all

lemma tfs_close_spec:
  assumes "fs_inv s"
  shows "wp (tfs_close h) (refines s (a_close h (afs_of s))) s"
proof (cases "open_handle s h")
  case True
  have wf: "fs_wf s" using assms by (simp add: fs_inv_def)
  have "fs_inv (put_omap (nat h) FREE s)" using assms by (auto simp: fs_inv_def intro: wf_intros)
  with True show ?thesis
    by (simp add: wp_def tfs_close_eq [OF assms] close_afs [OF True wf] a_close_def refines_def)
next
  case False
  with assms show ?thesis
    by (simp add: wp_def tfs_close_eq [OF assms] a_close_def refines_def)
qed

section \<open>Writing\<close>

text \<open>The abstract write, with the number of bytes already clipped.\<close>

lemma a_write_open:
  assumes "a_handles a h = Some (i, off)" "a_files a i = Some file" "n \<le> length bytes"
    and "n = min (length bytes) (max_size - off)"
  shows "a_write max_size room h bytes a =
    (if 0 < n \<and> file = [] \<and> \<not> room then (- 1, a) else (int n, a_written h i off (take n bytes) a))"
  using assms by (simp add: a_write_def a_written_def Let_def min_absorb2)

lemma a_written_none:
  assumes "a_handles a h = Some (i, off)" "a_files a i = Some file"
  shows "a_written h i off [] a = a"
  using assms by (intro afs_eqI) (auto simp: a_written_def write_at_def)

lemma tfs_write_spec:
  assumes inv: "fs_inv s" and buf: "unat len \<le> length buffer"
    and nowrap: "open_handle s h \<Longrightarrow> unat len + unat (of_offset (ofiles s ! nat h)) < 2 ^ 64"
  shows "wp (tfs_write h buffer len)
    (refines s (a_write (unat (BLOCK_SIZE s)) (first_free (bmap s) \<noteq> None) h
       (take (unat len) buffer) (afs_of s))) s"
proof (cases "open_handle s h")
  case False
  with inv show ?thesis
    by (simp add: wp_def tfs_write_closed [OF inv False] a_write_def refines_def)
next
  case h: True
  have wf: "fs_wf s" and free: "\<not> g_library_mutex s" using inv by (simp_all add: fs_inv_def)
  note sh = fs_wfD(1) [OF wf]
  define e where "e = ofiles s ! nat h"
  define i where "i = nat (of_inumber e)"
  define n where "n = clip len (of_offset e) (BLOCK_SIZE s)"
  note o = open_file_props [OF wf h, folded e_def, folded i_def]
  note eq = tfs_write_eq [OF inv h nowrap [OF h] buf, folded e_def, folded i_def n_def]
  have off: "of_offset e \<le> BLOCK_SIZE s" using o(8,9) by (rule order_trans)
  have un: "unat n = min (unat len) (unat (BLOCK_SIZE s) - unat (of_offset e))"
    unfolding n_def using unat_clip [OF _ off] nowrap [OF h] by (simp add: e_def)
  let ?bytes = "take (unat n) buffer"
  have bytes: "length ?bytes = unat n" "take (unat n) (take (unat len) buffer) = ?bytes"
    using un buf by (simp_all add: min_def)
  have fits: "unat (of_offset e) + unat n \<le> unat (BLOCK_SIZE s)"
    using un off by (simp add: word_le_nat_alt)
  have i: "file_inum (imap s) (int i)" using o(6,7) by simp
  have handle: "a_handles (afs_of s) h = Some (i, unat (of_offset e))" using h by (simp add: e_def i_def)
  have cont: "a_files (afs_of s) i = Some (content s i)" using i by simp
  have spec: "a_write (unat (BLOCK_SIZE s)) room h (take (unat len) buffer) (afs_of s) =
      (if 0 < unat n \<and> i_size (inodes s ! i) = 0 \<and> \<not> room then (- 1, afs_of s)
       else (int (unat n), a_written h i (unat (of_offset e)) ?bytes (afs_of s)))" for room
  proof -
    have "unat n = min (length (take (unat len) buffer)) (unat (BLOCK_SIZE s) - unat (of_offset e))"
      "unat n \<le> length (take (unat len) buffer)"
      using un buf by (simp_all add: min_def)
    from a_write_open [OF handle cont this(2,1)] show ?thesis
      unfolding bytes(2) content_empty(1) [OF wf i] .
  qed
  consider "n = 0" | "n \<noteq> 0" "0 < i_size (inodes s ! i)" | "n \<noteq> 0" "i_size (inodes s ! i) = 0"
    by (auto simp: word_gt_0)
  then show ?thesis
  proof cases
    case 1
    then show ?thesis
      using inv a_written_none [OF handle cont] by (simp add: wp_def eq spec refines_def)
  next
    case 2
    have "fs_wf (written s (nat h) ?bytes n)"
      by (rule wf_written [OF wf h]) (use 2 bytes(1) fits in \<open>simp_all flip: e_def i_def\<close>)
    moreover have "afs_of (written s (nat h) ?bytes n) = a_written h i (unat (of_offset e)) ?bytes (afs_of s)"
      using written_spec [OF wf h, folded e_def, folded i_def, OF 2(2) bytes(1) fits] .
    ultimately show ?thesis
      using 2 free written_handle [OF sh o(1) refl, of ?bytes n]
      by (auto simp: wp_def eq spec refines_def fs_inv_def)
  next
    case 3
    show ?thesis
    proof (cases "first_free (bmap s)")
      case None
      then show ?thesis using 3 inv by (auto simp: wp_def eq spec refines_def unat_gt_0)
    next
      case (Some b)
      then have b: "b < DATA_BLOCKS s" "bmap s ! b = FREE"
        using fs_shape_tables [OF sh] by (simp_all add: first_free_Some)
      let ?w = "with_block s i b"
      have w: "fs_shape ?w" "MAX_OPEN_FILES ?w = MAX_OPEN_FILES s" "fs_params ?w = fs_params s"
        "g_library_mutex ?w = g_library_mutex s"
        using sh by (simp_all add: with_block_def)
      have "fs_wf (written ?w (nat h) ?bytes n)"
        using wf_written_first [OF wf h, folded e_def, folded i_def, OF 3(2) b bytes(1) fits] 3(1)
        by (simp add: unat_gt_0)
      moreover have "afs_of (written ?w (nat h) ?bytes n) =
          a_written h i (unat (of_offset e)) ?bytes (afs_of s)"
        using written_first_spec [OF wf h, folded e_def, folded i_def, OF 3(2) b bytes(1) fits] .
      ultimately show ?thesis
        using 3 Some free w written_handle [OF w(1), of "nat h" _ ?bytes n] o(1)
        by (auto simp: wp_def eq spec refines_def fs_inv_def)
    qed
  qed
qed

section \<open>Reading\<close>

lemma read_at_clip:
  "n = min len (length xs - off) \<Longrightarrow> read_at off n xs = take len (drop off xs)"
  by (simp add: read_at_def min_def)

lemma afs_move_offset:
  assumes wf: "fs_wf s" and h: "open_handle s h"
  shows "afs_of (put_ofile (nat h) ((ofiles s ! nat h)\<lparr>of_offset := off\<rparr>) s) =
    (afs_of s)\<lparr>a_handles := (a_handles (afs_of s))(h \<mapsto> (nat (of_inumber (ofiles s ! nat h)), unat off))\<rparr>"
proof (rule afs_eqI)
  fix x
  have "nat h < length (ofiles s)"
    using open_handleD [OF wf h] fs_shape_tables [OF fs_wfD(1) [OF wf]] by simp
  then show "a_handles (afs_of (put_ofile (nat h) ((ofiles s ! nat h)\<lparr>of_offset := off\<rparr>) s)) x =
      a_handles ((afs_of s)\<lparr>a_handles := (a_handles (afs_of s))(h \<mapsto>
        (nat (of_inumber (ofiles s ! nat h)), unat off))\<rparr>) x"
    using h by (auto simp: open_handle_def valid_file_handle_def nth_upd)
qed simp_all

lemma tfs_read_spec:
  assumes inv: "fs_inv s" and buf: "unat len \<le> length buffer"
  shows "wp (tfs_read h buffer len) (refines s (a_read h buffer (unat len) (afs_of s))) s"
proof (cases "open_handle s h")
  case False
  with inv show ?thesis
    by (simp add: wp_def tfs_read_closed [OF inv False] a_read_def refines_def)
next
  case h: True
  have wf: "fs_wf s" and free: "\<not> g_library_mutex s" using inv by (simp_all add: fs_inv_def)
  note sh = fs_wfD(1) [OF wf]
  define e where "e = ofiles s ! nat h"
  define i where "i = nat (of_inumber e)"
  define n where "n = (if i_size (inodes s ! i) - of_offset e > len then len else i_size (inodes s ! i) - of_offset e)"
  note o = open_file_props [OF wf h, folded e_def, folded i_def]
  note eq = tfs_read_eq [OF inv h buf, folded e_def, folded i_def, folded n_def]
  have i: "file_inum (imap s) (int i)" using o(6,7) by simp
  let ?bytes = "take (unat len) (drop (unat (of_offset e)) (content s i))"
  note len = content_empty(2) [OF wf i]
  have off: "unat (of_offset e) \<le> unat (i_size (inodes s ! i))" using o(8) by (simp add: word_le_nat_alt)
  have lb: "length ?bytes = unat n" using eq(1) len by simp
  have bytes: "read_at (blk_off s (i_data_block (inodes s ! i)) + unat (of_offset e)) (unat n) (dat s) = ?bytes"
    using read_at_clip [of "unat n" "unat len" "content s i" "unat (of_offset e)"] eq(1) len off
    by (simp add: content_def read_at_read_at)
  have spec: "a_read h buffer (unat len) (afs_of s) =
      ((int (unat n), write_at 0 ?bytes buffer), (afs_of s)
         \<lparr>a_handles := (a_handles (afs_of s))(h \<mapsto> (i, unat (of_offset e) + unat n))\<rparr>)"
    using h i lb by (simp add: a_read_def Let_def write_at_def flip: e_def i_def del: length_take)
  have noread: "(afs_of s)\<lparr>a_handles := (a_handles (afs_of s))(h \<mapsto> (i, unat (of_offset e)))\<rparr> = afs_of s"
    using h by (intro afs_eqI) (simp_all add: e_def i_def)
  show ?thesis
  proof (cases "n = 0")
    case True
    then have "?bytes = []" using lb by (simp only: unsigned_0 length_0_conv)
    then show ?thesis
      using True inv noread by (simp only: wp_def eq spec refines_def write_at_def) simp
  next
    case False
    have "unat (i_size (inodes s ! i)) < 2 ^ 64" using unsigned_less [of "i_size (inodes s ! i)"] by simp
    then have "unat (of_offset e) + unat n < 2 ^ 64" using eq(1) off by linarith
    then have sz: "unat (of_offset e + n) = unat (of_offset e) + unat n" by (simp add: unat_word_ariths)
    then have "of_offset e + n \<le> i_size (inodes s ! i)" using eq(1) off by (simp add: word_le_nat_alt)
    then have "fs_wf (put_ofile (nat h) (e\<lparr>of_offset := of_offset e + n\<rparr>) s)"
      using wf o(1) h by (intro wf_move_offset) (auto simp: e_def i_def open_handle_def)
    then show ?thesis
      using False free afs_move_offset [OF wf h, folded e_def, folded i_def] sz
      by (simp add: wp_def eq(2) spec refines_def bytes fs_inv_def)
  qed
qed

section \<open>Deleting\<close>

lemma tfs_unlink_spec:
  assumes inv: "fs_inv s" and m: "is_cstr m"
    and closed: "\<And>i. a_names (afs_of s) (fname m) = Some i \<Longrightarrow> not_open s i"
  shows "wp (tfs_unlink (Some m))
    (refines s (if valid_name m then a_unlink (fname m) (afs_of s) else (- 1, afs_of s))) s"
proof (cases "valid_name m")
  case False
  then show ?thesis using inv by (simp add: wp_def tfs_unlink_eq [OF inv m] refines_def)
next
  case True
  have wf: "fs_wf s" and free: "\<not> g_library_mutex s" using inv by (simp_all add: fs_inv_def)
  show ?thesis
  proof (cases "name_slot s (fname m)")
    case None
    then show ?thesis using True inv by (simp add: wp_def tfs_unlink_eq [OF inv m] refines_def a_unlink_def)
  next
    case (Some k)
    let ?i = "nat (snd (dir_slots s 0 ! k))"
    have i: "snd (dir_slots s 0 ! k) = int ?i"
      using file_inum_valid [OF wf name_slot_Some(4) [OF wf Some]] by simp
    have c: "not_open s ?i" using closed Some by simp
    have "fs_wf (unlinked s k)" by (rule wf_unlinked [OF wf Some c])
    moreover have "fs_params (unlinked s k) = fs_params s" "g_library_mutex (unlinked s k) = g_library_mutex s"
      by (simp_all add: unlinked_def Let_def)
    ultimately show ?thesis
      using True Some free unlinked_afs [OF wf Some i c]
      by (simp add: wp_def tfs_unlink_eq [OF inv m] refines_def a_unlink_def fs_inv_def)
  qed
qed

section \<open>Opening\<close>

lemma opened_spec:
  assumes wf: "fs_wf s" and free: "\<not> g_library_mutex s" and p: "fs_params s = fs_params t"
    and i: "file_inum (imap s) (int i)" and off: "off \<le> i_size (inodes s ! i)"
    and spec: "spec = a_attach (MAX_OPEN_FILES s) i (unat off) (afs_of s)"
  shows "refines t spec (fst (opened s (int i) off)) (snd (opened s (int i) off))"
proof -
  have "fst spec = fst (opened s (int i) off)" "snd spec = afs_of (snd (opened s (int i) off))"
    unfolding spec opened_refines(2) [OF wf i off, symmetric] by simp_all
  then show ?thesis
    using opened_refines [OF wf i off] free p by (simp add: refines_def fs_inv_def)
qed

lemma open_existing_spec:
  assumes inv: "fs_inv s" and k: "name_slot s nm = Some k" and i: "snd (dir_slots s 0 ! k) = int i"
    and closed: "has_flag mode TFS_O_TRUNC \<Longrightarrow> not_open s i"
  defines "s1 \<equiv> truncated s i mode"
  defines "off \<equiv> (if has_flag mode TFS_O_APPEND then i_size (inodes s1 ! i) else 0)"
  shows "refines s (a_open (INODE_TABLE_SIZE s) (MAX_OPEN_FILES s) room nm mode (afs_of s))
    (fst (opened s1 (int i) off)) (snd (opened s1 (int i) off))"
proof -
  have wf: "fs_wf s" and free: "\<not> g_library_mutex s" using inv by (simp_all add: fs_inv_def)
  have fi: "file_inum (imap s) (int i)" using name_slot_Some(4) [OF wf k] i by simp
  have wf1: "fs_wf s1" unfolding s1_def by (rule wf_truncated [OF wf fi closed])
  have fi1: "file_inum (imap s1) (int i)" using fi by (simp add: s1_def)
  have a: "a_names (afs_of s) nm = Some i" using k i by simp
  have len: "length (the (a_files (afs_of s1) i)) = unat (i_size (inodes s1 ! i))"
    using content_empty(2) [OF wf1 fi1] fi1 by simp
  have "a_open (INODE_TABLE_SIZE s) (MAX_OPEN_FILES s) room nm mode (afs_of s) =
      a_attach (MAX_OPEN_FILES s) i
        (if has_flag mode TFS_O_APPEND then length (the (a_files (afs_of s1) i)) else 0) (afs_of s1)"
    unfolding truncated_afs [OF wf fi, of mode, folded s1_def] a_open_def a Let_def by simp
  also have "\<dots> = a_attach (MAX_OPEN_FILES s1) i (unat off) (afs_of s1)"
    unfolding len by (simp add: off_def s1_def)
  finally have "a_open (INODE_TABLE_SIZE s) (MAX_OPEN_FILES s) room nm mode (afs_of s) =
      a_attach (MAX_OPEN_FILES s1) i (unat off) (afs_of s1)" .
  then show ?thesis
    by (intro opened_spec [OF wf1 _ _ fi1]) (use free in \<open>simp_all add: off_def s1_def\<close>)
qed

lemma tfs_open_spec:
  assumes inv: "fs_inv s" and m: "is_cstr m"
    and closed: "\<And>i. a_names (afs_of s) (fname m) = Some i \<Longrightarrow> has_flag mode TFS_O_TRUNC \<Longrightarrow> not_open s i"
  shows "wp (tfs_open (Some m) mode)
    (refines s (if valid_name m
       then a_open (INODE_TABLE_SIZE s) (MAX_OPEN_FILES s) (dir_vacant (dir_slots s 0) \<noteq> None)
              (fname m) mode (afs_of s)
       else (- 1, afs_of s))) s"
proof (cases "valid_name m")
  case False
  then show ?thesis using inv fs_wfD(1) m
    by (simp add: wp_def tfs_open_def prog_simps tab_simps fs_inv_def refines_def)
next
  case v: True
  have wf: "fs_wf s" and free: "\<not> g_library_mutex s" using inv by (simp_all add: fs_inv_def)
  show ?thesis
  proof (cases "name_slot s (fname m)")
    case (Some k)
    define i where "i = nat (snd (dir_slots s 0 ! k))"
    have i: "snd (dir_slots s 0 ! k) = int i"
      using file_inum_valid [OF wf name_slot_Some(4) [OF wf Some]] by (simp add: i_def)
    have "has_flag mode TFS_O_TRUNC \<Longrightarrow> not_open s i" using closed [of i] Some i by simp
    from open_existing_spec [OF inv Some i this] show ?thesis
      unfolding wp_def tfs_open_existing_eq [OF inv m v Some] i Let_def nat_int
      by (simp only: v if_True sum.case case_prod_beta)
  next
    case None
    note nm = valid_nameD [OF v m]
    have a: "a_names (afs_of s) (fname m) = None" using None by simp
    show ?thesis
    proof (cases "has_flag mode TFS_O_CREAT")
      case False
      then show ?thesis using v inv a
        by (simp add: wp_def tfs_open_new_eq [OF inv m v None] a_open_def refines_def del: afs_of_sel)
    next
      case True
      note fi = first_free_inode [OF wf]
      show ?thesis
      proof (cases "first_free (imap s)")
        case none: None
        then show ?thesis using v inv a True fi
          by (simp add: wp_def tfs_open_new_eq [OF inv m v None] a_open_def refines_def del: afs_of_sel)
      next
        case (Some i)
        note failed = failed_create [OF wf Some]
        show ?thesis
        proof (cases "length (fname m) < MAX_FILE_NAME \<and> dir_vacant (dir_slots s 0) \<noteq> None")
          case False
          then show ?thesis using v a True Some failed free
            by (auto simp: wp_def tfs_open_new_eq [OF inv m v None] a_open_def refines_def fs_inv_def
                MAX_FILE_NAME_def simp del: afs_of_sel split: option.splits)
        next
          case ok: True
          then obtain k where k: "dir_vacant (dir_slots s 0) = Some k" by auto
          note c = created_spec [OF wf Some k nm(3,4) _ None]
          have lim: "length (fname m) < MAX_FILE_NAME" using ok by simp
          have "tfs_open (Some m) mode s = Inr (opened (created s k i (fname m)) (int i) 0)"
            using lim True Some k
            by (simp add: tfs_open_new_eq [OF inv m v None] created_def MAX_FILE_NAME_def)
          moreover have "refines s (a_open (INODE_TABLE_SIZE s) (MAX_OPEN_FILES s)
               (dir_vacant (dir_slots s 0) \<noteq> None) (fname m) mode (afs_of s))
              (fst (opened (created s k i (fname m)) (int i) 0))
              (snd (opened (created s k i (fname m)) (int i) 0))"
            using c(1-4) [OF lim] free a True Some fi lim k
            by (intro opened_spec)
              (simp_all add: a_open_def c(5) [OF lim] MAX_OPEN_FILES_def del: afs_of_sel)
          ultimately show ?thesis using v by (simp add: wp_def case_prod_beta)
        qed
      qed
    qed
  qed
qed

end
