(* ===== verification/FsInit.thy ===== *)
theory FsInit
  imports FsCalls
begin

text \<open>
  \<open>tfs_init\<close> and \<open>tfs_destroy\<close>: the first state satisfies the invariant and abstracts to
  the empty file system. The contents of the allocated memory do not matter: the code
  initialises the inumbers of the directory slots and not their names, but a slot that
  has never been used comes after every slot that has, so no search reaches its name.
\<close>

section \<open>The tables after \<open>state_init\<close>\<close>

lemma fill_free_eq:
  assumes xs: "arr s = Some xs" "length xs = n"
    and get: "\<And>f t. arr (upd f t) = f (arr t)" and put: "\<And>f g t. upd f (upd g t) = upd (f \<circ> g) t"
    and same: "upd (\<lambda>_. arr s) s = s"
  shows "fill_free arr upd n s = Inr ((), upd (\<lambda>_. Some (replicate n FREE)) s)"
proof -
  define body where "body = (\<lambda>i. andthen (wr arr upd i FREE) (ret (None :: unit option)))"
  have step: "for_ret j n body
      (upd (\<lambda>_. Some (replicate j FREE @ drop j xs)) s) =
      Inr (None, upd (\<lambda>_. Some (replicate n FREE)) s)" if "j \<le> n" for j
    using that
  proof (induction j rule: inc_induct)
    case base
    then show ?case using xs(2) by (subst for_ret.simps) (simp add: prog_simps)
  next
    case (step j)
    have "(replicate j FREE @ drop j xs)[j := FREE] = replicate (Suc j) FREE @ drop (Suc j) xs"
      using step.hyps xs(2)
      by (simp add: list_update_append replicate_append_same [symmetric] Cons_nth_drop_Suc [symmetric])
    then have "wr arr upd j FREE (upd (\<lambda>_. Some (replicate j FREE @ drop j xs)) s) =
        Inr ((), upd (\<lambda>_. Some (replicate (Suc j) FREE @ drop (Suc j) xs)) s)"
      using step.hyps xs(2) by (simp add: wr_def get put comp_def)
    then have "body j (upd (\<lambda>_. Some (replicate j FREE @ drop j xs)) s) =
        Inr (None, upd (\<lambda>_. Some (replicate (Suc j) FREE @ drop (Suc j) xs)) s)"
      by (simp only: body_def andthen_app ret_app sum.case prod.case)
    then show ?case
      using step by (subst for_ret.simps) (simp add: bind_app)
  qed
  show ?thesis
    using step [of 0] xs(1) same
    by (simp add: fill_free_def bind_app ret_app flip: body_def)
qed

definition params_ok :: "tfs_params \<Rightarrow> bool" where
  "params_ok p \<longleftrightarrow>
     0 < unat (max_inode_count p) \<and> unat (max_inode_count p) < 2 ^ 31 \<and>
     0 < unat (max_block_count p) \<and> unat (max_block_count p) < 2 ^ 31 \<and>
     unat (max_open_files_count p) < 2 ^ 31 \<and>
     0 < unat (block_size p) \<and> unat (max_block_count p) * unat (block_size p) < 2 ^ 63"

lemma malloc_elems:
  fixes n :: u64
  assumes "unat n < 2 ^ 31" "0 < k" "k < 2 ^ 32"
  shows "malloc False junk (n * word_of_nat k) k = Some (map junk [0..<unat n])"
proof -
  have "unat n * k < 2 ^ 31 * 2 ^ 32" using assms by (intro mult_strict_mono) simp_all
  then have lt: "unat n * k < 2 ^ 64" by simp
  have "unat (word_of_nat k :: u64) = k" using assms(3) by (simp add: unat_of_nat)
  then have "unat (n * word_of_nat k) = unat n * k" using lt by (simp add: unat_word_ariths)
  then show ?thesis using assms(2) by (simp add: malloc_def)
qed

lemma malloc_bytes:
  fixes n m :: u64
  assumes "unat n * unat m < 2 ^ 63"
  shows "malloc False junk (n * m) 1 = Some (map junk [0..<unat n * unat m])"
  using assms by (simp add: malloc_def unat_word_ariths)

definition start_state :: "malloc_env \<Rightarrow> tfs_params \<Rightarrow> fs_state \<Rightarrow> fs_state" where
  "start_state env p s = s\<lparr>fs_params := p,
     inode_table := Some (map (junk_inode env) [0..<unat (max_inode_count p)]),
     freeinode_ts := Some (replicate (unat (max_inode_count p)) FREE),
     fs_data := Some (map (junk_byte env) [0..<unat (max_block_count p) * unat (block_size p)]),
     free_blocks := Some (replicate (unat (max_block_count p)) FREE),
     open_file_table := Some (map (junk_open_file env) [0..<unat (max_open_files_count p)]),
     free_open_file_entries := Some (replicate (unat (max_open_files_count p)) FREE)\<rparr>"

lemma state_init_eq:
  assumes "params_ok p" "inode_table s = None" "\<And>i. \<not> malloc_null env i"
  shows "state_init env p s = Inr (0, start_state env p s)"
proof -
  have m: "malloc False (junk_inode env) (max_inode_count p * word_of_nat sizeof_inode) sizeof_inode =
      Some (map (junk_inode env) [0..<unat (max_inode_count p)])"
    "malloc False (junk_alloc env) (max_inode_count p * word_of_nat sizeof_alloc) sizeof_alloc =
      Some (map (junk_alloc env) [0..<unat (max_inode_count p)])"
    "malloc False (junk_byte env) (max_block_count p * block_size p) 1 =
      Some (map (junk_byte env) [0..<unat (max_block_count p) * unat (block_size p)])"
    "malloc False (junk_alloc env) (max_block_count p * word_of_nat sizeof_alloc) sizeof_alloc =
      Some (map (junk_alloc env) [0..<unat (max_block_count p)])"
    "malloc False (junk_open_file env) (max_open_files_count p * word_of_nat sizeof_open_file) sizeof_open_file =
      Some (map (junk_open_file env) [0..<unat (max_open_files_count p)])"
    "malloc False (junk_alloc env) (max_open_files_count p * word_of_nat sizeof_alloc) sizeof_alloc =
      Some (map (junk_alloc env) [0..<unat (max_open_files_count p)])"
    by ((rule malloc_elems malloc_bytes);
        use assms(1) in \<open>simp add: params_ok_def sizeof_inode_def sizeof_alloc_def sizeof_open_file_def\<close>)+
  note fill = fill_free_eq [of freeinode_ts _ _ _ freeinode_ts_update]
    fill_free_eq [of free_blocks _ _ _ free_blocks_update]
    fill_free_eq [of free_open_file_entries _ _ _ free_open_file_entries_update]
  show ?thesis
    using assms(2,3)
    by (simp add: state_init_def Let_def andthen_app bind_app modify_app gets_app m m [unfolded One_nat_def] fill ret_app start_state_def)
qed

section \<open>The root directory\<close>

lemma put_dat_same: "fs_shape s \<Longrightarrow> put_dat (dat s) s = s"
  using fs_shape_tables(3) [of s] by (simp add: put_dat_def)

definition cleared_slots :: "fs_state \<Rightarrow> nat \<Rightarrow> nat \<Rightarrow> byte list \<Rightarrow> bool" where
  "cleared_slots t r j d \<longleftrightarrow> length d = length (dat t) \<and>
     (\<forall>k<MAX_DIR_ENTRIES t. slot_at d (dir_off t r) k =
        (fst (slot_at (dat t) (dir_off t r) k), if k < j then - 1 else snd (slot_at (dat t) (dir_off t r) k)))"

lemma dir_init_loop:
  assumes r: "dir_ready t r"
  shows "wp (for_ret 0 (MAX_DIR_ENTRIES t) (\<lambda>i.
      andthen (mem_write (d_inumber_at (dir_off t r) i) (int32_bytes (- 1))) (ret (None :: unit option))))
    (\<lambda>x s'. x = None \<and> (\<exists>d. s' = put_dat d t \<and> cleared_slots t r (MAX_DIR_ENTRIES t) d)) t"
proof (rule for_ret_all)
  note sh = dir_readyD(1) [OF r]
  show "\<exists>d. t = put_dat d t \<and> cleared_slots t r 0 d"
    using put_dat_same [OF sh] by (intro exI [of _ "dat t"]) (simp add: cleared_slots_def)
  fix j s assume j: "j < MAX_DIR_ENTRIES t" and "\<exists>d. s = put_dat d t \<and> cleared_slots t r j d"
  then obtain d where s: "s = put_dat d t" and d: "cleared_slots t r j d" by blast
  have len: "length d = length (dat t)" using d by (simp add: cleared_slots_def)
  let ?d = "write_at (d_inumber_at (dir_off t r) j) (int32_bytes (- 1)) d"
  have room: "d_inumber_at (dir_off t r) j + length (int32_bytes (- 1)) \<le> length d"
    using slot_in_dat(2) [OF r j] len by simp
  have "cleared_slots t r (Suc j) ?d"
    using d j room dir_in_dat [OF r] len
    by (auto simp: cleared_slots_def slot_at_write_inumber [of _ "MAX_DIR_ENTRIES t"] int32_range_def less_Suc_eq)
  moreover have "mem_write (d_inumber_at (dir_off t r) j) (int32_bytes (- 1)) s = Inr ((), put_dat ?d t)"
    using sh len room by (simp add: s mem_write_eq)
  ultimately show "wp (andthen (mem_write (d_inumber_at (dir_off t r) j) (int32_bytes (- 1))) (ret None))
      (\<lambda>x s'. x = None \<and> (\<exists>d. s' = put_dat d t \<and> cleared_slots t r (Suc j) d)) s"
    by (auto simp: wp_def andthen_app ret_app)
qed simp

lemma start_shape:
  assumes "params_ok p"
  shows "fs_shape (start_state env p s)" "BLOCK_SIZE (start_state env p s) = block_size p"
    "INODE_TABLE_SIZE (start_state env p s) = unat (max_inode_count p)"
    "DATA_BLOCKS (start_state env p s) = unat (max_block_count p)"
    "MAX_OPEN_FILES (start_state env p s) = unat (max_open_files_count p)"
    "imap (start_state env p s) = replicate (unat (max_inode_count p)) FREE"
    "bmap (start_state env p s) = replicate (unat (max_block_count p)) FREE"
    "omap (start_state env p s) = replicate (unat (max_open_files_count p)) FREE"
    "dat (start_state env p s) = map (junk_byte env) [0..<unat (max_block_count p) * unat (block_size p)]"
    "fs_params (start_state env p s) = p"
    "g_library_mutex (start_state env p s) = g_library_mutex s"
  using assms by (simp_all add: start_state_def params_ok_def fs_shape_def size_defs table_defs)

definition root_state :: "malloc_env \<Rightarrow> tfs_params \<Rightarrow> fs_state \<Rightarrow> fs_state" where
  "root_state env p s = put_inode 0 ((inodes (start_state env p s) ! 0)
       \<lparr>i_node_type := T_DIRECTORY, i_size := block_size p, i_data_block := 0\<rparr>)
     (put_bmap 0 TAKEN (put_imap 0 TAKEN (start_state env p s)))"

lemma unat_pos_uint: "0 < uint w \<longleftrightarrow> 0 < unat (w :: 'a::len word)"
  using of_nat_0_less_iff [of "unat w", where 'a = int] by (simp del: of_nat_0_less_iff)

lemma root_ready:
  assumes "params_ok p"
  shows "dir_ready (root_state env p s) 0" "dir_off (root_state env p s) 0 = 0"
proof -
  have n: "0 < unat (max_inode_count p)" "0 < unat (max_block_count p)" using assms by (simp_all add: params_ok_def)
  have "length (inodes (start_state env p s)) = unat (max_inode_count p)"
    using fs_shape_tables(7) [OF start_shape(1) [OF assms], of env s] by (simp add: start_shape [OF assms])
  then show "dir_ready (root_state env p s) 0" "dir_off (root_state env p s) 0 = 0"
    using n start_shape(1) [OF assms] by (simp_all add: root_state_def dir_ready_def dir_off_def blk_off_def
        valid_block_number_def start_shape [OF assms] unat_pos_uint)
qed

lemma put_inode_twice:
  "put_inode i n (put_bmap b st (put_inode i n' s)) = put_inode i n (put_bmap b st s)"
  by (cases s) (simp add: put_defs table_defs)

lemma first_free_fresh: "0 < n \<Longrightarrow> first_free (replicate n FREE) = Some 0"
  by (simp add: first_free_Some)

lemma root_create:
  assumes ok: "params_ok p"
  shows "wp (inode_create T_DIRECTORY) (\<lambda>r s'. r = 0 \<and>
    (\<exists>d. s' = put_dat d (root_state env p s) \<and>
      cleared_slots (root_state env p s) 0 (MAX_DIR_ENTRIES (root_state env p s)) d)) (start_state env p s)"
proof -
  have n: "0 < unat (max_inode_count p)" "0 < unat (max_block_count p)" using ok by (simp_all add: params_ok_def)
  let ?st = "start_state env p s"
  let ?t = "root_state env p s"
  note st = start_shape [OF ok, of env s]
  have len: "0 < length (inodes ?st)" using fs_shape_tables(7) [OF st(1)] st(3) n by simp
  have "inode_create T_DIRECTORY ?st = bind (data_block_get 0) (\<lambda>dir_entry.
      bind (gets MAX_DIR_ENTRIES) (\<lambda>n.
      bind (for_ret 0 n (\<lambda>i. andthen (mem_write (d_inumber_at dir_entry i) (int32_bytes (- 1)))
         (ret (None :: unit option)))) (\<lambda>_. ret 0))) ?t"
    using st n len
    by (simp add: inode_create_def bind_app [of inode_alloc] bind_app [of data_block_alloc]
        bind_app [of "gets BLOCK_SIZE"] gets_app andthen_app tab_simps first_free_fresh root_state_def
        put_inode_twice)
  moreover have "data_block_get 0 ?t = Inr (dir_off ?t 0, ?t)"
  proof -
    have "i_data_block (inodes ?t ! 0) = 0" using len by (simp add: root_state_def)
    then show ?thesis
      using data_block_get_eq [OF dir_readyD(1,4) [OF root_ready(1) [OF ok, of env s]]] by (simp add: dir_off_def)
  qed
  ultimately have "inode_create T_DIRECTORY ?st = bind (for_ret 0 (MAX_DIR_ENTRIES ?t) (\<lambda>i.
      andthen (mem_write (d_inumber_at (dir_off ?t 0) i) (int32_bytes (- 1))) (ret (None :: unit option))))
      (\<lambda>_. ret 0) ?t"
    by (simp add: bind_app [of "data_block_get _"] bind_app [of "gets _"] gets_app)
  then show ?thesis
    using dir_init_loop [OF root_ready(1) [OF ok, of env s]]
    by (simp add: wp_iff [of "inode_create T_DIRECTORY"]) (auto simp: wp_iff bind_app ret_app)
qed

definition a_empty :: afs where
  "a_empty = \<lparr>a_names = (\<lambda>_. None), a_files = (\<lambda>_. None), a_handles = (\<lambda>_. None)\<rparr>"

lemma root_tables:
  assumes "params_ok p"
  shows "imap (root_state env p s) = (replicate (unat (max_inode_count p)) FREE)[0 := TAKEN]"
    "bmap (root_state env p s) = (replicate (unat (max_block_count p)) FREE)[0 := TAKEN]"
    "omap (root_state env p s) = replicate (unat (max_open_files_count p)) FREE"
    "dat (root_state env p s) = map (junk_byte env) [0..<unat (max_block_count p) * unat (block_size p)]"
    "inodes (root_state env p s) ! 0 = (inodes (start_state env p s) ! 0)
       \<lparr>i_node_type := T_DIRECTORY, i_size := block_size p, i_data_block := 0\<rparr>"
    "fs_params (root_state env p s) = p" "BLOCK_SIZE (root_state env p s) = block_size p"
    "MAX_DIR_ENTRIES (root_state env p s) = unat (block_size p) div sizeof_dir_entry"
    "length (inodes (root_state env p s)) = unat (max_inode_count p)"
    "MAX_OPEN_FILES (root_state env p s) = unat (max_open_files_count p)"
    "g_library_mutex (root_state env p s) = g_library_mutex s"
proof -
  note st = start_shape [OF assms, of env s]
  have l: "length (inodes (start_state env p s)) = unat (max_inode_count p)"
    using fs_shape_tables(7) [OF st(1)] st(3) by simp
  have "0 < unat (max_inode_count p)" using assms by (simp add: params_ok_def)
  then show "inodes (root_state env p s) ! 0 = (inodes (start_state env p s) ! 0)
       \<lparr>i_node_type := T_DIRECTORY, i_size := block_size p, i_data_block := 0\<rparr>"
    using l by (simp add: root_state_def nth_upd)
  show "MAX_DIR_ENTRIES (root_state env p s) = unat (block_size p) div sizeof_dir_entry"
    by (simp add: root_state_def MAX_DIR_ENTRIES_def st)
qed (use fs_shape_tables(7) [OF start_shape(1) [OF assms, of env s]] in
      \<open>simp_all add: root_state_def start_shape [OF assms]\<close>)

lemma root_slots:
  assumes ok: "params_ok p"
    and d: "cleared_slots (root_state env p s) 0 (MAX_DIR_ENTRIES (root_state env p s)) d"
    and k: "k < MAX_DIR_ENTRIES (root_state env p s)"
  shows "\<not> slot_used (dir_slots (put_dat d (root_state env p s)) 0 ! k)"
  using d k root_ready(2) [OF ok, of env s] by (simp add: dir_slots_put_dat cleared_slots_def slot_used_def)

lemma wf_root:
  assumes ok: "params_ok p"
    and d: "cleared_slots (root_state env p s) 0 (MAX_DIR_ENTRIES (root_state env p s)) d"
  shows "fs_wf (put_dat d (root_state env p s))"
    "\<And>i. \<not> file_inum (imap (put_dat d (root_state env p s))) i"
    "\<And>nm. name_slot (put_dat d (root_state env p s)) nm = None"
    "\<And>h. \<not> open_handle (put_dat d (root_state env p s)) h"
proof -
  let ?t = "root_state env p s"
  note rt = root_tables [OF ok, of env s]
  note sl = root_slots [OF ok d]
  have n: "0 < unat (max_inode_count p)" "0 < unat (max_block_count p)" "0 < block_size p"
    using ok by (simp_all add: params_ok_def word_less_nat_alt)
  have im: "imap ?t ! i = TAKEN \<longleftrightarrow> i = 0" if "i < unat (max_inode_count p)" for i
    using that by (simp add: rt nth_upd)
  show nofile: "\<not> file_inum (imap (put_dat d ?t)) i" for i
    using im [of "nat i"] by (auto simp: file_inum_def rt)
  show "name_slot (put_dat d ?t) nm = None" for nm
    using sl by (simp add: name_slot_def dir_lookup_def first_index_None)
  show "\<not> open_handle (put_dat d ?t) h" for h
    by (simp add: open_handle_def valid_file_handle_def rt) (auto simp: nat_less_iff)
  have sh: "fs_shape (put_dat d ?t)"
    using d dir_readyD(1) [OF root_ready(1) [OF ok]] by (intro fs_shape_put) (simp_all add: cleared_slots_def)
  have bm: "bmap ?t ! b = TAKEN \<longleftrightarrow> b = 0" if "b < unat (max_block_count p)" for b
    using that by (simp add: rt nth_upd)
  have owns: "owns (inodes ?t) (imap ?t) i b \<longleftrightarrow> i = 0 \<and> b = 0" for i b
    using n im [of i] by (auto simp: owns_def rt(9)) (simp_all add: rt)
  have "root_ok (inodes ?t) (imap ?t) (block_size p)"
    using n im by (auto simp: root_ok_def rt(9)) (simp_all add: rt)
  moreover have "blocks_ok (inodes ?t) (imap ?t) (bmap ?t) (block_size p)"
    unfolding blocks_ok_def owns using n im bm by (auto simp: rt(5,9)) (simp_all add: rt(2))
  moreover have "dir_ok (dir_slots (put_dat d ?t) 0) (imap ?t)"
    using nofile sl by (simp add: dir_ok_def)
  moreover have "open_ok (omap ?t) (ofiles ?t) (inodes ?t) (imap ?t)"
    by (simp add: open_ok_def rt)
  ultimately show "fs_wf (put_dat d ?t)" using sh by (simp add: fs_wf_def rt)
qed

lemma tfs_init_spec:
  assumes "params_ok p" "\<And>i. \<not> malloc_null env i"
    and "inode_table s = None" "\<not> g_library_mutex s"
  shows "wp (tfs_init env (Some p))
    (\<lambda>r s'. r = 0 \<and> fs_inv s' \<and> fs_params s' = p \<and> afs_of s' = a_empty) s"
proof -
  let ?t = "root_state env p s"
  have "fs_inv (put_dat d ?t) \<and> fs_params (put_dat d ?t) = p \<and> afs_of (put_dat d ?t) = a_empty"
    if "cleared_slots ?t 0 (MAX_DIR_ENTRIES ?t) d" for d
    using wf_root [OF assms(1) that] assms(4) root_tables [OF assms(1), of env s]
    by (auto simp: fs_inv_def a_empty_def intro!: afs_eqI)
  then have "wp (inode_create T_DIRECTORY)
      (\<lambda>r s'. r = 0 \<and> fs_inv s' \<and> fs_params s' = p \<and> afs_of s' = a_empty) (start_state env p s)"
    using root_create [OF assms(1), of env s] by (auto elim!: wp_mono)
  then show ?thesis
    using state_init_eq [OF assms(1,3,2)]
    by (auto simp: tfs_init_def wp_iff bind_app ret_app ROOT_DIR_INUM_def)
qed

end
