(* ===== verification/FsSeq.thy ===== *)
theory FsSeq
  imports FsInit
begin

text \<open>
  Sequences of calls: what one call stores another gives back, and the states a program
  can bring the file system to by calls whose preconditions hold.
\<close>

section \<open>What is written is read again\<close>

definition write_then_read :: "int \<Rightarrow> byte list \<Rightarrow> u64 \<Rightarrow> byte list \<Rightarrow> byte list \<Rightarrow> (int \<times> int \<times> int \<times> byte list) fs" where
  "write_then_read h buffer len name rbuf =
     bind (tfs_write h buffer len) (\<lambda>w.
     bind (tfs_open (Some name) 0) (\<lambda>g.
     bind (tfs_read g rbuf len) (\<lambda>(v, b).
     ret (w, g, v, b))))"

lemma no_flags: "\<not> has_flag 0 f"
  by (simp add: has_flag_def)

lemma a_attach_room:
  assumes "first_free (omap s) = Some g" "fs_wf s"
  shows "a_attach (MAX_OPEN_FILES s) i off (afs_of s) =
    (int g, (afs_of s)\<lparr>a_handles := (a_handles (afs_of s))(int g \<mapsto> (i, off))\<rparr>)"
  using assms first_free_handle [OF fs_wfD(1) [OF assms(2)]] by (simp add: a_attach_def)

text \<open>The abstract run: write at offset 0, open the same file, read as many bytes.\<close>

lemma a_write_open_read:
  assumes h: "a_handles a h = Some (i, 0)" and nm: "a_names a nm = Some i" and f: "a_files a i = Some old"
    and len: "length bytes \<le> max_size" and room: "room"
    and g: "first_index (\<lambda>g. a_handles a (int g) = None) max_open = Some g"
  shows "fst (a_write max_size room h bytes a) = int (length bytes)"
    "fst (a_open ni max_open dr nm 0 (snd (a_write max_size room h bytes a))) = int g"
    "a_handles (snd (a_open ni max_open dr nm 0 (snd (a_write max_size room h bytes a)))) (int g) = Some (i, 0)"
    "a_files (snd (a_open ni max_open dr nm 0 (snd (a_write max_size room h bytes a)))) i =
       Some (write_at 0 bytes old)"
proof -
  have w: "a_write max_size room h bytes a =
    (int (length bytes), a\<lparr>a_files := (a_files a)(i \<mapsto> write_at 0 bytes old),
       a_handles := (a_handles a)(h \<mapsto> (i, length bytes))\<rparr>)"
    using h f len room by (simp add: a_write_def Let_def min_absorb1)
  have "first_index (\<lambda>g. ((a_handles a)(h \<mapsto> (i, length bytes))) (int g) = None) max_open = Some g"
    using g h by (auto simp: first_index_Some)
  then have o: "a_open ni max_open dr nm 0 (snd (a_write max_size room h bytes a)) =
    (int g, (snd (a_write max_size room h bytes a))
       \<lparr>a_handles := ((a_handles a)(h \<mapsto> (i, length bytes)))(int g \<mapsto> (i, 0))\<rparr>)"
    using nm by (simp add: w a_open_def no_flags a_attach_def)
  show "fst (a_write max_size room h bytes a) = int (length bytes)"
    "fst (a_open ni max_open dr nm 0 (snd (a_write max_size room h bytes a))) = int g"
    "a_handles (snd (a_open ni max_open dr nm 0 (snd (a_write max_size room h bytes a)))) (int g) = Some (i, 0)"
    "a_files (snd (a_open ni max_open dr nm 0 (snd (a_write max_size room h bytes a)))) i =
       Some (write_at 0 bytes old)"
    unfolding o by (simp_all add: w)
qed

lemma fs_params_sizes:
  "fs_params s = fs_params t \<Longrightarrow> INODE_TABLE_SIZE s = INODE_TABLE_SIZE t"
  "fs_params s = fs_params t \<Longrightarrow> MAX_OPEN_FILES s = MAX_OPEN_FILES t"
  "fs_params s = fs_params t \<Longrightarrow> BLOCK_SIZE s = BLOCK_SIZE t"
  by (simp_all add: size_defs)

section \<open>Reachable states\<close>

text \<open>
  The states a program reaches from \<open>tfs_init\<close> by calls that respect the preconditions:
  buffers hold the lengths passed with them, a file is deleted or truncated only while
  no handle is open on it, and lengths are not so large that they wrap around.
\<close>

inductive fs_reach :: "fs_state \<Rightarrow> bool" where
  start: "params_ok p \<Longrightarrow> (\<And>i. \<not> malloc_null env i) \<Longrightarrow> inode_table s0 = None \<Longrightarrow>
    \<not> g_library_mutex s0 \<Longrightarrow> tfs_init env (Some p) s0 = Inr (r, s) \<Longrightarrow> fs_reach s"
| opens: "fs_reach s \<Longrightarrow> is_cstr m \<Longrightarrow>
    (\<And>i. a_names (afs_of s) (fname m) = Some i \<Longrightarrow> has_flag mode TFS_O_TRUNC \<Longrightarrow> not_open s i) \<Longrightarrow>
    tfs_open (Some m) mode s = Inr (h, s') \<Longrightarrow> fs_reach s'"
| closes: "fs_reach s \<Longrightarrow> tfs_close h s = Inr (r, s') \<Longrightarrow> fs_reach s'"
| writes: "fs_reach s \<Longrightarrow> unat len \<le> length buffer \<Longrightarrow>
    (open_handle s h \<Longrightarrow> unat len + unat (of_offset (ofiles s ! nat h)) < 2 ^ 64) \<Longrightarrow>
    tfs_write h buffer len s = Inr (r, s') \<Longrightarrow> fs_reach s'"
| reads: "fs_reach s \<Longrightarrow> unat len \<le> length buffer \<Longrightarrow> tfs_read h buffer len s = Inr (r, s') \<Longrightarrow> fs_reach s'"
| unlinks: "fs_reach s \<Longrightarrow> is_cstr m \<Longrightarrow>
    (\<And>i. a_names (afs_of s) (fname m) = Some i \<Longrightarrow> not_open s i) \<Longrightarrow>
    tfs_unlink (Some m) s = Inr (r, s') \<Longrightarrow> fs_reach s'"

lemma wp_result: "wp m Q s \<Longrightarrow> m s = Inr (x, s') \<Longrightarrow> Q x s'"
  by (simp add: wp_def)

lemma reach_inv: "fs_reach s \<Longrightarrow> fs_inv s"
proof (induction rule: fs_reach.induct)
  case (start p env s0 r s)
  show ?case using wp_result [OF tfs_init_spec [OF start(1-4)] start(5)] by simp
next
  case (opens s m mode h s')
  show ?case
    using wp_result [OF tfs_open_spec [OF opens.IH opens.hyps(2) opens.hyps(3)] opens.hyps(4)]
    by (simp add: refines_def)
next
  case (closes s h r s')
  show ?case using wp_result [OF tfs_close_spec [OF closes.IH] closes.hyps(2)] by (simp add: refines_def)
next
  case (writes s len buffer h r s')
  show ?case
    using wp_result [OF tfs_write_spec [OF writes.IH writes.hyps(2,3)] writes.hyps(4)]
    by (simp add: refines_def)
next
  case (reads s len buffer h r s')
  show ?case
    using wp_result [OF tfs_read_spec [OF reads.IH reads.hyps(2)] reads.hyps(3)] by (simp add: refines_def)
next
  case (unlinks s m r s')
  show ?case
    using wp_result [OF tfs_unlink_spec [OF unlinks.IH unlinks.hyps(2,3)] unlinks.hyps(4)]
    by (simp add: refines_def)
qed

end
