(* ===== verification/FsExample.thy ===== *)
theory FsExample
  imports FsSeq
begin

text \<open>
  A small file system (three inodes, three blocks of 88 bytes, two handles) on allocated
  memory full of rubbish, the input of the witnesses: \<open>ex1\<close> is its state after
  \<open>tfs_init\<close>, \<open>ex2\<close> after creating the file "/a", \<open>ex3\<close> after writing three bytes to it
  and \<open>ex4\<close> after closing it.
\<close>

definition ex_env :: malloc_env where
  "ex_env = \<lparr>malloc_null = (\<lambda>_. False),
     junk_inode = (\<lambda>_. \<lparr>i_node_type = T_DIRECTORY, i_size = 7, i_data_block = 2\<rparr>),
     junk_alloc = (\<lambda>_. TAKEN), junk_byte = (\<lambda>_. 255),
     junk_open_file = (\<lambda>_. \<lparr>of_inumber = 1, of_offset = 3\<rparr>)\<rparr>"

definition ex_params :: tfs_params where
  "ex_params = \<lparr>max_inode_count = 3, max_block_count = 3, max_open_files_count = 2, block_size = 88\<rparr>"

definition ex0 :: fs_state where
  "ex0 = \<lparr>fs_params = ex_params, inode_table = None, freeinode_ts = None, fs_data = None,
     free_blocks = None, open_file_table = None, free_open_file_entries = None, g_library_mutex = False\<rparr>"

definition path_a :: "byte list" where "path_a = [47, 97, 0]"
definition path_b :: "byte list" where "path_b = [47, 98, 0]"

definition ex1 :: fs_state where
  "ex1 = \<lparr>fs_params = ex_params,
     inode_table = Some [\<lparr>i_node_type = T_DIRECTORY, i_size = 88, i_data_block = 0\<rparr>,
       \<lparr>i_node_type = T_DIRECTORY, i_size = 7, i_data_block = 2\<rparr>,
       \<lparr>i_node_type = T_DIRECTORY, i_size = 7, i_data_block = 2\<rparr>],
     freeinode_ts = Some [TAKEN, FREE, FREE], fs_data = Some (replicate 264 255),
     free_blocks = Some [TAKEN, FREE, FREE],
     open_file_table = Some [\<lparr>of_inumber = 1, of_offset = 3\<rparr>, \<lparr>of_inumber = 1, of_offset = 3\<rparr>],
     free_open_file_entries = Some [FREE, FREE], g_library_mutex = False\<rparr>"

definition ex2 :: fs_state where
  "ex2 = ex1\<lparr>
     inode_table := Some [\<lparr>i_node_type = T_DIRECTORY, i_size = 88, i_data_block = 0\<rparr>,
       \<lparr>i_node_type = T_FILE, i_size = 0, i_data_block = - 1\<rparr>,
       \<lparr>i_node_type = T_DIRECTORY, i_size = 7, i_data_block = 2\<rparr>],
     freeinode_ts := Some [TAKEN, TAKEN, FREE],
     fs_data := Some (97 # replicate 39 0 @ [1, 0, 0, 0] @ replicate 220 255),
     open_file_table := Some [\<lparr>of_inumber = 1, of_offset = 0\<rparr>, \<lparr>of_inumber = 1, of_offset = 3\<rparr>],
     free_open_file_entries := Some [TAKEN, FREE]\<rparr>"

definition ex3 :: fs_state where
  "ex3 = ex2\<lparr>
     inode_table := Some [\<lparr>i_node_type = T_DIRECTORY, i_size = 88, i_data_block = 0\<rparr>,
       \<lparr>i_node_type = T_FILE, i_size = 3, i_data_block = 1\<rparr>,
       \<lparr>i_node_type = T_DIRECTORY, i_size = 7, i_data_block = 2\<rparr>],
     free_blocks := Some [TAKEN, TAKEN, FREE],
     fs_data := Some (97 # replicate 39 0 @ [1, 0, 0, 0] @ replicate 44 255 @ [1, 2, 3] @ replicate 173 255),
     open_file_table := Some [\<lparr>of_inumber = 1, of_offset = 3\<rparr>, \<lparr>of_inumber = 1, of_offset = 3\<rparr>]\<rparr>"

definition ex4 :: fs_state where
  "ex4 = ex3\<lparr>free_open_file_entries := Some [FREE, FREE]\<rparr>"

lemma ex_runs:
  "tfs_init ex_env (Some ex_params) ex0 = Inr (0, ex1)"
  "tfs_open (Some path_a) TFS_O_CREAT ex1 = Inr (0, ex2)"
  "tfs_write 0 [1, 2, 3] 3 ex2 = Inr (3, ex3)"
  "tfs_close 0 ex3 = Inr (0, ex4)"
  by code_simp+

lemma ex_params_ok: "params_ok ex_params"
  by (simp add: params_ok_def ex_params_def)

lemma ex0_start: "inode_table ex0 = None" "\<not> g_library_mutex ex0" "\<not> malloc_null ex_env i"
  by (simp_all add: ex0_def ex_env_def)

lemma ex1_inv: "fs_inv ex1" "afs_of ex1 = a_empty"
  using wp_result [OF tfs_init_spec [OF ex_params_ok ex0_start(3,1,2)] ex_runs(1)] by auto

lemma path_cstr: "is_cstr path_a" "is_cstr path_b"
  by (simp_all add: path_a_def path_b_def is_cstr_def)

lemma ex2_inv: "fs_inv ex2"
  using wp_result [OF tfs_open_spec [OF ex1_inv(1) path_cstr(1)] ex_runs(2)]
  by (auto simp: refines_def ex1_inv(2) a_empty_def)

lemma ex2_facts: "open_handle ex2 0" "of_offset (ofiles ex2 ! 0) = 0" "of_inumber (ofiles ex2 ! 0) = 1"
  "first_free (bmap ex2) = Some 1" "first_free (omap ex2) = Some 1"
  "name_slot ex2 (fname path_a) = Some 0" "snd (dir_slots ex2 0 ! 0) = 1" "unat (BLOCK_SIZE ex2) = 88"
  by code_simp+

lemma ex3_inv: "fs_inv ex3"
  using wp_result [OF tfs_write_spec [OF ex2_inv] ex_runs(3)] ex2_facts(2) by (auto simp: refines_def)

lemma ex4_inv: "fs_inv ex4"
  using wp_result [OF tfs_close_spec [OF ex3_inv] ex_runs(4)] by (auto simp: refines_def)

lemma ex4_facts: "name_slot ex4 (fname path_a) = Some 0" "snd (dir_slots ex4 0 ! 0) = 1" "not_open ex4 1"
  by code_simp+

lemma ex_names: "fname path_a = [97]" "valid_name path_a" "fname path_b = [98]" "valid_name path_b"
  by code_simp+

end
