(* ===== verification/FsProps.thy ===== *)
theory FsProps
  imports FsExample
begin

text \<open>
  The properties of the file system, each with a run on the small file system of
  \<open>FsExample\<close> in which its hypotheses hold.
\<close>

section \<open>One call\<close>

text \<open>C11: \<open>tfs_open\<close> opens the file of a name that exists, truncated and with the offset
  at its end if the mode says so, and creates it under the first free inode if it does
  not exist and the mode has the flag for it; it returns the first free handle. It
  returns -1 for a path that is not "/" and a name, for a missing file without the
  creation flag, for a name of 40 bytes or more, and when inodes or directory slots run
  out, all without a change; it also returns -1 when the handles run out, but then the
  file has been created or truncated. Truncation is only covered when no handle is open
  on the file.\<close>

theorem tfs_open_refines:
  assumes inv: "fs_inv s" and m: "is_cstr m"
    and closed: "\<And>i. a_names (afs_of s) (fname m) = Some i \<Longrightarrow> has_flag mode TFS_O_TRUNC \<Longrightarrow> not_open s i"
  shows "wp (tfs_open (Some m) mode)
    (\<lambda>r s'. fs_inv s' \<and> fs_params s' = fs_params s \<and>
       (r, afs_of s') = (if valid_name m
       then a_open (INODE_TABLE_SIZE s) (MAX_OPEN_FILES s) (dir_vacant (dir_slots s 0) \<noteq> None)
              (fname m) mode (afs_of s)
       else (- 1, afs_of s))) s"
  by (rule wp_mono [OF tfs_open_spec]) (use assms in \<open>auto simp: refines_def\<close>)

theorem tfs_open_refines_witness:
  "wp (tfs_open (Some path_a) (TFS_O_TRUNC + TFS_O_APPEND))
    (\<lambda>r s'. fs_inv s' \<and> fs_params s' = fs_params ex4 \<and>
       (r, afs_of s') = a_open (INODE_TABLE_SIZE ex4) (MAX_OPEN_FILES ex4) (dir_vacant (dir_slots ex4 0) \<noteq> None)
         (fname path_a) (TFS_O_TRUNC + TFS_O_APPEND) (afs_of ex4)) ex4"
proof -
  have "not_open ex4 i" if "a_names (afs_of ex4) (fname path_a) = Some i" for i
    using that ex4_facts by simp
  from tfs_open_refines [OF ex4_inv path_cstr(1) this] show ?thesis using ex_names(2) by simp
qed

text \<open>C25: \<open>tfs_close\<close> closes an open handle and returns 0; for any other number it
  returns -1 and changes nothing. It keeps the invariant and leaves the mutex free.\<close>

theorem tfs_close_refines:
  assumes "fs_inv s"
  shows "wp (tfs_close h)
    (\<lambda>r s'. fs_inv s' \<and> fs_params s' = fs_params s \<and>
       (r, afs_of s') = a_close h (afs_of s)) s"
  by (rule wp_mono [OF tfs_close_spec]) (use assms in \<open>auto simp: refines_def\<close>)

theorem tfs_close_refines_witness:
  "wp (tfs_close 0) (\<lambda>r s'. fs_inv s' \<and> fs_params s' = fs_params ex3 \<and>
     (r, afs_of s') = a_close 0 (afs_of ex3)) ex3"
  by (rule tfs_close_refines [OF ex3_inv])

text \<open>C9: \<open>tfs_write\<close> writes as many of the bytes as fit between the offset and the end
  of the block, at the offset of the handle, extends the file, moves the offset and
  returns that number; it returns -1 when the handle is not open, or when the file is
  empty and no block is free. No other file, name or handle changes. The caller's buffer
  has to hold the length, and the length plus the offset must not wrap around.\<close>

theorem tfs_write_refines:
  assumes inv: "fs_inv s" and buf: "unat len \<le> length buffer"
    and nowrap: "open_handle s h \<Longrightarrow> unat len + unat (of_offset (ofiles s ! nat h)) < 2 ^ 64"
  shows "wp (tfs_write h buffer len)
    (\<lambda>r s'. fs_inv s' \<and> fs_params s' = fs_params s \<and>
       (r, afs_of s') = a_write (unat (BLOCK_SIZE s)) (first_free (bmap s) \<noteq> None) h
       (take (unat len) buffer) (afs_of s)) s"
  by (rule wp_mono [OF tfs_write_spec]) (use assms in \<open>auto simp: refines_def\<close>)

theorem tfs_write_refines_witness:
  "wp (tfs_write 0 [1, 2, 3] 3) (\<lambda>r s'. fs_inv s' \<and> fs_params s' = fs_params ex2 \<and>
     (r, afs_of s') = a_write 88 True 0 [1, 2, 3] (afs_of ex2)) ex2"
  using tfs_write_refines [OF ex2_inv, of 3 "[1, 2, 3]" 0] ex2_facts by simp

text \<open>C10: \<open>tfs_read\<close> returns the bytes of the file from the handle's offset on, as many
  as asked for and as there are, in the front of the caller's buffer, moves the offset
  behind them and returns their number (0 at the end of the file); -1 when the handle is
  not open. It changes no file and no name.\<close>

theorem tfs_read_refines:
  assumes inv: "fs_inv s" and buf: "unat len \<le> length buffer"
  shows "wp (tfs_read h buffer len)
    (\<lambda>r s'. fs_inv s' \<and> fs_params s' = fs_params s \<and>
       (r, afs_of s') = a_read h buffer (unat len) (afs_of s)) s"
  by (rule wp_mono [OF tfs_read_spec]) (use assms in \<open>auto simp: refines_def\<close>)

theorem tfs_read_refines_witness:
  "wp (tfs_read 0 [9, 9, 9, 9] 4) (\<lambda>r s'. fs_inv s' \<and> fs_params s' = fs_params ex2 \<and>
     (r, afs_of s') = a_read 0 [9, 9, 9, 9] 4 (afs_of ex2)) ex2"
  using tfs_read_refines [OF ex2_inv, of 4 "[9, 9, 9, 9]" 0] by simp

text \<open>C12: \<open>tfs_unlink\<close> of a name that exists removes the name and the file and returns
  0, when no handle is open on the file; it returns -1 and changes nothing for a name
  that does not exist and for a path that is not "/" and a non-empty name. The name is
  found whatever was unlinked or created before, and no other name or file changes.\<close>

theorem tfs_unlink_refines:
  assumes inv: "fs_inv s" and m: "is_cstr m"
    and closed: "\<And>i. a_names (afs_of s) (fname m) = Some i \<Longrightarrow> not_open s i"
  shows "wp (tfs_unlink (Some m))
    (\<lambda>r s'. fs_inv s' \<and> fs_params s' = fs_params s \<and>
       (r, afs_of s') = (if valid_name m then a_unlink (fname m) (afs_of s) else (- 1, afs_of s))) s"
  by (rule wp_mono [OF tfs_unlink_spec]) (use assms in \<open>auto simp: refines_def\<close>)

theorem tfs_unlink_refines_witness:
  "wp (tfs_unlink (Some path_a)) (\<lambda>r s'. fs_inv s' \<and> fs_params s' = fs_params ex4 \<and>
     (r, afs_of s') = a_unlink [97] (afs_of ex4)) ex4"
proof -
  have "not_open ex4 i" if "a_names (afs_of ex4) (fname path_a) = Some i" for i
    using that ex4_facts by simp
  from tfs_unlink_refines [OF ex4_inv path_cstr(1) this] show ?thesis
    unfolding ex_names(1) using ex_names(2) by simp
qed

text \<open>C26: \<open>tfs_init\<close> with usable parameters, when every allocation succeeds, returns 0 and
  leaves an initialised, empty file system that satisfies the invariant, whatever the
  allocated memory held.\<close>

theorem tfs_init_fresh:
  assumes "params_ok p" "\<And>i. \<not> malloc_null env i" "inode_table s = None" "\<not> g_library_mutex s"
  shows "wp (tfs_init env (Some p))
    (\<lambda>r s'. r = 0 \<and> fs_inv s' \<and> fs_params s' = p \<and> afs_of s' = a_empty) s"
  by (rule tfs_init_spec [OF assms])

theorem tfs_init_fresh_witness:
  "wp (tfs_init ex_env (Some ex_params))
    (\<lambda>r s'. r = 0 \<and> fs_inv s' \<and> fs_params s' = ex_params \<and> afs_of s' = a_empty) ex0"
  by (rule tfs_init_fresh [OF ex_params_ok ex0_start(3,1,2)])

section \<open>Several calls\<close>

text \<open>C15: bytes written through a handle at the start of a file are what a second handle,
  opened afterwards by the file's name, reads: \<open>tfs_write\<close>, \<open>tfs_open\<close> and \<open>tfs_read\<close>
  compose to the identity on up to a block of bytes.\<close>

theorem tfs_write_open_read:
  assumes inv: "fs_inv s" and m: "is_cstr m" "valid_name m"
    and h: "a_handles (afs_of s) h = Some (i, 0)" and nm: "a_names (afs_of s) (fname m) = Some i"
    and len: "unat len \<le> unat (BLOCK_SIZE s)" "unat len \<le> length buffer" "unat len \<le> length rbuf"
    and room: "first_free (bmap s) \<noteq> None" "first_free (omap s) \<noteq> None"
  shows "wp (write_then_read h buffer len m rbuf)
    (\<lambda>(w, g, v, b) s'. w = int (unat len) \<and> g \<ge> 0 \<and> v = int (unat len) \<and>
       take (unat len) b = take (unat len) buffer \<and> fs_inv s') s"
proof -
  let ?a = "afs_of s" and ?bytes = "take (unat len) buffer"
  have wf: "fs_wf s" using inv by (simp add: fs_inv_def)
  have lb: "length ?bytes = unat len" using len by simp
  have oh: "open_handle s h" "unat (of_offset (ofiles s ! nat h)) = 0"
    using h by (auto split: if_splits)
  obtain old where f: "a_files ?a i = Some old"
    using h open_handleD(3) [OF wf oh(1)] by (auto split: if_splits simp: file_inum_def)
  obtain g where g: "first_index (\<lambda>g. a_handles ?a (int g) = None) (MAX_OPEN_FILES s) = Some g"
    using room(2) first_free_handle [OF fs_wfD(1) [OF wf]] by auto
  have lm: "length ?bytes \<le> unat (BLOCK_SIZE s)" using lb len by simp
  have full: "first_free (bmap s) \<noteq> None" by (rule room(1))
  let ?w = "a_write (unat (BLOCK_SIZE s)) (first_free (bmap s) \<noteq> None) h ?bytes ?a"
  note run = a_write_open_read [OF h nm f lm full g]
  have nw: "unat len + unat (of_offset (ofiles s ! nat h)) < 2 ^ 64"
    using oh(2) unsigned_less [of len] by simp
  let ?Q = "\<lambda>(w, g, v, b) s'. w = int (unat len) \<and> g \<ge> 0 \<and> v = int (unat len) \<and>
       take (unat len) b = ?bytes \<and> fs_inv s'"
  have read: "wp (tfs_read (int g) rbuf len) (\<lambda>r s'. ?Q (int (unat len), int g, r) s') s2"
    if "fs_inv s2" "a_handles (afs_of s2) (int g) = Some (i, 0)"
      "a_files (afs_of s2) i = Some (write_at 0 ?bytes old)" for s2
  proof -
    have "take (unat len) (write_at 0 ?bytes old) = ?bytes" using lb by (simp add: write_at_def)
    moreover have "min (length (write_at 0 ?bytes old)) (unat len) = unat len"
      using len(2) by (simp add: write_at_def min_absorb1)
    ultimately have "fst (a_read (int g) rbuf (unat len) (afs_of s2)) = (int (unat len), ?bytes @ drop (unat len) rbuf)"
      using that lb by (simp add: a_read_def Let_def del: afs_of_sel)
    then show ?thesis
      using tfs_read_spec [OF that(1) len(3), of "int g"] lb by (auto simp: refines_def elim!: wp_mono)
  qed
  have reopen: "wp (tfs_open (Some m) 0) (\<lambda>r s2. wp (tfs_read r rbuf len) (\<lambda>x s'. ?Q (int (unat len), r, x) s') s2) s1"
    if s1: "fs_inv s1" "fs_params s1 = fs_params s" "afs_of s1 = snd ?w" for s1
    by (rule wp_mono [OF tfs_open_spec [OF s1(1) m(1), of 0]])
      (use m(2) run(2-4) fs_params_sizes(2) [OF s1(2)] read
        in \<open>simp_all add: refines_def no_flags s1(3) del: afs_of_sel\<close>)
  have "wp (tfs_write h buffer len)
      (\<lambda>w s1. wp (tfs_open (Some m) 0) (\<lambda>r s2. wp (tfs_read r rbuf len) (\<lambda>x s'. ?Q (w, r, x) s') s2) s1) s"
    by (rule wp_mono [OF tfs_write_spec [OF inv len(2) nw]])
      (use reopen run(1) lb in \<open>simp_all add: refines_def del: of_nat_unat\<close>)
  then show ?thesis
    by (simp add: write_then_read_def wp_bind_fun wp_ret_fun case_prod_beta)
qed

theorem tfs_write_open_read_witness:
  "wp (write_then_read 0 [1, 2, 3] 3 path_a [0, 0, 0])
    (\<lambda>(w, g, v, b) s'. w = 3 \<and> g \<ge> 0 \<and> v = 3 \<and> take 3 b = [1, 2, 3] \<and> fs_inv s') ex2"
proof -
  have "a_handles (afs_of ex2) 0 = Some (1, 0)" "a_names (afs_of ex2) (fname path_a) = Some 1"
    using ex2_facts by simp_all
  from tfs_write_open_read [OF ex2_inv path_cstr(1) ex_names(2) this, of 3 "[1, 2, 3]" "[0, 0, 0]"]
  show ?thesis using ex2_facts by simp
qed



end
