(* ===== verification/FsLimits.thy ===== *)
theory FsLimits
  imports FsExample
begin

text \<open>
  What the calls do outside the preconditions of the refinement: the offset of a handle
  that stays open over a truncation or a deletion, sums of type \<open>size_t\<close> that wrap
  around, and a second initialisation.
\<close>



text \<open>C33: the guard of \<open>tfs_write\<close> against writing past the block adds the length to the
  offset in \<open>size_t\<close>: for an offset above 0 and a length so large that the sum wraps
  around, the length is not clipped, and the copy runs off the caller's buffer.\<close>

theorem write_length_wraps:
  assumes inv: "fs_inv s" and h: "open_handle s h"
    and wrap: "2 ^ 64 \<le> unat len + unat (of_offset (ofiles s ! nat h))" and buf: "length buffer < unat len"
  shows "tfs_write h buffer len s = Inl Undef"
proof -
  have wf: "fs_wf s" and free: "\<not> g_library_mutex s" using inv by (simp_all add: fs_inv_def)
  note sh = fs_wfD(1) [OF wf]
  define e where "e = ofiles s ! nat h"
  define i where "i = nat (of_inumber e)"
  note o = open_file_props [OF wf h, folded e_def, folded i_def]
  have lt: "unat len < 2 ^ 64" "unat (of_offset e) < 2 ^ 64"
    using unsigned_less [of len] unsigned_less [of "of_offset e"] by simp_all
  have "unat (len + of_offset e) = (unat len + unat (of_offset e)) mod 2 ^ 64" by (simp add: unat_word_ariths)
  also have "\<dots> = unat len + unat (of_offset e) - 2 ^ 64"
    using wrap lt by (simp add: le_mod_geq flip: e_def)
  finally have "unat (len + of_offset e) \<le> unat (of_offset e)" using lt by linarith
  then have noclip: "\<not> len + of_offset e > BLOCK_SIZE s"
    using o(8,9) by (simp add: word_less_nat_alt word_le_nat_alt)
  have off: "0 < of_offset e" using wrap lt by (simp add: word_less_nat_alt flip: e_def)
  then have sz: "i_size (inodes s ! i) \<noteq> 0" using o(8) by auto
  have len: "len > 0" using buf by (simp add: word_less_nat_alt)
  have "valid_block_number s (i_data_block (inodes s ! i))" using o(10) sz by (simp add: word_gt_0)
  then show ?thesis
    using sh free h o noclip sz len buf
    by (simp add: tfs_write_def prog_simps tab_simps state_block_size_def Let_def c_load_def
        flip: e_def i_def cong: if_cong)
qed

theorem write_length_wraps_witness: "tfs_write 0 [1, 2, 3] 0xFFFFFFFFFFFFFFFE ex3 = Inl Undef"
proof -
  have h: "open_handle ex3 0" and o: "of_offset (ofiles ex3 ! 0) = 3" by code_simp+
  show ?thesis by (rule write_length_wraps [OF ex3_inv h]) (simp_all add: o)
qed

text \<open>C34: a second \<open>tfs_init\<close> is refused with -1, but only after \<open>state_init\<close> has stored
  the new parameters: the tables keep their sizes and every bound used from then on is
  that of the new parameters.\<close>

theorem second_init:
  assumes "inode_table s \<noteq> None"
  shows "tfs_init env (Some p) s = Inr (- 1, s\<lparr>fs_params := p\<rparr>)"
  using assms by (simp add: tfs_init_def state_init_def prog_simps)

theorem second_init_witness:
  "tfs_init ex_env None ex3 = Inr (- 1, ex3\<lparr>fs_params := tfs_default_params\<rparr>)"
proof -
  have "inode_table ex3 \<noteq> None" by (simp add: ex3_def)
  from second_init [OF this, of ex_env tfs_default_params] show ?thesis by (simp add: tfs_init_def)
qed

end
