(* ===== verification/Fifo.thy ===== *)
theory Fifo
  imports Prelude
begin

text \<open>
  The contract of a bounded first-in-first-out queue, and what a client of one can rely
  on. The queue is used by one caller at a time; a call that would have to wait is
  \<open>Blocked\<close>.
\<close>

datatype 'e queue_op = Enq 'e | Deq

text \<open>A client's run: a list of operations, the elements that came out in order.\<close>

fun run_ops :: "('e \<Rightarrow> ('q, int) prog) \<Rightarrow> ('q, 'e option) prog \<Rightarrow> 'e queue_op list \<Rightarrow> ('q, 'e list) prog" where
  "run_ops enq deq [] = ret []"
| "run_ops enq deq (Enq e # ops) = bind (enq e) (\<lambda>r. if r = 0 then run_ops enq deq ops else stop (Panic ''enqueue''))"
| "run_ops enq deq (Deq # ops) = bind deq (\<lambda>x. case x of None \<Rightarrow> stop (Panic ''dequeue'')
     | Some e \<Rightarrow> bind (run_ops enq deq ops) (\<lambda>es. ret (e # es)))"

text \<open>The same run on a list.\<close>

fun list_ops :: "nat \<Rightarrow> 'e list \<Rightarrow> 'e queue_op list \<Rightarrow> ('e list \<times> 'e list) option" where
  "list_ops cap xs [] = Some ([], xs)"
| "list_ops cap xs (Enq e # ops) = (if length xs < cap then list_ops cap (xs @ [e]) ops else None)"
| "list_ops cap xs (Deq # ops) = (case xs of [] \<Rightarrow> None
     | x # ys \<Rightarrow> map_option (\<lambda>(es, zs). (x # es, zs)) (list_ops cap ys ops))"

locale bounded_fifo =
  fixes enq :: "'e \<Rightarrow> ('q, int) prog" and deq :: "('q, 'e option) prog"
    and cap :: "'q \<Rightarrow> nat" and items :: "'q \<Rightarrow> 'e list" and ok :: "'q \<Rightarrow> bool"
  assumes enq_room: "ok q \<Longrightarrow> length (items q) < cap q \<Longrightarrow>
      wp (enq e) (\<lambda>r q'. r = 0 \<and> ok q' \<and> cap q' = cap q \<and> items q' = items q @ [e]) q"
    and enq_full: "ok q \<Longrightarrow> length (items q) = cap q \<Longrightarrow> enq e q = Inl Blocked"
    and deq_some: "ok q \<Longrightarrow> items q = x # xs \<Longrightarrow>
      wp deq (\<lambda>r q'. r = Some x \<and> ok q' \<and> cap q' = cap q \<and> items q' = xs) q"
    and deq_empty: "ok q \<Longrightarrow> items q = [] \<Longrightarrow> deq q = Inl Blocked"
    and bounded: "ok q \<Longrightarrow> length (items q) \<le> cap q"
begin

text \<open>A run whose list run goes through delivers what the list run delivers.\<close>

lemma run_list:
  assumes "ok q" "list_ops (cap q) (items q) ops = Some (out, rest)"
  shows "wp (run_ops enq deq ops) (\<lambda>r q'. r = out \<and> ok q' \<and> cap q' = cap q \<and> items q' = rest) q"
  using assms
proof (induction ops arbitrary: q out)
  case Nil
  then show ?case by (simp add: wp_simps)
next
  case (Cons op ops)
  show ?case
  proof (cases op)
    case (Enq e)
    then have "length (items q) < cap q" and l: "list_ops (cap q) (items q @ [e]) ops = Some (out, rest)"
      using Cons.prems(2) by (auto split: if_splits)
    have "wp (enq e) (\<lambda>r q'. wp (if r = 0 then run_ops enq deq ops else stop (Panic ''enqueue''))
        (\<lambda>r q'. r = out \<and> ok q' \<and> cap q' = cap q \<and> items q' = rest) q') q"
    proof (rule wp_mono [OF enq_room [OF Cons.prems(1) \<open>length (items q) < cap q\<close>, of e]])
      fix r q' assume "r = 0 \<and> ok q' \<and> cap q' = cap q \<and> items q' = items q @ [e]"
      then show "wp (if r = 0 then run_ops enq deq ops else stop (Panic ''enqueue''))
          (\<lambda>r q'. r = out \<and> ok q' \<and> cap q' = cap q \<and> items q' = rest) q'"
        using Cons.IH [of q' out] l by simp
    qed
    then show ?thesis by (simp only: Enq run_ops.simps wp_bind)
  next
    case Deq
    then obtain x xs es where i: "items q = x # xs" and l: "list_ops (cap q) xs ops = Some (es, rest)"
      and out: "out = x # es"
      using Cons.prems(2) by (auto split: list.splits)
    have "wp deq (\<lambda>r q'. wp (case r of None \<Rightarrow> stop (Panic ''dequeue'')
          | Some e \<Rightarrow> bind (run_ops enq deq ops) (\<lambda>es. ret (e # es)))
        (\<lambda>r q'. r = out \<and> ok q' \<and> cap q' = cap q \<and> items q' = rest) q') q"
    proof (rule wp_mono [OF deq_some [OF Cons.prems(1) i]])
      fix r q' assume "r = Some x \<and> ok q' \<and> cap q' = cap q \<and> items q' = xs"
      then have "wp (run_ops enq deq ops) (\<lambda>r q'. r = es \<and> ok q' \<and> cap q' = cap q \<and> items q' = rest) q'"
        and "r = Some x"
        using Cons.IH [of q' es] l by auto
      then show "wp (case r of None \<Rightarrow> stop (Panic ''dequeue'')
          | Some e \<Rightarrow> bind (run_ops enq deq ops) (\<lambda>es. ret (e # es)))
        (\<lambda>r q'. r = out \<and> ok q' \<and> cap q' = cap q \<and> items q' = rest) q'"
        using out by (auto simp: wp_simps elim!: wp_mono)
    qed
    then show ?thesis by (simp only: Deq run_ops.simps wp_bind)
  qed
qed

text \<open>First in, first out: what was enqueued comes out in the same order.\<close>

lemma list_ops_append:
  "list_ops n xs (a @ b) = (case list_ops n xs a of None \<Rightarrow> None
     | Some (es, ys) \<Rightarrow> map_option (\<lambda>(fs, zs). (es @ fs, zs)) (list_ops n ys b))"
proof (induction n xs a rule: list_ops.induct)
  case (1 n xs)
  then show ?case by (cases "list_ops n xs b") auto
next
  case (2 n xs e ops)
  then show ?case by simp
next
  case (3 n xs ops)
  show ?case
  proof (cases xs)
    case (Cons x ys)
    then show ?thesis
      using 3 [OF Cons] by (cases "list_ops n ys ops") (auto simp: option.map_comp comp_def intro!: option.map_cong0)
  qed simp
qed

lemma list_enq_all:
  "length xs + length es \<le> n \<Longrightarrow> list_ops n xs (map Enq es) = Some ([], xs @ es)"
  by (induction es arbitrary: xs) auto

lemma list_deq_all: "list_ops n xs (replicate (length xs) Deq) = Some (xs, [])"
  by (induction xs) auto

lemma fifo_order:
  assumes "ok q" "items q = []" "length es \<le> cap q"
  shows "wp (run_ops enq deq (map Enq es @ replicate (length es) Deq)) (\<lambda>r q'. r = es \<and> items q' = []) q"
proof -
  have "list_ops (cap q) (items q) (map Enq es @ replicate (length es) Deq) = Some (es, [])"
    using assms(2,3) by (simp add: list_ops_append list_enq_all list_deq_all)
  from run_list [OF assms(1) this] show ?thesis by (auto elim: wp_mono)
qed

end

end
