(* ===== verification/Pcq.thy ===== *)
theory Pcq
  imports CMem Fifo
begin

text \<open>
  producer-consumer/producer-consumer.c: the bounded queue between the broker's main
  thread and its sessions, as one call at a time sees it. The queue is a ring buffer with
  five mutexes and two condition variables; every call of the pthread library is a
  branch of the model as the code has it (the creation functions can fail, the others
  return 0 on an object that is in order and are undefined on one that is not). A wait on
  a condition, which only another thread can end, is \<open>Blocked\<close> here, so that the loop around
  it is left at once or not at all; the interleaving of several threads is the subject
  of \<open>PcqConc\<close>.
\<close>

section \<open>Data\<close>

datatype pcq_lock = Current_size_lock | Head_lock | Tail_lock | Pusher_condvar_lock | Popper_condvar_lock

datatype pcq_cond = Pusher_condvar | Popper_condvar

text \<open>The locks and conditions of a queue are finitely many, so states can be compared.\<close>

instantiation pcq_lock :: enum
begin

definition enum_pcq_lock :: "pcq_lock list" where
  "enum_pcq_lock = [Current_size_lock, Head_lock, Tail_lock, Pusher_condvar_lock, Popper_condvar_lock]"

definition enum_all_pcq_lock :: "(pcq_lock \<Rightarrow> bool) \<Rightarrow> bool" where
  "enum_all_pcq_lock P \<longleftrightarrow> list_all P Enum.enum"

definition enum_ex_pcq_lock :: "(pcq_lock \<Rightarrow> bool) \<Rightarrow> bool" where
  "enum_ex_pcq_lock P \<longleftrightarrow> list_ex P Enum.enum"

instance
proof
  show all: "(UNIV :: pcq_lock set) = set Enum.enum"
    using pcq_lock.exhaust by (auto simp: enum_pcq_lock_def)
  show "distinct (Enum.enum :: pcq_lock list)" by (simp add: enum_pcq_lock_def)
  show "Enum.enum_all P \<longleftrightarrow> Ball UNIV P" for P :: "pcq_lock \<Rightarrow> bool"
    by (simp add: enum_all_pcq_lock_def list_all_iff all)
  show "Enum.enum_ex P \<longleftrightarrow> Bex UNIV P" for P :: "pcq_lock \<Rightarrow> bool"
    by (simp add: enum_ex_pcq_lock_def list_ex_iff all)
qed

end

instantiation pcq_cond :: enum
begin

definition enum_pcq_cond :: "pcq_cond list" where
  "enum_pcq_cond = [Pusher_condvar, Popper_condvar]"

definition enum_all_pcq_cond :: "(pcq_cond \<Rightarrow> bool) \<Rightarrow> bool" where
  "enum_all_pcq_cond P \<longleftrightarrow> list_all P Enum.enum"

definition enum_ex_pcq_cond :: "(pcq_cond \<Rightarrow> bool) \<Rightarrow> bool" where
  "enum_ex_pcq_cond P \<longleftrightarrow> list_ex P Enum.enum"

instance
proof
  show all: "(UNIV :: pcq_cond set) = set Enum.enum"
    using pcq_cond.exhaust by (auto simp: enum_pcq_cond_def)
  show "distinct (Enum.enum :: pcq_cond list)" by (simp add: enum_pcq_cond_def)
  show "Enum.enum_all P \<longleftrightarrow> Ball UNIV P" for P :: "pcq_cond \<Rightarrow> bool"
    by (simp add: enum_all_pcq_cond_def list_all_iff all)
  show "Enum.enum_ex P \<longleftrightarrow> Bex UNIV P" for P :: "pcq_cond \<Rightarrow> bool"
    by (simp add: enum_ex_pcq_cond_def list_ex_iff all)
qed

end

datatype lock_state = Dead | Unlocked | Locked

record 'e pc_queue =
  pcq_buffer :: "'e list option"
  pcq_capacity :: u64
  pcq_current_size :: u64
  pcq_head :: u64
  pcq_tail :: u64
  pcq_locks :: "pcq_lock \<Rightarrow> lock_state"
  pcq_conds :: "pcq_cond \<Rightarrow> bool"

type_synonym ('e, 'a) pcq = "('e pc_queue, 'a) prog"

text \<open>The outcome of \<open>malloc\<close>, and which call of an initialisation function fails.\<close>

record 'e pcq_env =
  buffer_null :: bool
  buffer_junk :: "nat \<Rightarrow> 'e"
  lock_init_fails :: "pcq_lock \<Rightarrow> bool"
  cond_init_fails :: "pcq_cond \<Rightarrow> bool"

section \<open>The pthread objects\<close>

definition mutex_init :: "'e pcq_env \<Rightarrow> pcq_lock \<Rightarrow> ('e, int) pcq" where
  "mutex_init env l = (\<lambda>q. if lock_init_fails env l then Inr (12, q)
     else Inr (0, q\<lparr>pcq_locks := (pcq_locks q)(l := Unlocked)\<rparr>))"

definition mutex_destroy :: "pcq_lock \<Rightarrow> ('e, unit) pcq" where
  "mutex_destroy l = (\<lambda>q. if pcq_locks q l = Unlocked
     then Inr ((), q\<lparr>pcq_locks := (pcq_locks q)(l := Dead)\<rparr>) else Inl Undef)"

definition mutex_lock :: "pcq_lock \<Rightarrow> ('e, int) pcq" where
  "mutex_lock l = (\<lambda>q. case pcq_locks q l of Dead \<Rightarrow> Inl Undef | Locked \<Rightarrow> Inl Blocked
     | Unlocked \<Rightarrow> Inr (0, q\<lparr>pcq_locks := (pcq_locks q)(l := Locked)\<rparr>))"

definition mutex_unlock :: "pcq_lock \<Rightarrow> ('e, int) pcq" where
  "mutex_unlock l = (\<lambda>q. if pcq_locks q l = Locked
     then Inr (0, q\<lparr>pcq_locks := (pcq_locks q)(l := Unlocked)\<rparr>) else Inl Undef)"

definition cond_init :: "'e pcq_env \<Rightarrow> pcq_cond \<Rightarrow> ('e, int) pcq" where
  "cond_init env c = (\<lambda>q. if cond_init_fails env c then Inr (12, q)
     else Inr (0, q\<lparr>pcq_conds := (pcq_conds q)(c := True)\<rparr>))"

definition cond_destroy :: "pcq_cond \<Rightarrow> ('e, unit) pcq" where
  "cond_destroy c = (\<lambda>q. if pcq_conds q c
     then Inr ((), q\<lparr>pcq_conds := (pcq_conds q)(c := False)\<rparr>) else Inl Undef)"

text \<open>A signal without a waiter has no effect; a wait has to be ended by another thread.\<close>

definition cond_signal :: "pcq_cond \<Rightarrow> ('e, int) pcq" where
  "cond_signal c = (\<lambda>q. if pcq_conds q c then Inr (0, q) else Inl Undef)"

definition cond_wait :: "pcq_cond \<Rightarrow> pcq_lock \<Rightarrow> ('e, int) pcq" where
  "cond_wait c l = (\<lambda>q. if pcq_conds q c \<and> pcq_locks q l = Locked then Inl Blocked else Inl Undef)"

definition free_buffer :: "('e, unit) pcq" where
  "free_buffer = modify (pcq_buffer_update (\<lambda>_. None))"

section \<open>The operations\<close>

definition pcq_create :: "'e pcq_env \<Rightarrow> u64 \<Rightarrow> ('e, int) pcq" where
  "pcq_create env capacity =
     (if capacity = 0 then ret (- 1)
      else
        andthen (modify (\<lambda>q. q\<lparr>pcq_capacity := capacity, pcq_current_size := 0, pcq_head := 0, pcq_tail := 0\<rparr>))
        (if buffer_null env then ret (- 1)
         else
           andthen (modify (pcq_buffer_update (\<lambda>_.
                      Some (map (buffer_junk env) [0..<unat (capacity * 8) div 8]))))
           (bind (mutex_init env Current_size_lock) (\<lambda>r.
            if r \<noteq> 0 then andthen free_buffer (ret (- 1))
            else bind (mutex_init env Head_lock) (\<lambda>r.
            if r \<noteq> 0 then
              andthen free_buffer (andthen (mutex_destroy Current_size_lock) (ret (- 1)))
            else bind (mutex_init env Tail_lock) (\<lambda>r.
            if r \<noteq> 0 then
              andthen free_buffer (andthen (mutex_destroy Current_size_lock)
              (andthen (mutex_destroy Head_lock) (ret (- 1))))
            else bind (mutex_init env Pusher_condvar_lock) (\<lambda>r.
            if r \<noteq> 0 then
              andthen free_buffer (andthen (mutex_destroy Current_size_lock)
              (andthen (mutex_destroy Head_lock) (andthen (mutex_destroy Tail_lock) (ret (- 1)))))
            else bind (mutex_init env Popper_condvar_lock) (\<lambda>r.
            if r \<noteq> 0 then
              andthen free_buffer (andthen (mutex_destroy Current_size_lock)
              (andthen (mutex_destroy Head_lock) (andthen (mutex_destroy Tail_lock)
              (andthen (mutex_destroy Pusher_condvar_lock) (ret (- 1))))))
            else bind (cond_init env Pusher_condvar) (\<lambda>r.
            if r \<noteq> 0 then
              andthen free_buffer (andthen (mutex_destroy Current_size_lock)
              (andthen (mutex_destroy Head_lock) (andthen (mutex_destroy Tail_lock)
              (andthen (mutex_destroy Pusher_condvar_lock)
              (andthen (mutex_destroy Popper_condvar_lock) (ret (- 1)))))))
            else bind (cond_init env Popper_condvar) (\<lambda>r.
            if r \<noteq> 0 then
              andthen free_buffer (andthen (mutex_destroy Current_size_lock)
              (andthen (mutex_destroy Head_lock) (andthen (mutex_destroy Tail_lock)
              (andthen (mutex_destroy Pusher_condvar_lock)
              (andthen (mutex_destroy Popper_condvar_lock)
              (andthen (cond_destroy Pusher_condvar) (ret (- 1))))))))
            else ret 0))))))))))"

definition pcq_destroy :: "('e, int) pcq" where
  "pcq_destroy =
     andthen free_buffer (andthen (mutex_destroy Current_size_lock)
     (andthen (mutex_destroy Head_lock) (andthen (mutex_destroy Tail_lock)
     (andthen (mutex_destroy Pusher_condvar_lock) (andthen (mutex_destroy Popper_condvar_lock)
     (andthen (cond_destroy Pusher_condvar) (andthen (cond_destroy Popper_condvar) (ret 0))))))))"

definition pcq_enqueue :: "'e \<Rightarrow> ('e, int) pcq" where
  "pcq_enqueue elem =
     bind (mutex_lock Pusher_condvar_lock) (\<lambda>r. if r = - 1 then ret (- 1) else
     bind (gets (\<lambda>q. pcq_current_size q = pcq_capacity q)) (\<lambda>full.
     bind (if full then cond_wait Pusher_condvar Pusher_condvar_lock else ret 0) (\<lambda>r.
     if r = - 1 then bind (mutex_unlock Pusher_condvar_lock) (\<lambda>_. ret (- 1)) else
     bind (mutex_unlock Pusher_condvar_lock) (\<lambda>r. if r = - 1 then ret (- 1) else
     bind (mutex_lock Tail_lock) (\<lambda>r. if r = - 1 then ret (- 1) else
     bind (gets pcq_tail) (\<lambda>tail.
     andthen (wr pcq_buffer pcq_buffer_update (unat tail) elem)
     (andthen (modify (\<lambda>q. q\<lparr>pcq_tail := (pcq_tail q + 1) mod pcq_capacity q\<rparr>))
     (bind (mutex_unlock Tail_lock) (\<lambda>r. if r = - 1 then ret (- 1) else
     bind (mutex_lock Current_size_lock) (\<lambda>r. if r = - 1 then ret (- 1) else
     andthen (modify (\<lambda>q. q\<lparr>pcq_current_size := pcq_current_size q + 1\<rparr>))
     (bind (mutex_unlock Current_size_lock) (\<lambda>r. if r = - 1 then ret (- 1) else
     bind (mutex_lock Popper_condvar_lock) (\<lambda>r. if r = - 1 then ret (- 1) else
     bind (cond_signal Popper_condvar) (\<lambda>r.
     if r = - 1 then bind (mutex_unlock Popper_condvar_lock) (\<lambda>_. ret (- 1)) else
     bind (mutex_unlock Popper_condvar_lock) (\<lambda>r. if r = - 1 then ret (- 1) else
     ret 0)))))))))))))))"

text \<open>The element, or \<open>None\<close> for the \<open>NULL\<close> of a failed lock operation.\<close>

definition pcq_dequeue :: "('e, 'e option) pcq" where
  "pcq_dequeue =
     bind (mutex_lock Popper_condvar_lock) (\<lambda>r. if r = - 1 then ret None else
     bind (gets (\<lambda>q. pcq_current_size q = 0)) (\<lambda>empty.
     bind (if empty then cond_wait Popper_condvar Popper_condvar_lock else ret 0) (\<lambda>r.
     if r = - 1 then bind (mutex_unlock Popper_condvar_lock) (\<lambda>_. ret None) else
     bind (mutex_unlock Popper_condvar_lock) (\<lambda>r. if r = - 1 then ret None else
     bind (mutex_lock Head_lock) (\<lambda>r. if r = - 1 then ret None else
     bind (gets pcq_head) (\<lambda>head.
     bind (rd pcq_buffer (unat head)) (\<lambda>elem.
     andthen (modify (\<lambda>q. q\<lparr>pcq_head := (pcq_head q + 1) mod pcq_capacity q\<rparr>))
     (bind (mutex_unlock Head_lock) (\<lambda>r. if r = - 1 then ret None else
     bind (mutex_lock Current_size_lock) (\<lambda>r. if r = - 1 then ret None else
     andthen (modify (\<lambda>q. q\<lparr>pcq_current_size := pcq_current_size q - 1\<rparr>))
     (bind (mutex_unlock Current_size_lock) (\<lambda>r. if r = - 1 then ret None else
     bind (mutex_lock Pusher_condvar_lock) (\<lambda>r. if r = - 1 then ret None else
     bind (cond_signal Pusher_condvar) (\<lambda>r.
     if r = - 1 then bind (mutex_unlock Pusher_condvar_lock) (\<lambda>_. ret None) else
     bind (mutex_unlock Pusher_condvar_lock) (\<lambda>r. if r = - 1 then ret None else
     ret (Some elem))))))))))))))))"

section \<open>One call at a time\<close>

text \<open>A queue in order: the buffer has the capacity's size, the counters are in range and
  agree, and every pthread object is initialised and not held.\<close>

definition pcq_ok :: "'e pc_queue \<Rightarrow> bool" where
  "pcq_ok q \<longleftrightarrow> (case pcq_buffer q of None \<Rightarrow> False | Some xs \<Rightarrow> length xs = unat (pcq_capacity q)) \<and>
     0 < pcq_capacity q \<and> pcq_head q < pcq_capacity q \<and> pcq_tail q < pcq_capacity q \<and>
     pcq_current_size q \<le> pcq_capacity q \<and>
     unat (pcq_tail q) = (unat (pcq_head q) + unat (pcq_current_size q)) mod unat (pcq_capacity q) \<and>
     pcq_locks q = (\<lambda>_. Unlocked) \<and> pcq_conds q = (\<lambda>_. True)"

definition pcq_cap :: "'e pc_queue \<Rightarrow> nat" where
  "pcq_cap q = unat (pcq_capacity q)"

definition pcq_items :: "'e pc_queue \<Rightarrow> 'e list" where
  "pcq_items q = map (\<lambda>k. the (pcq_buffer q) ! ((unat (pcq_head q) + k) mod unat (pcq_capacity q)))
     [0..<unat (pcq_current_size q)]"

lemma all_unlocked [simp]: "(\<lambda>_. Unlocked)(l := Unlocked) = (\<lambda>_. Unlocked)"
  by auto

lemma length_pcq_items [simp]: "length (pcq_items q) = unat (pcq_current_size q)"
  by (simp add: pcq_items_def)

lemma pcq_okD:
  assumes "pcq_ok q"
  obtains xs where "pcq_buffer q = Some xs" "length xs = pcq_cap q" "0 < pcq_cap q"
    "unat (pcq_head q) < pcq_cap q" "unat (pcq_tail q) < pcq_cap q"
    "unat (pcq_current_size q) \<le> pcq_cap q"
    "unat (pcq_tail q) = (unat (pcq_head q) + unat (pcq_current_size q)) mod pcq_cap q"
    "pcq_locks q = (\<lambda>_. Unlocked)" "pcq_conds q = (\<lambda>_. True)"
  using assms by (auto simp: pcq_ok_def pcq_cap_def word_less_nat_alt word_le_nat_alt split: option.splits)

text \<open>The counters: no sum or difference wraps around.\<close>

lemma ring_next:
  fixes i c :: u64
  assumes "unat i < unat c"
  shows "unat ((i + 1) mod c) = (unat i + 1) mod unat c" "unat ((i + 1) mod c) < unat c"
proof -
  have "unat c < 2 ^ 64" using unsigned_less [of c] by simp
  then have "unat (i + 1) = unat i + 1" using assms by (simp add: unat_word_ariths)
  then show "unat ((i + 1) mod c) = (unat i + 1) mod unat c" by (simp add: unat_mod)
  then show "unat ((i + 1) mod c) < unat c" using assms by simp
qed

lemma size_up:
  fixes n c :: u64 assumes "unat n < unat c" shows "unat (n + 1) = unat n + 1"
proof -
  have "unat c < 2 ^ 64" using unsigned_less [of c] by simp
  then show ?thesis using assms by (simp add: unat_word_ariths)
qed

lemma size_down:
  fixes n :: u64 assumes "0 < unat n" shows "unat (n - 1) = unat n - 1"
  using assms unat_sub [of 1 n] by (simp add: word_le_nat_alt)

definition pushed_queue :: "'e \<Rightarrow> 'e pc_queue \<Rightarrow> 'e pc_queue" where
  "pushed_queue e q = q\<lparr>pcq_buffer := Some ((the (pcq_buffer q))[unat (pcq_tail q) := e]),
     pcq_tail := (pcq_tail q + 1) mod pcq_capacity q, pcq_current_size := pcq_current_size q + 1\<rparr>"

definition popped_queue :: "'e pc_queue \<Rightarrow> 'e pc_queue" where
  "popped_queue q = q\<lparr>pcq_head := (pcq_head q + 1) mod pcq_capacity q,
     pcq_current_size := pcq_current_size q - 1\<rparr>"

lemmas pthread_defs = mutex_lock_def mutex_unlock_def cond_signal_def cond_wait_def

lemma pcq_enqueue_eq:
  assumes "pcq_ok q"
  shows "pcq_enqueue e q = (if unat (pcq_current_size q) < pcq_cap q then Inr (0, pushed_queue e q) else Inl Blocked)"
proof -
  from assms obtain xs where xs: "pcq_buffer q = Some xs" "length xs = pcq_cap q"
    "unat (pcq_tail q) < pcq_cap q" "unat (pcq_current_size q) \<le> pcq_cap q"
    "pcq_locks q = (\<lambda>_. Unlocked)" "pcq_conds q = (\<lambda>_. True)" by (rule pcq_okD) blast
  have full: "pcq_current_size q = pcq_capacity q \<longleftrightarrow> \<not> unat (pcq_current_size q) < pcq_cap q"
    using xs(4) by (auto simp: pcq_cap_def word_unat_eq_iff)
  show ?thesis
    using xs by (simp add: pcq_enqueue_def prog_simps pthread_defs wr_def full pushed_queue_def)
qed

lemma pcq_dequeue_eq:
  assumes "pcq_ok q"
  shows "pcq_dequeue q = (if pcq_current_size q = 0 then Inl Blocked
    else Inr (Some (the (pcq_buffer q) ! unat (pcq_head q)), popped_queue q))"
proof -
  from assms obtain xs where xs: "pcq_buffer q = Some xs" "length xs = pcq_cap q"
    "unat (pcq_head q) < pcq_cap q"
    "pcq_locks q = (\<lambda>_. Unlocked)" "pcq_conds q = (\<lambda>_. True)" by (rule pcq_okD) blast
  then show ?thesis
    by (simp add: pcq_dequeue_def prog_simps pthread_defs rd_def popped_queue_def)
qed

lemma pushed_queue_ok:
  assumes "pcq_ok q" "unat (pcq_current_size q) < pcq_cap q"
  shows "pcq_ok (pushed_queue e q)" "pcq_cap (pushed_queue e q) = pcq_cap q"
    "pcq_items (pushed_queue e q) = pcq_items q @ [e]"
proof -
  from assms(1) obtain xs where xs: "pcq_buffer q = Some xs" "length xs = pcq_cap q" "0 < pcq_cap q"
    "unat (pcq_head q) < pcq_cap q" "unat (pcq_tail q) < pcq_cap q"
    "unat (pcq_tail q) = (unat (pcq_head q) + unat (pcq_current_size q)) mod pcq_cap q"
    "pcq_locks q = (\<lambda>_. Unlocked)" "pcq_conds q = (\<lambda>_. True)" by (rule pcq_okD) blast
  note up = size_up [of "pcq_current_size q" "pcq_capacity q"] ring_next [of "pcq_tail q" "pcq_capacity q"]
  show c: "pcq_cap (pushed_queue e q) = pcq_cap q" by (simp add: pushed_queue_def pcq_cap_def)
  show "pcq_ok (pushed_queue e q)"
    using xs up assms(2)
    by (auto simp: pcq_ok_def pushed_queue_def pcq_cap_def word_less_nat_alt word_le_nat_alt mod_Suc_eq)
  have "(unat (pcq_head q) + k) mod pcq_cap q \<noteq> unat (pcq_tail q)" if "k < unat (pcq_current_size q)" for k
    unfolding xs(6) by (rule mod_distinct) (use that assms(2) in simp_all)
  then show "pcq_items (pushed_queue e q) = pcq_items q @ [e]"
    using xs up(1) assms(2)
    by (auto simp: pcq_items_def pushed_queue_def pcq_cap_def nth_upd)
qed

lemma popped_queue_ok:
  assumes "pcq_ok q" "pcq_current_size q \<noteq> 0"
  shows "pcq_ok (popped_queue q)" "pcq_cap (popped_queue q) = pcq_cap q"
    "pcq_items q = the (pcq_buffer q) ! unat (pcq_head q) # pcq_items (popped_queue q)"
proof -
  from assms(1) obtain xs where xs: "pcq_buffer q = Some xs" "length xs = pcq_cap q" "0 < pcq_cap q"
    "unat (pcq_head q) < pcq_cap q" "unat (pcq_tail q) < pcq_cap q" "unat (pcq_current_size q) \<le> pcq_cap q"
    "unat (pcq_tail q) = (unat (pcq_head q) + unat (pcq_current_size q)) mod pcq_cap q"
    "pcq_locks q = (\<lambda>_. Unlocked)" "pcq_conds q = (\<lambda>_. True)" by (rule pcq_okD) blast
  have pos: "0 < unat (pcq_current_size q)" using assms(2) by (simp add: unat_gt_0)
  note dn = size_down [OF pos] ring_next [of "pcq_head q" "pcq_capacity q"]
  show "pcq_cap (popped_queue q) = pcq_cap q" by (simp add: popped_queue_def pcq_cap_def)
  have sum: "((unat (pcq_head q) + 1) mod pcq_cap q + (unat (pcq_current_size q) - 1)) mod pcq_cap q =
      unat (pcq_tail q)"
  proof -
    obtain m where "unat (pcq_current_size q) = Suc m" using pos by (cases "unat (pcq_current_size q)") auto
    then show ?thesis by (simp add: xs(7) mod_add_left_eq)
  qed
  show "pcq_ok (popped_queue q)"
    using xs dn sum
    by (auto simp: pcq_ok_def popped_queue_def pcq_cap_def word_less_nat_alt word_le_nat_alt)
  have "[0..<unat (pcq_current_size q)] = 0 # map Suc [0..<unat (pcq_current_size q) - 1]"
    using pos by (simp add: upt_conv_Cons map_Suc_upt)
  then show "pcq_items q = the (pcq_buffer q) ! unat (pcq_head q) # pcq_items (popped_queue q)"
    using xs(4) dn
    by (simp add: pcq_items_def popped_queue_def pcq_cap_def mod_add_left_eq comp_def)
qed

interpretation pcq: bounded_fifo pcq_enqueue pcq_dequeue pcq_cap pcq_items pcq_ok
proof
  fix q :: "'e pc_queue" and e x xs
  assume ok: "pcq_ok q"
  show "length (pcq_items q) \<le> pcq_cap q" using ok by (rule pcq_okD) simp
  show "wp (pcq_enqueue e) (\<lambda>r q'. r = 0 \<and> pcq_ok q' \<and> pcq_cap q' = pcq_cap q \<and> pcq_items q' = pcq_items q @ [e]) q"
    if "length (pcq_items q) < pcq_cap q"
    using that pushed_queue_ok [OF ok] by (simp add: wp_def pcq_enqueue_eq [OF ok])
  show "pcq_enqueue e q = Inl Blocked" if "length (pcq_items q) = pcq_cap q"
    using that by (simp add: pcq_enqueue_eq [OF ok])
  show "wp pcq_dequeue (\<lambda>r q'. r = Some x \<and> pcq_ok q' \<and> pcq_cap q' = pcq_cap q \<and> pcq_items q' = xs) q"
    if "pcq_items q = x # xs"
  proof -
    have "pcq_current_size q \<noteq> 0" using that length_pcq_items [of q] by auto
    with popped_queue_ok [OF ok this] that show ?thesis by (simp add: wp_def pcq_dequeue_eq [OF ok])
  qed
  show "pcq_dequeue q = Inl Blocked" if "pcq_items q = []"
  proof -
    have "pcq_current_size q = 0" using that length_pcq_items [of q] by (simp add: unat_eq_zero)
    then show ?thesis by (simp add: pcq_dequeue_eq [OF ok])
  qed
qed

section \<open>Creation and destruction\<close>

definition pcq_dead :: "'e pc_queue \<Rightarrow> bool" where
  "pcq_dead q \<longleftrightarrow> pcq_buffer q = None \<and> pcq_locks q = (\<lambda>_. Dead) \<and> pcq_conds q = (\<lambda>_. False)"

lemma fun_upd_same: "f x = v \<Longrightarrow> f(x := v) = f"
  by auto

lemma lock_fun_eq: "f = (\<lambda>_. v) \<longleftrightarrow> f Current_size_lock = v \<and> f Head_lock = v \<and> f Tail_lock = v \<and>
    f Pusher_condvar_lock = v \<and> f Popper_condvar_lock = v"
proof
  assume r: "f Current_size_lock = v \<and> f Head_lock = v \<and> f Tail_lock = v \<and>
    f Pusher_condvar_lock = v \<and> f Popper_condvar_lock = v"
  show "f = (\<lambda>_. v)"
  proof
    fix l show "f l = v" using r by (cases l) simp_all
  qed
qed simp

lemma cond_fun_eq: "f = (\<lambda>_. v) \<longleftrightarrow> f Pusher_condvar = v \<and> f Popper_condvar = v"
proof
  assume r: "f Pusher_condvar = v \<and> f Popper_condvar = v"
  show "f = (\<lambda>_. v)"
  proof
    fix l show "f l = v" using r by (cases l) simp_all
  qed
qed simp

lemma lock_ex: "(\<exists>l. P l) \<longleftrightarrow> P Current_size_lock \<or> P Head_lock \<or> P Tail_lock \<or>
    P Pusher_condvar_lock \<or> P Popper_condvar_lock"
  by (auto elim: pcq_lock.exhaust) (metis pcq_lock.exhaust)

lemma cond_ex: "(\<exists>c. P c) \<longleftrightarrow> P Pusher_condvar \<or> P Popper_condvar"
  by (auto elim: pcq_cond.exhaust) (metis pcq_cond.exhaust)

lemma buffer_length:
  fixes capacity :: u64
  assumes "unat capacity < 2 ^ 61"
  shows "unat (capacity * 8) div 8 = unat capacity"
proof -
  have "unat capacity * 8 < 2 ^ 64" using assms by simp
  then have "unat (capacity * 8) = unat capacity * 8" by (simp add: unat_word_ariths)
  then show ?thesis by simp
qed

lemma pcq_create_cases:
  assumes "pcq_dead q" "unat capacity < 2 ^ 61"
  shows "wp (pcq_create env capacity) (\<lambda>r q'.
    if capacity = 0 \<or> buffer_null env \<or> (\<exists>l. lock_init_fails env l) \<or> (\<exists>c. cond_init_fails env c)
    then r = - 1 \<and> pcq_dead q'
    else r = 0 \<and> pcq_ok q' \<and> pcq_items q' = [] \<and> pcq_cap q' = unat capacity \<and> pcq_head q' = 0) q"
proof (cases "capacity = 0 \<or> buffer_null env")
  case True
  then show ?thesis using assms(1) by (auto simp: wp_def pcq_create_def prog_simps pcq_dead_def)
next
  case nf: False
  then have pos: "0 < capacity" by (simp add: word_gt_0)
  show ?thesis
  proof (cases "(\<exists>l. lock_init_fails env l) \<or> (\<exists>c. cond_init_fails env c)")
    case False
    then show ?thesis
      using assms nf pos buffer_length [OF assms(2)]
      by (simp add: wp_def pcq_create_def prog_simps mutex_init_def cond_init_def pcq_dead_def pcq_ok_def
          pcq_items_def pcq_cap_def lock_fun_eq cond_fun_eq)
  next
    case True
    let ?l = "lock_init_fails env" and ?c = "cond_init_fails env"
    have "?l Current_size_lock \<or> ?l Head_lock \<or> ?l Tail_lock \<or> ?l Pusher_condvar_lock \<or>
        ?l Popper_condvar_lock \<or> ?c Pusher_condvar \<or> ?c Popper_condvar"
      using True by (simp add: lock_ex cond_ex disj_assoc)
    then consider "?l Current_size_lock" | "\<not> ?l Current_size_lock" "?l Head_lock"
      | "\<not> ?l Current_size_lock" "\<not> ?l Head_lock" "?l Tail_lock"
      | "\<not> ?l Current_size_lock" "\<not> ?l Head_lock" "\<not> ?l Tail_lock" "?l Pusher_condvar_lock"
      | "\<not> ?l Current_size_lock" "\<not> ?l Head_lock" "\<not> ?l Tail_lock" "\<not> ?l Pusher_condvar_lock"
        "?l Popper_condvar_lock"
      | "\<not> ?l Current_size_lock" "\<not> ?l Head_lock" "\<not> ?l Tail_lock" "\<not> ?l Pusher_condvar_lock"
        "\<not> ?l Popper_condvar_lock" "?c Pusher_condvar"
      | "\<not> ?l Current_size_lock" "\<not> ?l Head_lock" "\<not> ?l Tail_lock" "\<not> ?l Pusher_condvar_lock"
        "\<not> ?l Popper_condvar_lock" "\<not> ?c Pusher_condvar" "?c Popper_condvar"
      by blast
    then have "wp (pcq_create env capacity) (\<lambda>r q'. r = - 1 \<and> pcq_dead q') q"
      by cases (use assms(1) nf in \<open>simp_all add: wp_def pcq_create_def prog_simps mutex_init_def
          cond_init_def mutex_destroy_def cond_destroy_def free_buffer_def pcq_dead_def lock_fun_eq cond_fun_eq\<close>)
    then show ?thesis using True by (simp add: wp_mono)
  qed
qed

lemma pcq_destroy_dead: "pcq_ok q \<Longrightarrow> wp pcq_destroy (\<lambda>r q'. r = 0 \<and> pcq_dead q') q"
  by (simp add: wp_def pcq_destroy_def prog_simps mutex_destroy_def cond_destroy_def free_buffer_def
      pcq_dead_def pcq_ok_def lock_fun_eq cond_fun_eq)

end
