(* ===== verification/PcqConc.thy ===== *)
theory PcqConc
  imports Pcq
begin

text \<open>
  Several threads inside \<open>pcq_enqueue\<close> and \<open>pcq_dequeue\<close> at once. A thread is at a
  location of one of the two functions (its name says what it does next, its arguments
  are the function's local variables) or outside both (\<open>Idle\<close>); a step runs one access
  to the queue or one pthread call of one thread. Memory is sequentially consistent; the
  unprotected reads of the size at the two checks, a data race in C, read the current
  value. A wait may end without a signal, as POSIX allows. A thread that would access the
  buffer outside its bounds has no step.
\<close>

section \<open>Locations and states\<close>

datatype 'e loc =
    Idle
  | E_lock_pusher 'e | E_check 'e | E_wait 'e | E_sleep 'e | E_wake 'e | E_unlock_pusher 'e
  | E_lock_tail 'e | E_store 'e | E_inc_tail 'e | E_unlock_tail | E_lock_size | E_inc_size
  | E_unlock_size | E_lock_popper | E_signal | E_unlock_popper
  | D_lock_popper | D_check | D_wait | D_sleep | D_wake | D_unlock_popper
  | D_lock_head | D_load | D_inc_head 'e | D_unlock_head 'e | D_lock_size 'e | D_dec_size 'e
  | D_unlock_size 'e | D_lock_pusher 'e | D_signal 'e | D_unlock_pusher 'e

text \<open>
  The queue, the threads' locations and two histories: the elements behind which the tail
  has moved, and the elements behind which the head has.
\<close>

record 'e conc =
  cq :: "'e pc_queue"
  threads :: "'e loc list"
  pushed :: "'e list"
  popped :: "'e list"

definition goto :: "nat \<Rightarrow> 'e loc \<Rightarrow> 'e conc \<Rightarrow> 'e conc" where
  "goto t l s = s\<lparr>threads := (threads s)[t := l]\<rparr>"

definition on_queue :: "('e pc_queue \<Rightarrow> 'e pc_queue) \<Rightarrow> 'e conc \<Rightarrow> 'e conc" where
  "on_queue f s = s\<lparr>cq := f (cq s)\<rparr>"

definition set_lock :: "pcq_lock \<Rightarrow> lock_state \<Rightarrow> 'e conc \<Rightarrow> 'e conc" where
  "set_lock l st = on_queue (\<lambda>q. q\<lparr>pcq_locks := (pcq_locks q)(l := st)\<rparr>)"

section \<open>Steps\<close>

definition acquire :: "nat \<Rightarrow> pcq_lock \<Rightarrow> 'e loc \<Rightarrow> 'e conc \<Rightarrow> 'e conc option" where
  "acquire t l next s =
     (if pcq_locks (cq s) l = Unlocked then Some (goto t next (set_lock l Locked s)) else None)"

definition release :: "nat \<Rightarrow> pcq_lock \<Rightarrow> 'e loc \<Rightarrow> 'e conc \<Rightarrow> 'e conc option" where
  "release t l next s =
     (if pcq_locks (cq s) l = Locked then Some (goto t next (set_lock l Unlocked s)) else None)"

fun asleep :: "pcq_cond \<Rightarrow> 'e loc \<Rightarrow> bool" where
  "asleep Pusher_condvar (E_sleep e) = True"
| "asleep Popper_condvar D_sleep = True"
| "asleep _ _ = False"

fun woken :: "'e loc \<Rightarrow> 'e loc" where
  "woken (E_sleep e) = E_wake e"
| "woken D_sleep = D_wake"
| "woken l = l"

text \<open>A signal wakes a thread that sleeps on the condition, \<open>w\<close>, and is lost if none does.\<close>

definition signal :: "nat \<Rightarrow> pcq_cond \<Rightarrow> nat \<Rightarrow> 'e loc \<Rightarrow> 'e conc \<Rightarrow> 'e conc option" where
  "signal w c t next s =
     (if list_ex (asleep c) (threads s)
      then if w < length (threads s) \<and> asleep c (threads s ! w)
           then Some (goto t next (goto w (woken (threads s ! w)) s)) else None
      else Some (goto t next s))"

definition thread_step :: "nat \<Rightarrow> nat \<Rightarrow> 'e conc \<Rightarrow> 'e conc option" where
  "thread_step w t s = (let q = cq s in case threads s ! t of
      Idle \<Rightarrow> None
    | E_lock_pusher e \<Rightarrow> acquire t Pusher_condvar_lock (E_check e) s
    | E_check e \<Rightarrow> Some (goto t (if pcq_current_size q = pcq_capacity q then E_wait e else E_unlock_pusher e) s)
    | E_wait e \<Rightarrow> release t Pusher_condvar_lock (E_sleep e) s
    | E_sleep e \<Rightarrow> None
    | E_wake e \<Rightarrow> acquire t Pusher_condvar_lock (E_check e) s
    | E_unlock_pusher e \<Rightarrow> release t Pusher_condvar_lock (E_lock_tail e) s
    | E_lock_tail e \<Rightarrow> acquire t Tail_lock (E_store e) s
    | E_store e \<Rightarrow> (case pcq_buffer q of None \<Rightarrow> None | Some xs \<Rightarrow>
          if unat (pcq_tail q) < length xs
          then Some (goto t (E_inc_tail e) (on_queue (\<lambda>q. q\<lparr>pcq_buffer := Some (xs[unat (pcq_tail q) := e])\<rparr>) s))
          else None)
    | E_inc_tail e \<Rightarrow> Some ((goto t E_unlock_tail (on_queue (\<lambda>q. q\<lparr>pcq_tail :=
          (pcq_tail q + 1) mod pcq_capacity q\<rparr>) s))\<lparr>pushed := pushed s @ [e]\<rparr>)
    | E_unlock_tail \<Rightarrow> release t Tail_lock E_lock_size s
    | E_lock_size \<Rightarrow> acquire t Current_size_lock E_inc_size s
    | E_inc_size \<Rightarrow> Some (goto t E_unlock_size (on_queue (\<lambda>q. q\<lparr>pcq_current_size := pcq_current_size q + 1\<rparr>) s))
    | E_unlock_size \<Rightarrow> release t Current_size_lock E_lock_popper s
    | E_lock_popper \<Rightarrow> acquire t Popper_condvar_lock E_signal s
    | E_signal \<Rightarrow> signal w Popper_condvar t E_unlock_popper s
    | E_unlock_popper \<Rightarrow> release t Popper_condvar_lock Idle s
    | D_lock_popper \<Rightarrow> acquire t Popper_condvar_lock D_check s
    | D_check \<Rightarrow> Some (goto t (if pcq_current_size q = 0 then D_wait else D_unlock_popper) s)
    | D_wait \<Rightarrow> release t Popper_condvar_lock D_sleep s
    | D_sleep \<Rightarrow> None
    | D_wake \<Rightarrow> acquire t Popper_condvar_lock D_check s
    | D_unlock_popper \<Rightarrow> release t Popper_condvar_lock D_lock_head s
    | D_lock_head \<Rightarrow> acquire t Head_lock D_load s
    | D_load \<Rightarrow> (case pcq_buffer q of None \<Rightarrow> None | Some xs \<Rightarrow>
          if unat (pcq_head q) < length xs then Some (goto t (D_inc_head (xs ! unat (pcq_head q))) s) else None)
    | D_inc_head e \<Rightarrow> Some ((goto t (D_unlock_head e) (on_queue (\<lambda>q. q\<lparr>pcq_head :=
          (pcq_head q + 1) mod pcq_capacity q\<rparr>) s))\<lparr>popped := popped s @ [e]\<rparr>)
    | D_unlock_head e \<Rightarrow> release t Head_lock (D_lock_size e) s
    | D_lock_size e \<Rightarrow> acquire t Current_size_lock (D_dec_size e) s
    | D_dec_size e \<Rightarrow> Some (goto t (D_unlock_size e) (on_queue (\<lambda>q. q\<lparr>pcq_current_size := pcq_current_size q - 1\<rparr>) s))
    | D_unlock_size e \<Rightarrow> release t Current_size_lock (D_lock_pusher e) s
    | D_lock_pusher e \<Rightarrow> acquire t Pusher_condvar_lock (D_signal e) s
    | D_signal e \<Rightarrow> signal w Pusher_condvar t (D_unlock_pusher e) s
    | D_unlock_pusher e \<Rightarrow> release t Pusher_condvar_lock Idle s)"

text \<open>
  The steps of the system: a thread of \<open>P\<close> calls \<open>pcq_enqueue\<close>, a thread of \<open>C\<close> calls
  \<open>pcq_dequeue\<close>, a thread inside a call runs, a sleeping thread wakes without a signal.
\<close>

inductive pcq_step :: "nat set \<Rightarrow> nat set \<Rightarrow> 'e conc \<Rightarrow> 'e conc \<Rightarrow> bool" for P C where
  call_enqueue: "t \<in> P \<Longrightarrow> t < length (threads s) \<Longrightarrow> threads s ! t = Idle \<Longrightarrow>
    pcq_step P C s (goto t (E_lock_pusher e) s)"
| call_dequeue: "t \<in> C \<Longrightarrow> t < length (threads s) \<Longrightarrow> threads s ! t = Idle \<Longrightarrow>
    pcq_step P C s (goto t D_lock_popper s)"
| run: "t < length (threads s) \<Longrightarrow> thread_step w t s = Some s' \<Longrightarrow> pcq_step P C s s'"
| spurious: "t < length (threads s) \<Longrightarrow> asleep c (threads s ! t) \<Longrightarrow>
    pcq_step P C s (goto t (woken (threads s ! t)) s)"

inductive_cases pcq_stepE: "pcq_step P C s s'"

text \<open>From a queue that has just been created, with \<open>n\<close> threads outside both functions.\<close>

inductive pcq_reach :: "nat \<Rightarrow> nat set \<Rightarrow> nat set \<Rightarrow> 'e conc \<Rightarrow> bool" for n P C where
  created: "pcq_dead q0 \<Longrightarrow> unat capacity < 2 ^ 61 \<Longrightarrow> pcq_create env capacity q0 = Inr (0, q) \<Longrightarrow>
    pcq_reach n P C \<lparr>cq = q, threads = replicate n Idle, pushed = [], popped = []\<rparr>"
| steps: "pcq_reach n P C s \<Longrightarrow> pcq_step P C s s' \<Longrightarrow> pcq_reach n P C s'"

section \<open>One producer and one consumer\<close>

fun producer_loc :: "'e loc \<Rightarrow> bool" where
  "producer_loc Idle = True" | "producer_loc (E_lock_pusher _) = True" | "producer_loc (E_check _) = True"
| "producer_loc (E_wait _) = True" | "producer_loc (E_sleep _) = True" | "producer_loc (E_wake _) = True"
| "producer_loc (E_unlock_pusher _) = True" | "producer_loc (E_lock_tail _) = True"
| "producer_loc (E_store _) = True" | "producer_loc (E_inc_tail _) = True"
| "producer_loc E_unlock_tail = True" | "producer_loc E_lock_size = True" | "producer_loc E_inc_size = True"
| "producer_loc E_unlock_size = True" | "producer_loc E_lock_popper = True" | "producer_loc E_signal = True"
| "producer_loc E_unlock_popper = True" | "producer_loc _ = False"

fun consumer_loc :: "'e loc \<Rightarrow> bool" where
  "consumer_loc Idle = True" | "consumer_loc D_lock_popper = True" | "consumer_loc D_check = True"
| "consumer_loc D_wait = True" | "consumer_loc D_sleep = True" | "consumer_loc D_wake = True"
| "consumer_loc D_unlock_popper = True" | "consumer_loc D_lock_head = True" | "consumer_loc D_load = True"
| "consumer_loc (D_inc_head _) = True" | "consumer_loc (D_unlock_head _) = True"
| "consumer_loc (D_lock_size _) = True" | "consumer_loc (D_dec_size _) = True"
| "consumer_loc (D_unlock_size _) = True" | "consumer_loc (D_lock_pusher _) = True"
| "consumer_loc (D_signal _) = True" | "consumer_loc (D_unlock_pusher _) = True" | "consumer_loc _ = False"

text \<open>Past the check and before the size is changed; between the two counters.\<close>

fun e_room :: "'e loc \<Rightarrow> bool" where
  "e_room (E_unlock_pusher _) = True" | "e_room (E_lock_tail _) = True" | "e_room (E_store _) = True"
| "e_room (E_inc_tail _) = True" | "e_room E_unlock_tail = True" | "e_room E_lock_size = True"
| "e_room E_inc_size = True" | "e_room _ = False"

fun e_mid :: "'e loc \<Rightarrow> nat" where
  "e_mid E_unlock_tail = 1" | "e_mid E_lock_size = 1" | "e_mid E_inc_size = 1" | "e_mid _ = 0"

fun d_some :: "'e loc \<Rightarrow> bool" where
  "d_some D_unlock_popper = True" | "d_some D_lock_head = True" | "d_some D_load = True"
| "d_some (D_inc_head _) = True" | "d_some (D_unlock_head _) = True" | "d_some (D_lock_size _) = True"
| "d_some (D_dec_size _) = True" | "d_some _ = False"

fun d_mid :: "'e loc \<Rightarrow> nat" where
  "d_mid (D_unlock_head _) = 1" | "d_mid (D_lock_size _) = 1" | "d_mid (D_dec_size _) = 1" | "d_mid _ = 0"

fun holds :: "'e loc \<Rightarrow> pcq_lock \<Rightarrow> bool" where
  "holds (E_check _) l \<longleftrightarrow> l = Pusher_condvar_lock"
| "holds (E_wait _) l \<longleftrightarrow> l = Pusher_condvar_lock"
| "holds (E_unlock_pusher _) l \<longleftrightarrow> l = Pusher_condvar_lock"
| "holds (E_store _) l \<longleftrightarrow> l = Tail_lock" | "holds (E_inc_tail _) l \<longleftrightarrow> l = Tail_lock"
| "holds E_unlock_tail l \<longleftrightarrow> l = Tail_lock"
| "holds E_inc_size l \<longleftrightarrow> l = Current_size_lock" | "holds E_unlock_size l \<longleftrightarrow> l = Current_size_lock"
| "holds E_signal l \<longleftrightarrow> l = Popper_condvar_lock" | "holds E_unlock_popper l \<longleftrightarrow> l = Popper_condvar_lock"
| "holds D_check l \<longleftrightarrow> l = Popper_condvar_lock" | "holds D_wait l \<longleftrightarrow> l = Popper_condvar_lock"
| "holds D_unlock_popper l \<longleftrightarrow> l = Popper_condvar_lock"
| "holds D_load l \<longleftrightarrow> l = Head_lock" | "holds (D_inc_head _) l \<longleftrightarrow> l = Head_lock"
| "holds (D_unlock_head _) l \<longleftrightarrow> l = Head_lock"
| "holds (D_dec_size _) l \<longleftrightarrow> l = Current_size_lock" | "holds (D_unlock_size _) l \<longleftrightarrow> l = Current_size_lock"
| "holds (D_signal _) l \<longleftrightarrow> l = Pusher_condvar_lock"
| "holds (D_unlock_pusher _) l \<longleftrightarrow> l = Pusher_condvar_lock"
| "holds _ l \<longleftrightarrow> False"


definition counters :: "'e pc_queue \<Rightarrow> 'e loc \<Rightarrow> 'e loc \<Rightarrow> nat \<Rightarrow> nat \<Rightarrow> bool" where
  "counters q a b pushes pops \<longleftrightarrow>
     0 < pcq_cap q \<and> unat (pcq_head q) = pops mod pcq_cap q \<and> unat (pcq_tail q) = pushes mod pcq_cap q \<and>
     unat (pcq_current_size q) + pops + e_mid a = pushes + d_mid b \<and>
     unat (pcq_current_size q) \<le> pcq_cap q \<and>
     (e_room a \<longrightarrow> unat (pcq_current_size q) < pcq_cap q) \<and> (d_some b \<longrightarrow> 0 < unat (pcq_current_size q))"

definition ring :: "'e pc_queue \<Rightarrow> 'e loc \<Rightarrow> 'e loc \<Rightarrow> 'e list \<Rightarrow> 'e list \<Rightarrow> bool" where
  "ring q a b pu po \<longleftrightarrow> (\<exists>xs. pcq_buffer q = Some xs \<and> length xs = pcq_cap q \<and>
     (\<forall>k. length po \<le> k \<and> k < length pu \<longrightarrow> xs ! (k mod pcq_cap q) = pu ! k) \<and>
     (\<forall>e. a = E_inc_tail e \<longrightarrow> xs ! (length pu mod pcq_cap q) = e)) \<and>
     (\<forall>e. b = D_inc_head e \<longrightarrow> e = pu ! length po) \<and>
     po = take (length po) pu"

definition locks_ok :: "'e pc_queue \<Rightarrow> 'e loc \<Rightarrow> 'e loc \<Rightarrow> bool" where
  "locks_ok q a b \<longleftrightarrow> (\<forall>l. pcq_locks q l = (if holds a l \<or> holds b l then Locked else Unlocked) \<and>
     \<not> (holds a l \<and> holds b l))"

definition wake_ok :: "'e pc_queue \<Rightarrow> 'e loc \<Rightarrow> 'e loc \<Rightarrow> bool" where
  "wake_ok q a b \<longleftrightarrow>
     (b \<in> {D_wait, D_sleep} \<and> pcq_current_size q \<noteq> 0 \<longrightarrow> a \<in> {E_unlock_size, E_lock_popper, E_signal}) \<and>
     ((\<exists>e. a \<in> {E_wait e, E_sleep e}) \<and> pcq_current_size q \<noteq> pcq_capacity q \<longrightarrow>
        (\<exists>e. b \<in> {D_unlock_size e, D_lock_pusher e, D_signal e}))"

definition spsc :: "'e conc \<Rightarrow> 'e loc \<Rightarrow> 'e loc \<Rightarrow> bool" where
  "spsc s a b \<longleftrightarrow> threads s = [a, b] \<and> producer_loc a \<and> consumer_loc b \<and>
     counters (cq s) a b (length (pushed s)) (length (popped s)) \<and>
     ring (cq s) a b (pushed s) (popped s) \<and> locks_ok (cq s) a b \<and> wake_ok (cq s) a b"

lemma room_left: "counters q a b n m \<Longrightarrow> e_room a \<Longrightarrow> e_mid a = 0 \<Longrightarrow> n < m + pcq_cap q"
  by (auto simp: counters_def)

lemma some_left: "counters q a b n m \<Longrightarrow> d_some b \<Longrightarrow> d_mid b = 0 \<Longrightarrow> m < n"
  by (auto simp: counters_def)

lemma at_most_cap: "counters q a b n m \<Longrightarrow> n \<le> m + pcq_cap q"
  by (cases a; auto simp: counters_def)


lemma queue_locks [simp]:
  "counters (q\<lparr>pcq_locks := f\<rparr>) a b n m = counters q a b n m"
  "ring (q\<lparr>pcq_locks := f\<rparr>) a b pu po = ring q a b pu po"
  "wake_ok (q\<lparr>pcq_locks := f\<rparr>) a b = wake_ok q a b"
  by (simp_all add: counters_def ring_def wake_ok_def pcq_cap_def)

lemma asleep_iff: "asleep Pusher_condvar l \<longleftrightarrow> (\<exists>e. l = E_sleep e)" "asleep Popper_condvar l \<longleftrightarrow> l = D_sleep"
  by (cases l; simp)+

lemma not_asleep: "consumer_loc l \<Longrightarrow> \<not> asleep Pusher_condvar l" "producer_loc l \<Longrightarrow> \<not> asleep Popper_condvar l"
  by (cases l; simp)+

text \<open>With one thread on each side a signal reaches the other thread, if that sleeps.\<close>

lemma signal_popper:
  assumes "signal w Popper_condvar 0 next s = Some s'" "threads s = [a, b]" "producer_loc a"
  shows "s' = s\<lparr>threads := [next, if b = D_sleep then D_wake else b]\<rparr>"
  using assms not_asleep(2) [OF assms(3)]
  by (auto simp: signal_def goto_def asleep_iff less_Suc_eq nth_Cons' split: if_splits)

lemma signal_pusher:
  assumes "signal w Pusher_condvar 1 next s = Some s'" "threads s = [a, b]" "consumer_loc b"
  shows "s' = s\<lparr>threads := [case a of E_sleep e \<Rightarrow> E_wake e | _ \<Rightarrow> a, next]\<rparr>"
proof (cases "\<exists>e. a = E_sleep e")
  case True
  then show ?thesis
    using assms not_asleep(1) [OF assms(3)]
    by (auto simp: signal_def goto_def less_Suc_eq nth_Cons' split: if_splits)
next
  case False
  then have "(case a of E_sleep e \<Rightarrow> E_wake e | _ \<Rightarrow> a) = a" by (cases a) auto
  then show ?thesis
    using False assms not_asleep(1) [OF assms(3)]
    by (auto simp: signal_def goto_def asleep_iff split: if_splits)
qed

lemmas step_defs = acquire_def release_def goto_def set_lock_def on_queue_def thread_step_def Let_def

text \<open>The counters.\<close>

lemma producer_counters:
  assumes "counters (cq s) a b (length (pushed s)) (length (popped s))" "threads s = [a, b]" "producer_loc a"
    and "thread_step w 0 s = Some s'" "threads s' = [a', b']"
  shows "counters (cq s') a' b' (length (pushed s')) (length (popped s'))"
proof (cases a)
  case (E_check e)
  then show ?thesis
    using assms by (auto simp: step_defs counters_def pcq_cap_def word_unat_eq_iff split: if_splits)
next
  case (E_store e)
  then show ?thesis using assms by (auto simp: step_defs counters_def pcq_cap_def split: option.splits if_splits)
next
  case (E_inc_tail e)
  then show ?thesis
    using assms ring_next(1) [of "pcq_tail (cq s)" "pcq_capacity (cq s)"]
    by (auto simp: step_defs counters_def pcq_cap_def mod_Suc_eq)
next
  case E_inc_size
  then show ?thesis
    using assms size_up [of "pcq_current_size (cq s)" "pcq_capacity (cq s)"]
    by (auto simp: step_defs counters_def pcq_cap_def)
next
  case E_signal
  then have "s' = s\<lparr>threads := [E_unlock_popper, if b = D_sleep then D_wake else b]\<rparr>"
    using assms by (intro signal_popper) (auto simp: thread_step_def)
  then show ?thesis using E_signal assms(1,5) by (auto simp: counters_def split: if_splits)
qed (use assms in \<open>auto simp: step_defs counters_def pcq_cap_def split: if_splits\<close>)

lemma consumer_counters:
  assumes "counters (cq s) a b (length (pushed s)) (length (popped s))" "threads s = [a, b]" "consumer_loc b"
    and "thread_step w 1 s = Some s'" "threads s' = [a', b']"
  shows "counters (cq s') a' b' (length (pushed s')) (length (popped s'))"
proof (cases b)
  case D_check
  then show ?thesis
    using assms by (auto simp: step_defs counters_def pcq_cap_def unat_gt_0 split: if_splits)
next
  case D_load
  then show ?thesis using assms by (auto simp: step_defs counters_def pcq_cap_def split: option.splits if_splits)
next
  case (D_inc_head e)
  then show ?thesis
    using assms ring_next(1) [of "pcq_head (cq s)" "pcq_capacity (cq s)"]
    by (auto simp: step_defs counters_def pcq_cap_def mod_Suc_eq)
next
  case (D_dec_size e)
  then show ?thesis
    using assms size_down [of "pcq_current_size (cq s)"]
    by (auto simp: step_defs counters_def pcq_cap_def)
next
  case (D_signal e)
  then have "s' = s\<lparr>threads := [case a of E_sleep e \<Rightarrow> E_wake e | _ \<Rightarrow> a, D_unlock_pusher e]\<rparr>"
    using assms by (intro signal_pusher) (auto simp: thread_step_def)
  then show ?thesis using D_signal assms(1,5) by (cases a) (auto simp: counters_def)
qed (use assms in \<open>auto simp: step_defs counters_def pcq_cap_def split: if_splits\<close>)


text \<open>The locks: a step takes one it does not hold, gives back the one it holds, or keeps both.\<close>

lemma locks_ok_sym: "locks_ok q a b \<longleftrightarrow> locks_ok q b a"
  by (auto simp: locks_ok_def)

lemma locks_acquire:
  assumes "locks_ok q a b" "pcq_locks q l = Unlocked" "\<And>x. \<not> holds a x" "\<And>x. holds a' x \<longleftrightarrow> x = l"
  shows "locks_ok (q\<lparr>pcq_locks := (pcq_locks q)(l := Locked)\<rparr>) a' b"
  using assms by (auto simp: locks_ok_def split: if_splits)

lemma locks_release:
  assumes "locks_ok q a b" "\<And>x. holds a x \<longleftrightarrow> x = l" "\<And>x. \<not> holds a' x"
  shows "locks_ok (q\<lparr>pcq_locks := (pcq_locks q)(l := Unlocked)\<rparr>) a' b"
  using assms by (auto simp: locks_ok_def)

lemma locks_keep:
  assumes "locks_ok q a b" "pcq_locks q' = pcq_locks q" "\<And>x. holds a' x \<longleftrightarrow> holds a x" "\<And>x. holds b' x \<longleftrightarrow> holds b x"
  shows "locks_ok q' a' b'"
  using assms by (simp add: locks_ok_def)

lemma locks_same:
  assumes "locks_ok q a b" "\<And>x. holds a' x \<longleftrightarrow> holds a x"
  shows "locks_ok q a' b" "locks_ok (q\<lparr>pcq_buffer := u\<rparr>) a' b" "locks_ok (q\<lparr>pcq_tail := v\<rparr>) a' b"
    "locks_ok (q\<lparr>pcq_head := v\<rparr>) a' b" "locks_ok (q\<lparr>pcq_current_size := v\<rparr>) a' b"
  using assms by (simp_all add: locks_ok_def)

lemma producer_locks:
  assumes "locks_ok (cq s) a b" "threads s = [a, b]" "producer_loc a"
    and "thread_step w 0 s = Some s'" "threads s' = [a', b']"
  shows "locks_ok (cq s') a' b'"
proof (cases "a = E_signal")
  case True
  then have "s' = s\<lparr>threads := [E_unlock_popper, if b = D_sleep then D_wake else b]\<rparr>"
    using assms by (intro signal_popper) (auto simp: thread_step_def)
  then show ?thesis
    using True assms(5) by (auto intro!: locks_keep [OF assms(1)] split: if_splits)
next
  case False
  have "b' = b" using assms False by (cases a) (auto simp: step_defs split: if_splits option.splits)
  moreover have "locks_ok (cq s') a' b"
    by (insert assms False)
      (cases a; auto simp: step_defs split: if_splits option.splits;
        (erule locks_acquire, simp, simp, simp | erule locks_release, simp, simp | erule locks_same, simp))
  ultimately show ?thesis by simp
qed

lemma consumer_locks:
  assumes "locks_ok (cq s) a b" "threads s = [a, b]" "consumer_loc b"
    and "thread_step w 1 s = Some s'" "threads s' = [a', b']"
  shows "locks_ok (cq s') a' b'"
proof (cases "\<exists>e. b = D_signal e")
  case True
  then obtain e where e: "b = D_signal e" ..
  then have "s' = s\<lparr>threads := [case a of E_sleep e \<Rightarrow> E_wake e | _ \<Rightarrow> a, D_unlock_pusher e]\<rparr>"
    using assms by (intro signal_pusher) (auto simp: thread_step_def)
  then show ?thesis
    using e assms(5) by (cases a) (auto intro!: locks_keep [OF assms(1)])
next
  case False
  note sym = assms(1) [unfolded locks_ok_sym [of "cq s" a b]]
  have "a' = a" using assms False by (cases b) (auto simp: step_defs split: if_splits option.splits)
  moreover have "locks_ok (cq s') b' a"
    by (insert assms(2-5) sym False)
      (cases b; auto simp: step_defs split: if_splits option.splits;
        (erule locks_acquire, simp, simp, simp | erule locks_release, simp, simp | erule locks_same, simp))
  ultimately show ?thesis by (simp add: locks_ok_sym)
qed

lemma producer_places:
  assumes "threads s = [a, b]" "producer_loc a" "consumer_loc b" "thread_step w 0 s = Some s'"
  shows "\<exists>a' b'. threads s' = [a', b'] \<and> producer_loc a' \<and> consumer_loc b'"
proof (cases "a = E_signal")
  case True
  then have "s' = s\<lparr>threads := [E_unlock_popper, if b = D_sleep then D_wake else b]\<rparr>"
    using assms by (intro signal_popper) (auto simp: thread_step_def)
  then show ?thesis using assms(3) by auto
qed (use assms in \<open>cases a; auto simp: step_defs split: if_splits option.splits\<close>)

lemma consumer_places:
  assumes "threads s = [a, b]" "producer_loc a" "consumer_loc b" "thread_step w 1 s = Some s'"
  shows "\<exists>a' b'. threads s' = [a', b'] \<and> producer_loc a' \<and> consumer_loc b'"
proof (cases "\<exists>e. b = D_signal e")
  case True
  then obtain e where e: "b = D_signal e" ..
  then have "s' = s\<lparr>threads := [case a of E_sleep e \<Rightarrow> E_wake e | _ \<Rightarrow> a, D_unlock_pusher e]\<rparr>"
    using assms by (intro signal_pusher) (auto simp: thread_step_def)
  then show ?thesis using assms(2) by (cases a) auto
qed (use assms in \<open>cases b; auto simp: step_defs split: if_splits option.splits\<close>)


text \<open>The elements in the buffer.\<close>

lemma ring_keep:
  assumes "ring q a b pu po" "pcq_buffer q' = pcq_buffer q" "pcq_cap q' = pcq_cap q"
    and "\<And>e. a' = E_inc_tail e \<Longrightarrow> a = a'" "\<And>e. b' = D_inc_head e \<Longrightarrow> b = b'"
  shows "ring q' a' b' pu po"
  using assms by (fastforce simp: ring_def)

lemma ring_store:
  assumes "ring q (E_store e) b pu po" "pcq_buffer q = Some xs" "t = length pu mod pcq_cap q"
    and "length pu < length po + pcq_cap q" "0 < pcq_cap q"
  shows "ring (q\<lparr>pcq_buffer := Some (xs[t := e])\<rparr>) (E_inc_tail e) b pu po"
proof -
  have "False" if "length pu mod pcq_cap q = k mod pcq_cap q" "length po \<le> k" "k < length pu" for k
  proof -
    have "k - length po < length pu - length po" "length pu - length po < k - length po + pcq_cap q"
      using that(2,3) assms(4) by linarith+
    from mod_distinct [OF this, of "length po"] show ?thesis using that by simp
  qed
  then show ?thesis using assms by (fastforce simp: ring_def pcq_cap_def nth_list_update)
qed

lemma ring_push:
  assumes "ring q (E_inc_tail e) b pu po" "d_some b \<and> d_mid b = 0 \<longrightarrow> length po < length pu"
  shows "ring (q\<lparr>pcq_tail := t\<rparr>) E_unlock_tail b (pu @ [e]) po"
proof -
  have "length po \<le> length pu" using assms(1) by (metis ring_def length_take min.cobounded1)
  then show ?thesis
    using assms by (auto simp: ring_def pcq_cap_def nth_append less_Suc_eq)
qed

lemma ring_load:
  assumes "ring q a D_load pu po" "pcq_buffer q = Some xs" "h = length po mod pcq_cap q" "length po < length pu"
  shows "ring q a (D_inc_head (xs ! h)) pu po"
  using assms by (auto simp: ring_def)

lemma ring_pop:
  assumes "ring q a (D_inc_head e) pu po" "length po < length pu"
  shows "ring (q\<lparr>pcq_head := h\<rparr>) a (D_unlock_head e) pu (po @ [e])"
  using assms by (auto simp: ring_def pcq_cap_def take_Suc_conv_app_nth)

lemma producer_ring:
  assumes "ring (cq s) a b (pushed s) (popped s)" "threads s = [a, b]" "producer_loc a"
    and "counters (cq s) a b (length (pushed s)) (length (popped s))"
    and "thread_step w 0 s = Some s'" "threads s' = [a', b']"
  shows "ring (cq s') a' b' (pushed s') (popped s')"
proof (cases a)
  case (E_store e)
  have "unat (pcq_tail (cq s)) = length (pushed s) mod pcq_cap (cq s)" "0 < pcq_cap (cq s)"
    using assms(4) by (simp_all add: counters_def)
  with E_store show ?thesis
    using assms room_left [OF assms(4)]
    by (auto simp: step_defs intro!: ring_store split: option.splits if_splits)
next
  case (E_inc_tail e)
  then show ?thesis
    using assms some_left [OF assms(4)] by (auto simp: step_defs intro!: ring_push)
next
  case E_signal
  then have "s' = s\<lparr>threads := [E_unlock_popper, if b = D_sleep then D_wake else b]\<rparr>"
    using assms by (intro signal_popper) (auto simp: thread_step_def)
  then show ?thesis using assms(1,6) by (auto intro: ring_keep split: if_splits)
qed (insert assms(1-3,5,6), auto simp: step_defs pcq_cap_def split: if_splits elim!: ring_keep)

lemma consumer_ring:
  assumes "ring (cq s) a b (pushed s) (popped s)" "threads s = [a, b]" "consumer_loc b"
    and "counters (cq s) a b (length (pushed s)) (length (popped s))"
    and "thread_step w 1 s = Some s'" "threads s' = [a', b']"
  shows "ring (cq s') a' b' (pushed s') (popped s')"
proof (cases b)
  case D_load
  have "unat (pcq_head (cq s)) = length (popped s) mod pcq_cap (cq s)"
    using assms(4) by (simp add: counters_def)
  with D_load show ?thesis
    using assms some_left [OF assms(4)]
    by (auto simp: step_defs intro!: ring_load split: option.splits if_splits)
next
  case (D_inc_head e)
  then show ?thesis
    using assms some_left [OF assms(4)] by (auto simp: step_defs intro!: ring_pop)
next
  case (D_signal e)
  then have "s' = s\<lparr>threads := [case a of E_sleep e \<Rightarrow> E_wake e | _ \<Rightarrow> a, D_unlock_pusher e]\<rparr>"
    using assms by (intro signal_pusher) (auto simp: thread_step_def)
  then show ?thesis using assms(1,6) by (auto intro!: ring_keep [OF assms(1)] split: loc.splits)
qed (insert assms(1-3,5,6), auto simp: step_defs pcq_cap_def split: if_splits elim!: ring_keep)

text \<open>The threads that wait: someone is on the way to wake them, or they wait with reason.\<close>

lemma producer_wake:
  assumes "wake_ok (cq s) a b" "locks_ok (cq s) a b" "threads s = [a, b]" "producer_loc a" "consumer_loc b"
    and "thread_step w 0 s = Some s'" "threads s' = [a', b']"
  shows "wake_ok (cq s') a' b'"
proof (cases "a = E_signal")
  case True
  then have "s' = s\<lparr>threads := [E_unlock_popper, if b = D_sleep then D_wake else b]\<rparr>"
    using assms by (intro signal_popper) (auto simp: thread_step_def)
  moreover have "b \<noteq> D_wait" using assms(2) True by (auto simp: locks_ok_def)
  ultimately show ?thesis using True assms(1,7) by (auto simp: wake_ok_def split: if_splits)
qed (insert assms, cases a; auto simp: step_defs wake_ok_def split: if_splits option.splits)

lemma consumer_wake:
  assumes "wake_ok (cq s) a b" "locks_ok (cq s) a b" "threads s = [a, b]" "producer_loc a" "consumer_loc b"
    and "thread_step w 1 s = Some s'" "threads s' = [a', b']"
  shows "wake_ok (cq s') a' b'"
proof (cases "\<exists>e. b = D_signal e")
  case True
  then obtain e where e: "b = D_signal e" ..
  then have s': "s' = s\<lparr>threads := [case a of E_sleep e \<Rightarrow> E_wake e | _ \<Rightarrow> a, D_unlock_pusher e]\<rparr>"
    using assms by (intro signal_pusher) (auto simp: thread_step_def)
  have "a \<noteq> E_wait x" for x using assms(2) e by (auto simp: locks_ok_def)
  with s' show ?thesis using e assms(1,7) by (auto simp: wake_ok_def split: loc.splits)
qed (insert assms, cases b; auto simp: step_defs wake_ok_def split: if_splits option.splits)


text \<open>Everything together, for every step of the two threads.\<close>

lemma spsc_producer:
  assumes "spsc s a b" "thread_step w 0 s = Some s'"
  shows "\<exists>a' b'. spsc s' a' b'"
proof -
  note i = assms(1) [unfolded spsc_def]
  from i obtain a' b' where s': "threads s' = [a', b']" "producer_loc a'" "consumer_loc b'"
    using producer_places [OF _ _ _ assms(2)] by blast
  with i assms(2) have "spsc s' a' b'"
    by (auto simp: spsc_def intro: producer_counters producer_ring producer_locks producer_wake)
  then show ?thesis by blast
qed

lemma spsc_consumer:
  assumes "spsc s a b" "thread_step w 1 s = Some s'"
  shows "\<exists>a' b'. spsc s' a' b'"
proof -
  note i = assms(1) [unfolded spsc_def]
  from i obtain a' b' where s': "threads s' = [a', b']" "producer_loc a'" "consumer_loc b'"
    using consumer_places [OF _ _ _ assms(2)] by blast
  with i assms(2) have "spsc s' a' b'"
    unfolding spsc_def
    by (auto intro: consumer_counters consumer_ring consumer_locks consumer_wake)
  then show ?thesis by blast
qed

lemma spsc_call:
  assumes "spsc s a b"
  shows "a = Idle \<Longrightarrow> spsc (goto 0 (E_lock_pusher e) s) (E_lock_pusher e) b"
    "b = Idle \<Longrightarrow> spsc (goto 1 D_lock_popper s) a D_lock_popper"
    "a = E_sleep e \<Longrightarrow> spsc (goto 0 (E_wake e) s) (E_wake e) b"
    "b = D_sleep \<Longrightarrow> spsc (goto 1 D_wake s) a D_wake"
  using assms
  by (simp_all add: spsc_def goto_def counters_def ring_def locks_ok_def wake_ok_def)

lemma spsc_step:
  assumes "pcq_step {0} {1} s s'" "spsc s a b"
  shows "\<exists>a' b'. spsc s' a' b'"
  using assms(1)
proof (cases rule: pcq_step.cases)
  case (call_enqueue t e)
  then show ?thesis using assms(2) spsc_call(1) [OF assms(2)] by (auto simp: spsc_def)
next
  case (call_dequeue t)
  then show ?thesis using assms(2) spsc_call(2) [OF assms(2)] by (auto simp: spsc_def)
next
  case (run t w)
  then have "t = 0 \<or> t = 1" using assms(2) by (auto simp: spsc_def)
  then show ?thesis using run spsc_producer [OF assms(2)] spsc_consumer [OF assms(2)] by auto
next
  case (spurious t c)
  then have "t = 0 \<and> (\<exists>e. a = E_sleep e) \<or> t = 1 \<and> b = D_sleep"
    using assms(2) not_asleep
    by (cases c) (auto simp: spsc_def asleep_iff less_Suc_eq dest: not_asleep)
  then show ?thesis
    using spurious assms(2) spsc_call(3,4) [OF assms(2)] by (auto simp: spsc_def)
qed

lemma spsc_created:
  assumes "pcq_dead q0" "unat capacity < 2 ^ 61" "pcq_create env capacity q0 = Inr (0, q)"
  shows "spsc \<lparr>cq = q, threads = replicate 2 Idle, pushed = [], popped = []\<rparr> Idle Idle"
proof -
  have q: "pcq_ok q \<and> pcq_items q = [] \<and> pcq_head q = 0"
    using pcq_create_cases [OF assms(1,2), of env] assms(3) by (auto simp: wp_def split: if_splits)
  then have z: "pcq_current_size q = 0" using length_pcq_items [of q] by (simp add: unat_eq_zero)
  from q obtain xs where "pcq_buffer q = Some xs" "length xs = pcq_cap q" "0 < pcq_cap q"
    "unat (pcq_tail q) = (unat (pcq_head q) + unat (pcq_current_size q)) mod pcq_cap q"
    "pcq_locks q = (\<lambda>_. Unlocked)" by (blast elim: pcq_okD)
  with q z show ?thesis
    by (simp add: spsc_def counters_def ring_def locks_ok_def wake_ok_def numeral_2_eq_2)
qed

lemma spsc_reach:
  assumes "pcq_reach 2 {0} {1} s"
  shows "\<exists>a b. spsc s a b"
  using assms
proof induction
  case (created q0 capacity env q)
  then show ?case using spsc_created by blast
next
  case (steps s s')
  then show ?case using spsc_step by blast
qed

end
