(* ===== verification/PcqRuns.thy ===== *)
theory PcqRuns
  imports PcqConc "HOL-Library.Sublist"
begin

text \<open>
  The locks of the queue for any number of threads, when the threads of \<open>PcqConc\<close> can go
  on, and runs along a given schedule.
\<close>

section \<open>Mutual exclusion, for any number of threads\<close>

definition mutex_inv :: "'e conc \<Rightarrow> bool" where
  "mutex_inv s \<longleftrightarrow>
     (\<forall>l. pcq_locks (cq s) l = (if \<exists>t<length (threads s). holds (threads s ! t) l then Locked else Unlocked)) \<and>
     (\<forall>l t u. t < length (threads s) \<and> u < length (threads s) \<and> holds (threads s ! t) l \<and>
        holds (threads s ! u) l \<longrightarrow> t = u)"

lemma mutex_acquire:
  assumes "mutex_inv s" "t < length (threads s)" "pcq_locks (cq s) l = Unlocked"
    and "\<And>x. \<not> holds (threads s ! t) x" "\<And>x. holds c x \<longleftrightarrow> x = l"
  shows "mutex_inv (s\<lparr>cq := cq s\<lparr>pcq_locks := (pcq_locks (cq s))(l := Locked)\<rparr>, threads := (threads s)[t := c]\<rparr>)"
  using assms unfolding mutex_inv_def
  by (auto simp: nth_list_update split: if_splits) (metis lock_state.distinct(5))+

lemma mutex_release:
  assumes "mutex_inv s" "t < length (threads s)" "pcq_locks (cq s) l = Locked"
    and "\<And>x. holds (threads s ! t) x \<longleftrightarrow> x = l" "\<And>x. \<not> holds c x"
  shows "mutex_inv (s\<lparr>cq := cq s\<lparr>pcq_locks := (pcq_locks (cq s))(l := Unlocked)\<rparr>, threads := (threads s)[t := c]\<rparr>)"
  using assms unfolding mutex_inv_def
  by (auto simp: nth_list_update split: if_splits) metis+

lemma mutex_keep:
  assumes "mutex_inv s" "length (threads s') = length (threads s)" "pcq_locks (cq s') = pcq_locks (cq s)"
    and "\<And>t. t < length (threads s) \<Longrightarrow> holds (threads s' ! t) = holds (threads s ! t)"
  shows "mutex_inv s'"
  using assms unfolding mutex_inv_def by (simp cong: conj_cong) metis

lemma holds_woken [simp]: "asleep c l \<Longrightarrow> holds (woken l) = holds l"
  by (rule ext, cases c; cases l) simp_all

lemma mutex_signal:
  assumes "mutex_inv s" "signal w c t next s = Some s'" "holds next = holds (threads s ! t)"
    and "t < length (threads s)"
  shows "mutex_inv s'"
  by (rule mutex_keep [OF assms(1)])
    (use assms in \<open>auto simp: signal_def goto_def nth_list_update split: if_splits\<close>)

lemma mutex_keeps:
  assumes "mutex_inv s" "t < length (threads s)" "\<And>x. holds c x \<longleftrightarrow> holds (threads s ! t) x"
  shows "mutex_inv (s\<lparr>threads := (threads s)[t := c]\<rparr>)"
    "mutex_inv (s\<lparr>cq := cq s\<lparr>pcq_buffer := u\<rparr>, threads := (threads s)[t := c]\<rparr>)"
    "mutex_inv (s\<lparr>cq := cq s\<lparr>pcq_current_size := v\<rparr>, threads := (threads s)[t := c]\<rparr>)"
    "mutex_inv (s\<lparr>cq := cq s\<lparr>pcq_tail := v\<rparr>, threads := (threads s)[t := c], pushed := pu\<rparr>)"
    "mutex_inv (s\<lparr>cq := cq s\<lparr>pcq_head := v\<rparr>, threads := (threads s)[t := c], popped := pu\<rparr>)"
  by (rule mutex_keep [OF assms(1)]; use assms in \<open>auto simp: nth_list_update fun_eq_iff\<close>)+

lemma mutex_run:
  assumes "mutex_inv s" "t < length (threads s)" "thread_step w t s = Some s'"
  shows "mutex_inv s'"
proof (cases "threads s ! t = E_signal \<or> (\<exists>e. threads s ! t = D_signal e)")
  case True
  have "holds (E_signal :: 'a loc) = holds (E_unlock_popper :: 'a loc)"
    and "holds (D_signal e) = holds (D_unlock_pusher e)" for e :: 'a
    by (rule ext, simp)+
  then show ?thesis using True assms by (auto simp: thread_step_def intro: mutex_signal)
next
  case False
  show ?thesis
    by (insert assms False)
      (cases "threads s ! t"; auto simp: step_defs split: if_splits option.splits;
        (erule mutex_acquire, simp, simp, simp, simp | erule mutex_release, simp, simp, simp, simp
          | erule mutex_keeps, simp, simp))
qed

lemma mutex_reach:
  assumes "pcq_reach n P C s"
  shows "mutex_inv s \<and> length (threads s) = n"
  using assms
proof induction
  case (created q0 capacity env q)
  have "pcq_ok q"
    using pcq_create_cases [OF created(1,2), of env] created(3) by (auto simp: wp_def split: if_splits)
  then show ?case by (auto simp: mutex_inv_def pcq_ok_def)
next
  case (steps s s')
  from steps(2) show ?case
  proof (cases rule: pcq_step.cases)
    case (call_enqueue t e)
    then show ?thesis using steps.IH by (auto simp: goto_def intro: mutex_keeps)
  next
    case (call_dequeue t)
    then show ?thesis using steps.IH by (auto simp: goto_def intro: mutex_keeps)
  next
    case (run t w)
    have "length (threads s') = length (threads s)"
      using run(2) by (auto simp: step_defs signal_def split: loc.splits if_splits option.splits)
    then show ?thesis using run(1) steps.IH mutex_run [OF _ _ run(2)] by simp
  next
    case (spurious t c)
    then show ?thesis using steps.IH by (auto simp: goto_def intro: mutex_keeps)
  qed
qed


section \<open>Progress\<close>

text \<open>No access leaves the buffer, so the only steps a thread can miss are the blocking ones.\<close>

definition in_bounds :: "'e pc_queue \<Rightarrow> bool" where
  "in_bounds q \<longleftrightarrow> (case pcq_buffer q of None \<Rightarrow> False | Some xs \<Rightarrow> length xs = pcq_cap q) \<and>
     unat (pcq_head q) < pcq_cap q \<and> unat (pcq_tail q) < pcq_cap q"

lemma signal_queue: "signal w c t next s = Some s' \<Longrightarrow> cq s' = cq s"
  by (auto simp: signal_def goto_def split: if_splits)

lemma in_bounds_run:
  assumes "in_bounds (cq s)" "thread_step w t s = Some s'"
  shows "in_bounds (cq s')"
  by (insert assms)
    (cases "threads s ! t"; auto simp: step_defs in_bounds_def pcq_cap_def dest!: signal_queue
      intro: ring_next(2) split: if_splits option.splits)

lemma in_bounds_reach:
  assumes "pcq_reach n P C s" shows "in_bounds (cq s)"
  using assms
proof induction
  case (created q0 capacity env q)
  have "pcq_ok q"
    using pcq_create_cases [OF created(1,2), of env] created(3) by (auto simp: wp_def split: if_splits)
  then obtain xs where "pcq_buffer q = Some xs" "length xs = pcq_cap q"
    "unat (pcq_head q) < pcq_cap q" "unat (pcq_tail q) < pcq_cap q" by (blast elim: pcq_okD)
  then show ?case by (simp add: in_bounds_def)
next
  case (steps s s')
  from steps(2) show ?case
    by (cases rule: pcq_step.cases) (use steps.IH in_bounds_run in \<open>auto simp: goto_def\<close>)
qed

lemma signal_some: "\<exists>w s'. signal w c t next s = Some s'"
proof (cases "list_ex (asleep c) (threads s)")
  case True
  then obtain w where "w < length (threads s)" "asleep c (threads s ! w)"
    by (auto simp: list_ex_iff in_set_conv_nth)
  then show ?thesis by (auto simp: signal_def)
qed (auto simp: signal_def)

text \<open>A thread that holds a lock has a step, and so has one whose lock is free.\<close>

lemma holder_runs:
  assumes "mutex_inv s" "in_bounds (cq s)" "t < length (threads s)" "holds (threads s ! t) l"
  shows "\<exists>w s'. thread_step w t s = Some s'"
proof -
  have "pcq_locks (cq s) l = Locked" using assms(1,3,4) by (auto simp: mutex_inv_def)
  then show ?thesis
    using assms(2-4) signal_some
    by (cases "threads s ! t") (auto simp: step_defs in_bounds_def split: option.splits)
qed

lemma acquirer_runs:
  assumes "\<not> (\<exists>l. holds (threads s ! t) l)" "threads s ! t \<noteq> Idle" "\<not> (\<exists>c. asleep c (threads s ! t))"
  shows "\<exists>l. pcq_locks (cq s) l = Unlocked \<longrightarrow> (\<exists>s'. thread_step 0 t s = Some s')"
  using assms by (cases "threads s ! t") (auto simp: step_defs cond_ex)

lemma progress:
  assumes "mutex_inv s" "in_bounds (cq s)" "t < length (threads s)" "threads s ! t \<noteq> Idle"
    and "\<not> (\<exists>c. asleep c (threads s ! t))"
  shows "\<exists>u<length (threads s). \<exists>w s'. thread_step w u s = Some s'"
proof (cases "\<exists>l. holds (threads s ! t) l")
  case True
  then show ?thesis using holder_runs [OF assms(1-3)] assms(3) by blast
next
  case False
  then obtain l where l: "pcq_locks (cq s) l = Unlocked \<longrightarrow> (\<exists>s'. thread_step 0 t s = Some s')"
    using acquirer_runs [OF _ assms(4,5)] by blast
  show ?thesis
  proof (cases "\<exists>u<length (threads s). holds (threads s ! u) l")
    case True
    then show ?thesis using holder_runs [OF assms(1,2)] by blast
  next
    case False
    then have "pcq_locks (cq s) l = Unlocked" using assms(1) by (auto simp: mutex_inv_def)
    then show ?thesis using l assms(3) by blast
  qed
qed


section \<open>Runs along a schedule\<close>

datatype 'e event = Call_enqueue nat 'e | Call_dequeue nat | Run nat nat

fun event_step :: "nat list \<Rightarrow> nat list \<Rightarrow> 'e event \<Rightarrow> 'e conc \<Rightarrow> 'e conc option" where
  "event_step P C (Call_enqueue t e) s = (if t \<in> set P \<and> t < length (threads s)
     then (case threads s ! t of Idle \<Rightarrow> Some (goto t (E_lock_pusher e) s) | _ \<Rightarrow> None) else None)"
| "event_step P C (Call_dequeue t) s = (if t \<in> set C \<and> t < length (threads s)
     then (case threads s ! t of Idle \<Rightarrow> Some (goto t D_lock_popper s) | _ \<Rightarrow> None) else None)"
| "event_step P C (Run t w) s = (if t < length (threads s) then thread_step w t s else None)"

fun run_events :: "nat list \<Rightarrow> nat list \<Rightarrow> 'e event list \<Rightarrow> 'e conc \<Rightarrow> 'e conc option" where
  "run_events P C [] s = Some s"
| "run_events P C (ev # evs) s = (case event_step P C ev s of None \<Rightarrow> None | Some s' \<Rightarrow> run_events P C evs s')"

lemma event_step_step: "event_step P C ev s = Some s' \<Longrightarrow> pcq_step (set P) (set C) s s'"
  by (cases ev) (auto intro: pcq_step.intros split: if_splits loc.splits)

lemma run_events_reach:
  "pcq_reach n (set P) (set C) s \<Longrightarrow> run_events P C evs s = Some s' \<Longrightarrow> pcq_reach n (set P) (set C) s'"
proof (induction evs arbitrary: s)
  case (Cons ev evs)
  then obtain s1 where "event_step P C ev s = Some s1" "run_events P C evs s1 = Some s'"
    by (auto split: option.splits)
  then show ?case using Cons.IH [of s1] steps [OF Cons.prems(1) event_step_step] by blast
qed simp

text \<open>A queue for two elements, whose fresh memory holds zeros, to run examples on.\<close>

definition no_queue :: "nat pc_queue" where
  "no_queue = \<lparr>pcq_buffer = None, pcq_capacity = 0, pcq_current_size = 0, pcq_head = 0, pcq_tail = 0,
     pcq_locks = (\<lambda>_. Dead), pcq_conds = (\<lambda>_. False)\<rparr>"

definition no_failure :: "nat pcq_env" where
  "no_failure = \<lparr>buffer_null = False, buffer_junk = (\<lambda>_. 0), lock_init_fails = (\<lambda>_. False),
     cond_init_fails = (\<lambda>_. False)\<rparr>"

definition queue2 :: "nat pc_queue" where
  "queue2 = \<lparr>pcq_buffer = Some [0, 0], pcq_capacity = 2, pcq_current_size = 0, pcq_head = 0, pcq_tail = 0,
     pcq_locks = (\<lambda>_. Unlocked), pcq_conds = (\<lambda>_. True)\<rparr>"

lemma queue2_created: "pcq_create no_failure 2 no_queue = Inr (0, queue2)" "pcq_dead no_queue"
  by (simp_all add: pcq_create_def prog_simps mutex_init_def cond_init_def no_failure_def no_queue_def
      queue2_def lock_fun_eq cond_fun_eq upt_conv_Cons pcq_dead_def)

lemma queue2_ok: "pcq_ok queue2" "pcq_items queue2 = []" "pcq_cap queue2 = 2"
  by (simp_all add: queue2_def pcq_ok_def pcq_items_def pcq_cap_def)

definition start2 :: "nat \<Rightarrow> nat conc" where
  "start2 n = \<lparr>cq = queue2, threads = replicate n Idle, pushed = [], popped = []\<rparr>"

lemma start2_reach: "pcq_reach n P C (start2 n)"
  unfolding start2_def by (rule created [OF queue2_created(2) _ queue2_created(1)]) simp

text \<open>The steps of one call that never waits; a consumer that waits for the producer.\<close>

definition runs :: "nat \<Rightarrow> nat \<Rightarrow> 'e event list" where
  "runs t k = replicate k (Run t 1)"

definition wait_first :: "nat event list" where
  "wait_first = Call_dequeue 1 # runs 1 3 @ Call_enqueue 0 7 # runs 0 13 @ runs 1 13"

definition both_pass :: "nat event list" where
  "both_pass = Call_enqueue 0 7 # runs 0 13 @ Call_dequeue 1 # runs 1 3 @ Call_dequeue 2 # runs 2 3 @
     runs 1 10 @ runs 2 10"

lemma wait_first_run:
  "map_option (\<lambda>s. (pushed s, popped s, threads s)) (run_events [0] [1] wait_first (start2 2)) =
     Some ([7], [7], [Idle, Idle])"
  by code_simp

lemma sleep_run:
  "map_option (\<lambda>s. (pcq_current_size (cq s), threads s))
     (run_events [0] [1] (Call_dequeue 1 # runs 1 3 @ Call_enqueue 0 7 # runs 0 9) (start2 2)) =
     Some (1, [E_unlock_size, D_sleep])"
  by code_simp

lemma both_pass_run:
  "map_option (\<lambda>s. (pushed s, popped s, pcq_current_size (cq s))) (run_events [0] [1, 2] both_pass (start2 3)) =
     Some ([7], [7, 0], - 1)"
  by code_simp

lemma run_from_start:
  assumes "map_option f (run_events P C evs (start2 n)) = Some v"
  shows "\<exists>s. pcq_reach n (set P) (set C) s \<and> f s = v"
proof -
  from assms(1) obtain s where "run_events P C evs (start2 n) = Some s" "f s = v" by auto
  then show ?thesis using run_events_reach [OF start2_reach] by blast
qed

end
