(* ===== verification/PcqProps.thy ===== *)
theory PcqProps
  imports PcqRuns
begin

text \<open>
  What the queue of producer-consumer/producer-consumer.c promises: to one caller at a
  time, to one producer and one consumer, and to any number of threads; and what it does
  not promise to two consumers.
\<close>

section \<open>One caller at a time\<close>

text \<open>C14: A run of calls of pcq_enqueue and pcq_dequeue on a queue that is in order
  delivers exactly what the same run on a list of bounded length delivers, leaves the
  same elements behind, and keeps the queue in order.\<close>

theorem pcq_refines_list:
  assumes "pcq_ok q" "list_ops (pcq_cap q) (pcq_items q) ops = Some (out, rest)"
  shows "wp (run_ops pcq_enqueue pcq_dequeue ops)
    (\<lambda>r q'. r = out \<and> pcq_ok q' \<and> pcq_cap q' = pcq_cap q \<and> pcq_items q' = rest) q"
  by (rule pcq.run_list [OF assms])

theorem pcq_refines_list_witness:
  "wp (run_ops pcq_enqueue pcq_dequeue [Enq 5, Enq 6, Deq, Enq 7, Deq])
    (\<lambda>r q'. r = [5, 6] \<and> pcq_ok q' \<and> pcq_cap q' = pcq_cap queue2 \<and> pcq_items q' = [7]) queue2"
  by (rule pcq_refines_list) (simp_all add: queue2_ok)

text \<open>The queue is first in, first out: as many elements as fit come out of an empty
  queue in the order in which they went in.\<close>

theorem pcq_fifo:
  assumes "pcq_ok q" "pcq_items q = []" "length es \<le> pcq_cap q"
  shows "wp (run_ops pcq_enqueue pcq_dequeue (map Enq es @ replicate (length es) Deq))
    (\<lambda>r q'. r = es \<and> pcq_items q' = []) q"
  by (rule pcq.fifo_order [OF assms])

theorem pcq_fifo_witness:
  "wp (run_ops pcq_enqueue pcq_dequeue [Enq 3, Enq 4, Deq, Deq]) (\<lambda>r q'. r = [3, 4] \<and> pcq_items q' = []) queue2"
  using pcq_fifo [of queue2 "[3, 4]"] by (simp add: queue2_ok numeral_2_eq_2)

text \<open>pcq_enqueue waits exactly when the queue is full and pcq_dequeue exactly when it
  is empty; on a queue in order neither has any other way not to return.\<close>

theorem pcq_blocks_iff:
  assumes "pcq_ok q"
  shows "(pcq_enqueue e q = Inl Blocked \<longleftrightarrow> length (pcq_items q) = pcq_cap q) \<and>
    (pcq_dequeue q = Inl Blocked \<longleftrightarrow> pcq_items q = []) \<and>
    (\<forall>err. pcq_enqueue e q = Inl err \<or> pcq_dequeue q = Inl err \<longrightarrow> err = Blocked)"
proof -
  have "length (pcq_items q) \<le> pcq_cap q" by (rule pcq.bounded [OF assms])
  then show ?thesis
    using pcq_enqueue_eq [OF assms, of e] pcq_dequeue_eq [OF assms]

    by (auto simp: unat_eq_zero pcq_items_def pcq_cap_def split: if_splits)
qed

theorem pcq_blocks_iff_witness:
  "pcq_dequeue queue2 = Inl Blocked \<and> pcq_enqueue 1 queue2 \<noteq> Inl Blocked"
  using pcq_blocks_iff [OF queue2_ok(1), of 1] by (simp add: queue2_ok)

text \<open>C36: pcq_create either returns 0 with an empty queue in order, of the given
  capacity, or returns -1 and leaves nothing behind: no buffer, and every mutex and
  condition it had initialised destroyed, whichever of its calls failed.\<close>

theorem pcq_create_all_or_nothing:
  assumes "pcq_dead q" "unat capacity < 2 ^ 61"
  shows "wp (pcq_create env capacity) (\<lambda>r q'.
    if capacity = 0 \<or> buffer_null env \<or> (\<exists>l. lock_init_fails env l) \<or> (\<exists>c. cond_init_fails env c)
    then r = - 1 \<and> pcq_dead q'
    else r = 0 \<and> pcq_ok q' \<and> pcq_items q' = [] \<and> pcq_cap q' = unat capacity) q"
  by (rule wp_mono [OF pcq_create_cases [OF assms]]) (auto split: if_splits)

theorem pcq_create_all_or_nothing_witness:
  "wp (pcq_create (no_failure\<lparr>lock_init_fails := \<lambda>l. l = Popper_condvar_lock\<rparr>) 2)
    (\<lambda>r q'. r = - 1 \<and> pcq_dead q') no_queue"
  using pcq_create_all_or_nothing [OF queue2_created(2), of 2
      "no_failure\<lparr>lock_init_fails := \<lambda>l. l = Popper_condvar_lock\<rparr>"] by simp

text \<open>pcq_destroy of a queue in order succeeds and gives everything back.\<close>

theorem pcq_destroy_returns_all:
  assumes "pcq_ok q" shows "wp pcq_destroy (\<lambda>r q'. r = 0 \<and> pcq_dead q') q"
  by (rule pcq_destroy_dead [OF assms])

theorem pcq_destroy_returns_all_witness: "wp pcq_destroy (\<lambda>r q'. r = 0 \<and> pcq_dead q') queue2"
  by (rule pcq_destroy_returns_all [OF queue2_ok(1)])

text \<open>The size of the buffer, capacity * 8 in 64 bits, wraps around: a queue of
  capacity 2 to the 61 is created without an error, on an empty buffer, and its first
  pcq_enqueue writes outside it.\<close>

theorem pcq_capacity_wraps:
  "\<exists>q. pcq_create no_failure (2 ^ 61) no_queue = Inr (0, q) \<and> pcq_enqueue 1 q = Inl Undef"
  by (simp add: pcq_create_def pcq_enqueue_def prog_simps mutex_init_def cond_init_def no_failure_def
      no_queue_def mutex_lock_def mutex_unlock_def wr_def)

section \<open>Threads\<close>

text \<open>C13: With one producer and one consumer, however their steps interleave, the elements
  taken out are a prefix of the elements put in, in the same order, and never more than
  the capacity are in between.\<close>

theorem spsc_fifo:
  assumes "pcq_reach 2 {0} {1} s"
  shows "prefix (popped s) (pushed s) \<and> length (pushed s) \<le> length (popped s) + pcq_cap (cq s)"
proof -
  from spsc_reach [OF assms] obtain a b where s: "spsc s a b" by blast
  then have "popped s = take (length (popped s)) (pushed s)" by (simp add: spsc_def ring_def)
  then have "prefix (popped s) (pushed s)" by (metis take_is_prefix)
  moreover have "length (pushed s) \<le> length (popped s) + pcq_cap (cq s)"
    using s at_most_cap by (auto simp: spsc_def)
  ultimately show ?thesis by blast
qed

theorem spsc_fifo_witness:
  "\<exists>s :: nat conc. pcq_reach 2 {0} {1} s \<and> popped s = [7] \<and> prefix (popped s) (pushed s)"
proof -
  from run_from_start [OF wait_first_run] obtain s :: "nat conc" where "pcq_reach 2 {0} {1} s" "popped s = [7]" by auto
  then show ?thesis using spsc_fifo [of s] by blast
qed

text \<open>C17: No wakeup is lost between one producer and one consumer: while the consumer
  sleeps, the queue is empty or the producer is on its way to the signal; while the
  producer sleeps, it is full or the consumer is on its way; and both never sleep.\<close>

theorem spsc_no_lost_wakeup:
  assumes "pcq_reach 2 {0} {1} s"
  shows "(threads s ! 1 = D_sleep \<longrightarrow> pcq_current_size (cq s) = 0 \<or>
      threads s ! 0 \<in> {E_unlock_size, E_lock_popper, E_signal}) \<and>
    (\<forall>e. threads s ! 0 = E_sleep e \<longrightarrow> pcq_current_size (cq s) = pcq_capacity (cq s) \<or>
      (\<exists>x. threads s ! 1 \<in> {D_unlock_size x, D_lock_pusher x, D_signal x})) \<and>
    \<not> (threads s ! 1 = D_sleep \<and> (\<exists>e. threads s ! 0 = E_sleep e))"
proof -
  from spsc_reach [OF assms] obtain a b where s: "spsc s a b" by blast
  then have "0 < pcq_cap (cq s)" by (simp add: spsc_def counters_def)
  then have "pcq_capacity (cq s) \<noteq> 0" by (auto simp: pcq_cap_def)
  then show ?thesis using s by (auto simp: spsc_def wake_ok_def)
qed

theorem spsc_no_lost_wakeup_witness:
  "\<exists>s :: nat conc. pcq_reach 2 {0} {1} s \<and> threads s ! 1 = D_sleep \<and> pcq_current_size (cq s) = 1 \<and>
     threads s ! 0 \<in> {E_unlock_size, E_lock_popper, E_signal}"
proof -
  from run_from_start [OF sleep_run] obtain s :: "nat conc" where s: "pcq_reach 2 {0} {1} s" "threads s ! 1 = D_sleep"
    "pcq_current_size (cq s) = 1" by auto
  then show ?thesis using spsc_no_lost_wakeup [OF s(1)] by auto
qed

text \<open>C35: For any number of producers and consumers, no two threads hold the same lock
  and a lock is taken exactly while a thread holds it.\<close>

theorem pcq_mutual_exclusion:
  assumes "pcq_reach n P C s"
  shows "(\<forall>l t u. t < n \<and> u < n \<and> holds (threads s ! t) l \<and> holds (threads s ! u) l \<longrightarrow> t = u) \<and>
    (\<forall>l. pcq_locks (cq s) l = Locked \<longleftrightarrow> (\<exists>t<n. holds (threads s ! t) l))"
  using mutex_reach [OF assms] unfolding mutex_inv_def by auto

theorem pcq_mutual_exclusion_witness:
  "\<exists>s :: nat conc. pcq_reach 2 {0} {1} s \<and> pcq_locks (cq s) Current_size_lock = Locked"
proof -
  from run_from_start [OF sleep_run] obtain s :: "nat conc" where s: "pcq_reach 2 {0} {1} s"
    "threads s ! 0 = E_unlock_size" by auto
  then have "\<exists>t<2. holds (threads s ! t) Current_size_lock" by (auto intro: exI [of _ 0])
  then show ?thesis using pcq_mutual_exclusion [OF s(1)] s(1) by blast
qed

text \<open>C18: The locks never deadlock: for any number of threads, while one is inside a call
  and not asleep, some thread has a step.\<close>

theorem pcq_deadlock_free:
  assumes "pcq_reach n P C s" "t < n" "threads s ! t \<noteq> Idle" "\<not> (\<exists>c. asleep c (threads s ! t))"
  shows "\<exists>u<n. \<exists>w s'. thread_step w u s = Some s'"
  using progress [of s t] mutex_reach [OF assms(1)] in_bounds_reach [OF assms(1)] assms(2-4) by auto

theorem pcq_deadlock_free_witness:
  "\<exists>s :: nat conc. pcq_reach 2 {0} {1} s \<and> (\<exists>u<2. \<exists>w s'. thread_step w u s = Some s')"
proof -
  from run_from_start [OF sleep_run] obtain s :: "nat conc" where s: "pcq_reach 2 {0} {1} s"
    "threads s ! 0 = E_unlock_size" by auto
  then show ?thesis using pcq_deadlock_free [OF s(1), of 0] by (auto simp: cond_ex)
qed

text \<open>C30: Two consumers break the queue: both can pass the check of the size before
  either takes the only element, and then one gets memory that nobody put in and the
  size wraps around to 2 to the 64 minus 1.\<close>

theorem two_consumers_break_fifo:
  "\<exists>s :: nat conc. pcq_reach 3 {0} {1, 2} s \<and> \<not> prefix (popped s) (pushed s) \<and>
     unat (pcq_current_size (cq s)) = 2 ^ 64 - 1"
proof -
  from run_from_start [OF both_pass_run] obtain s :: "nat conc" where s: "pcq_reach 3 {0} {1, 2} s"
    "pushed s = [7]" "popped s = [7, 0]" "pcq_current_size (cq s) = - 1" by auto
  then have "\<not> prefix (popped s) (pushed s)" "unat (pcq_current_size (cq s)) = 2 ^ 64 - 1"
    by (simp_all add: unsigned_minus_1_eq_mask mask_eq_exp_minus_1)
  with s(1) show ?thesis by blast
qed

end
