(* ===== verification/Os.thy ===== *)
theory Os
  imports CMem
begin

text \<open>
  What the programs see of the operating system (descriptors, named pipes, errors), and
  utils/common.c, the functions all of them share. What the other ends of the pipes do is
  part of the state as a script: the pieces in which bytes arrive, the calls that fail
  and with which error, how many bytes a write takes.
\<close>

section \<open>Descriptors and pipes\<close>

definition ENOENT :: int where "ENOENT = 2"
definition EINTR :: int where "EINTR = 4"
definition EBADF :: int where "EBADF = 9"
definition EPIPE :: int where "EPIPE = 32"

text \<open>
  What a read meets: bytes that are there (none: the writers have closed), or an error.
  What a write meets: the number of bytes it can leave, or an error.
\<close>

datatype arrival = Chunk "byte list" | Read_fails int
datatype acceptance = Accept nat | Write_fails int

record os =
  inbox :: "int \<Rightarrow> arrival list"
  accepts :: "int \<Rightarrow> acceptance list"
  outbox :: "int \<Rightarrow> byte list"
  opens :: "byte list \<Rightarrow> int list"
  open_fds :: "int list"
  path_calls :: "(int \<times> int) list"
  errno :: int

text \<open>
  The calls. Past the end of its script a read finds the pipe closed, a write leaves all
  its bytes, and an \<open>open\<close> of a pipe waits for the other end. A negative number in the
  script of \<open>open\<close> is an error, the negative of its \<open>errno\<close>.
\<close>

definition sys_read :: "int \<Rightarrow> nat \<Rightarrow> ('a os_scheme, int \<times> byte list) prog" where
  "sys_read fd count = (\<lambda>s.
     if fd \<notin> set (open_fds s) then Inr ((- 1, []), s\<lparr>errno := EBADF\<rparr>)
     else case inbox s fd of
       [] \<Rightarrow> Inr ((0, []), s)
     | Read_fails e # later \<Rightarrow> Inr ((- 1, []), s\<lparr>inbox := (inbox s)(fd := later), errno := e\<rparr>)
     | Chunk bs # later \<Rightarrow>
         Inr ((int (min count (length bs)), take count bs),
           s\<lparr>inbox := (inbox s)(fd := (if count < length bs then Chunk (drop count bs) # later else later))\<rparr>))"

definition sys_write :: "int \<Rightarrow> byte list \<Rightarrow> ('a os_scheme, int) prog" where
  "sys_write fd bs = (\<lambda>s.
     if fd \<notin> set (open_fds s) then Inr (- 1, s\<lparr>errno := EBADF\<rparr>)
     else case accepts s fd of
       [] \<Rightarrow> Inr (int (length bs), s\<lparr>outbox := (outbox s)(fd := outbox s fd @ bs)\<rparr>)
     | Write_fails e # later \<Rightarrow> Inr (- 1, s\<lparr>accepts := (accepts s)(fd := later), errno := e\<rparr>)
     | Accept n # later \<Rightarrow>
         Inr (int (min n (length bs)), s\<lparr>accepts := (accepts s)(fd := later),
           outbox := (outbox s)(fd := outbox s fd @ take n bs)\<rparr>))"

definition sys_open :: "byte list \<Rightarrow> ('a os_scheme, int) prog" where
  "sys_open path = bind (defined (c_strlen path)) (\<lambda>n. (\<lambda>s.
     case opens s (take n path) of
       [] \<Rightarrow> Inl Blocked
     | fd # later \<Rightarrow>
         (let s' = s\<lparr>opens := (opens s)(take n path := later)\<rparr> in
          if fd < 0 then Inr (- 1, s'\<lparr>errno := - fd\<rparr>) else Inr (fd, s'\<lparr>open_fds := fd # open_fds s\<rparr>))))"

definition sys_close :: "int \<Rightarrow> ('a os_scheme, int) prog" where
  "sys_close fd = (\<lambda>s.
     if fd \<in> set (open_fds s) then Inr (0, s\<lparr>open_fds := remove1 fd (open_fds s)\<rparr>)
     else Inr (- 1, s\<lparr>errno := EBADF\<rparr>))"

text \<open>\<open>unlink\<close> and \<open>mkfifo\<close>: the value and \<open>errno\<close> of the next call; without one, success.\<close>

definition path_call :: "byte list \<Rightarrow> ('a os_scheme, int) prog" where
  "path_call path = bind (defined (c_strlen path)) (\<lambda>_. (\<lambda>s.
     case path_calls s of
       [] \<Rightarrow> Inr (0, s)
     | (r, e) # later \<Rightarrow> Inr (r, s\<lparr>path_calls := later, errno := (if r < 0 then e else errno s)\<rparr>)))"

definition sys_unlink :: "byte list \<Rightarrow> ('a os_scheme, int) prog" where
  "sys_unlink = path_call"

definition sys_mkfifo :: "byte list \<Rightarrow> ('a os_scheme, int) prog" where
  "sys_mkfifo = path_call"

section \<open>utils/common.c\<close>

text \<open>\<open>read\<close> and \<open>write\<close>, again as long as a signal interrupts them.\<close>

function try_read :: "int \<Rightarrow> nat \<Rightarrow> ('a os_scheme, int \<times> byte list) prog" where
  "try_read fd count s =
     (case sys_read fd count s of
        Inl a \<Rightarrow> Inl a
      | Inr ((bytes_read, buf), s') \<Rightarrow>
          if bytes_read < 0 \<and> errno s' = EINTR then try_read fd count s' else Inr ((bytes_read, buf), s'))"
  by pat_completeness auto
termination
  by (relation "measure (\<lambda>(fd, count, s). length (inbox s fd))")
    (auto simp: sys_read_def EINTR_def EBADF_def split: if_splits list.splits arrival.splits)

function try_write :: "int \<Rightarrow> byte list \<Rightarrow> ('a os_scheme, int) prog" where
  "try_write fd buf s =
     (case sys_write fd buf s of
        Inl a \<Rightarrow> Inl a
      | Inr (bytes_written, s') \<Rightarrow>
          if bytes_written < 0 \<and> errno s' = EINTR then try_write fd buf s' else Inr (bytes_written, s'))"
  by pat_completeness auto
termination
  by (relation "measure (\<lambda>(fd, buf, s). length (accepts s fd))")
    (auto simp: sys_write_def EINTR_def EBADF_def split: if_splits list.splits acceptance.splits)

declare try_read.simps [simp del] try_write.simps [simp del]

text \<open>
  The macros \<open>read_pipe\<close>, \<open>write_pipe\<close> and \<open>safe_close\<close> of common.h: they leave the
  function they are used in with -1 when the call falls short.
\<close>

definition read_pipe :: "int \<Rightarrow> nat \<Rightarrow> (byte list \<Rightarrow> ('a os_scheme, int) prog) \<Rightarrow> ('a os_scheme, int) prog" where
  "read_pipe fd count rest =
     bind (try_read fd count) (\<lambda>(n, bs). if n \<noteq> int count then ret (- 1) else rest bs)"

definition write_pipe :: "int \<Rightarrow> byte list \<Rightarrow> ('a os_scheme, int) prog \<Rightarrow> ('a os_scheme, int) prog" where
  "write_pipe fd bs rest =
     bind (try_write fd bs) (\<lambda>n. if n \<noteq> int (length bs) then ret (- 1) else rest)"

definition safe_close :: "int \<Rightarrow> ('a os_scheme, int) prog \<Rightarrow> ('a os_scheme, int) prog" where
  "safe_close fd rest = bind (sys_close fd) (\<lambda>r. if r < 0 then ret (- 1) else rest)"

definition CLIENT_NAMED_PIPE_PATH_LENGTH :: nat where "CLIENT_NAMED_PIPE_PATH_LENGTH = 255"
definition BOX_NAME_LENGTH :: nat where "BOX_NAME_LENGTH = 31"
definition MESSAGE_LENGTH :: nat where "MESSAGE_LENGTH = 1023"
definition MAX_BOXES :: nat where "MAX_BOXES = 64"
definition BOX_SIZE :: nat where "BOX_SIZE = 16384"

lemmas wire_sizes = CLIENT_NAMED_PIPE_PATH_LENGTH_def BOX_NAME_LENGTH_def MESSAGE_LENGTH_def
  MAX_BOXES_def BOX_SIZE_def

text \<open>
  The request a client sends. \<open>null\<close>: \<open>malloc\<close> fails, and the buffer is cleared before
  that is noticed. The names are copied up to their terminator, whatever their length.
\<close>

definition parse_message :: "bool \<Rightarrow> byte \<Rightarrow> byte list \<Rightarrow> byte list option \<Rightarrow> byte list option" where
  "parse_message null opcode pipename box_name =
     (if null then None
      else let buffer = replicate (1 + CLIENT_NAMED_PIPE_PATH_LENGTH + BOX_NAME_LENGTH) 0 in
        Option.bind (c_store 0 [opcode] buffer) (\<lambda>buffer.
        Option.bind (c_strlen pipename) (\<lambda>n.
        Option.bind (c_store 1 (take n pipename) buffer) (\<lambda>buffer.
        case box_name of None \<Rightarrow> Some buffer
        | Some name \<Rightarrow>
            Option.bind (c_strlen name) (\<lambda>n.
            c_store (1 + CLIENT_NAMED_PIPE_PATH_LENGTH) (take n name) buffer)))))"

section \<open>Reading and writing\<close>

lemma try_read_not_interrupted:
  "try_read fd count s = Inr ((n, bs), s') \<Longrightarrow> \<not> (n < 0 \<and> errno s' = EINTR)"
proof (induction fd count s rule: try_read.induct)
  case (1 fd count s)
  obtain m cs s1 where r: "sys_read fd count s = Inr ((m, cs), s1)"
    using 1(2) by (subst (asm) try_read.simps) (auto split: sum.splits)
  show ?case
  proof (cases "m < 0 \<and> errno s1 = EINTR")
    case True
    then have "try_read fd count s = try_read fd count s1" by (subst try_read.simps) (simp add: r)
    then show ?thesis using 1(1) [OF r _ _ True] 1(2) by simp
  next
    case False
    then show ?thesis using 1(2) by (subst (asm) try_read.simps) (auto simp: r)
  qed
qed

lemma try_read_data:
  assumes "fd \<in> set (open_fds s)" "inbox s fd = replicate k (Read_fails EINTR) @ Chunk bs # later"
  shows "\<exists>e. try_read fd count s = Inr ((int (min count (length bs)), take count bs),
    s\<lparr>inbox := (inbox s)(fd := (if count < length bs then Chunk (drop count bs) # later else later)), errno := e\<rparr>)"
  using assms
proof (induction k arbitrary: s)
  case 0
  then show ?case by (intro exI [of _ "errno s"]) (subst try_read.simps, simp add: sys_read_def)
next
  case (Suc k)
  let ?s = "s\<lparr>inbox := (inbox s)(fd := replicate k (Read_fails EINTR) @ Chunk bs # later), errno := EINTR\<rparr>"
  have upd: "?s\<lparr>inbox := (inbox ?s)(fd := x), errno := e\<rparr> = s\<lparr>inbox := (inbox s)(fd := x), errno := e\<rparr>" for x e
    by simp
  have "try_read fd count s = try_read fd count ?s"
    using Suc.prems by (subst try_read.simps) (simp add: sys_read_def)
  moreover have "fd \<in> set (open_fds ?s)" "inbox ?s fd = replicate k (Read_fails EINTR) @ Chunk bs # later"
    using Suc.prems(1) by simp_all
  from Suc.IH [OF this] obtain e where "try_read fd count ?s = Inr ((int (min count (length bs)), take count bs),
      ?s\<lparr>inbox := (inbox ?s)(fd := (if count < length bs then Chunk (drop count bs) # later else later)), errno := e\<rparr>)"
    by blast
  ultimately have "try_read fd count s = Inr ((int (min count (length bs)), take count bs),
      s\<lparr>inbox := (inbox s)(fd := (if count < length bs then Chunk (drop count bs) # later else later)), errno := e\<rparr>)"
    by (simp only: upd)
  then show ?case by blast
qed

lemma try_read_chunk:
  assumes "fd \<in> set (open_fds s)" "inbox s fd = Chunk bs # later"
  shows "try_read fd count s = Inr ((int (min count (length bs)), take count bs),
    s\<lparr>inbox := (inbox s)(fd := (if count < length bs then Chunk (drop count bs) # later else later))\<rparr>)"
  using assms by (subst try_read.simps) (simp add: sys_read_def)

text \<open>Reading exactly the first part of what is there.\<close>

definition arrived :: "byte list \<Rightarrow> arrival list \<Rightarrow> arrival list" where
  "arrived bs later = (if bs = [] then later else Chunk bs # later)"

lemma try_read_exact:
  assumes "fd \<in> set (open_fds s)" "inbox s fd = arrived (xs @ ys) later" "xs \<noteq> []"
  shows "try_read fd (length xs) s = Inr ((int (length xs), xs), s\<lparr>inbox := (inbox s)(fd := arrived ys later)\<rparr>)"
proof -
  have "inbox s fd = Chunk (xs @ ys) # later" using assms(2,3) by (simp add: arrived_def)
  from try_read_chunk [OF assms(1) this, of "length xs"] show ?thesis by (simp add: arrived_def)
qed

lemma read_pipe_exact:
  assumes "fd \<in> set (open_fds s)" "inbox s fd = arrived (xs @ ys) later" "xs \<noteq> []" "count = length xs"
  shows "read_pipe fd count rest s = rest xs (s\<lparr>inbox := (inbox s)(fd := arrived ys later)\<rparr>)"
  using try_read_exact [OF assms(1-3)] by (simp add: read_pipe_def bind_def assms(4))

lemma try_write_all:
  assumes "fd \<in> set (open_fds s)" "accepts s fd = []"
  shows "try_write fd bs s = Inr (int (length bs), s\<lparr>outbox := (outbox s)(fd := outbox s fd @ bs)\<rparr>)"
  using assms by (subst try_write.simps) (simp add: sys_write_def)

lemma write_pipe_all:
  assumes "fd \<in> set (open_fds s)" "accepts s fd = []"
  shows "write_pipe fd bs rest s = rest (s\<lparr>outbox := (outbox s)(fd := outbox s fd @ bs)\<rparr>)"
  using try_write_all [OF assms] by (simp add: write_pipe_def bind_def)

lemma try_read_closed:
  assumes "fd \<in> set (open_fds s)" "inbox s fd = []"
  shows "try_read fd count s = Inr ((0, []), s)"
  using assms by (subst try_read.simps) (simp add: sys_read_def)

section \<open>The request\<close>

text \<open>A field of a frame: a string and zeros up to the field's length.\<close>

definition field :: "nat \<Rightarrow> byte list \<Rightarrow> byte list" where
  "field n xs = xs @ replicate (n - length xs) 0"

lemma length_field [simp]: "length xs \<le> n \<Longrightarrow> length (field n xs) = n"
  by (simp add: field_def)

lemma c_str_field: "0 \<notin> set xs \<Longrightarrow> c_str (field n xs) = xs"
  by (cases "n - length xs") (auto simp: field_def c_str_def takeWhile_append)

lemma is_cstr_field: "length xs < n \<Longrightarrow> is_cstr (field n xs)"
  by (simp add: field_def is_cstr_def)

lemma take_cstr: "is_cstr m \<Longrightarrow> take (length (c_str m)) m = c_str m"
  using cstr_split [of m] by (metis append_eq_conv_conj)

lemma write_field:
  assumes "length ys \<le> n"
  shows "write_at (length xs) ys (xs @ replicate n 0 @ zs) = xs @ field n ys @ zs"
  using assms by (simp add: write_at_def field_def)

lemma parse_message_layout:
  assumes "is_cstr p" "length (c_str p) \<le> CLIENT_NAMED_PIPE_PATH_LENGTH"
    and "is_cstr b" "length (c_str b) \<le> BOX_NAME_LENGTH"
  shows "parse_message False opcode p (Some b) =
      Some (opcode # field CLIENT_NAMED_PIPE_PATH_LENGTH (c_str p) @ field BOX_NAME_LENGTH (c_str b))"
    and "parse_message False opcode p None =
      Some (opcode # field CLIENT_NAMED_PIPE_PATH_LENGTH (c_str p) @ field BOX_NAME_LENGTH [])"
proof -
  let ?P = CLIENT_NAMED_PIPE_PATH_LENGTH and ?B = BOX_NAME_LENGTH
  have z: "replicate (1 + ?P + ?B) (0 :: byte) = 0 # replicate ?P 0 @ replicate ?B 0"
    by (simp add: replicate_add)
  have 0: "c_store 0 [opcode] (0 # m) = Some (opcode # m)" for m
    by (simp add: c_store_def write_at_def)
  have 1: "c_store 1 (c_str p) (opcode # replicate ?P 0 @ m) = Some (opcode # field ?P (c_str p) @ m)" for m
    using write_field [OF assms(2), of "[opcode]" m] assms(2) by (simp add: c_store_def)
  have 2: "c_store (1 + ?P) (c_str b) (opcode # field ?P (c_str p) @ replicate ?B 0) =
      Some (opcode # field ?P (c_str p) @ field ?B (c_str b))"
    using write_field [OF assms(4), of "opcode # field ?P (c_str p)" "[]"] assms(2,4) by (simp add: c_store_def)
  show "parse_message False opcode p (Some b) = Some (opcode # field ?P (c_str p) @ field ?B (c_str b))"
    unfolding parse_message_def z using 2
    by (simp add: Let_def 0 1 [simplified] c_strlen_some assms(1,3) take_cstr)
  show "parse_message False opcode p None = Some (opcode # field ?P (c_str p) @ field ?B [])"
    unfolding parse_message_def z
    by (simp add: Let_def 0 1 [simplified] c_strlen_some assms(1) take_cstr field_def)
qed

end
