(* ===== verification/Broker.thy ===== *)
theory Broker
  imports Os Pcq FsOps
begin

text \<open>
  mbroker/mbroker.c: the data of the broker and its operations, each as the code of one
  thread that runs undisturbed up to the point where it waits. The broker's state
  contains the file system (fs/), the queue of requests (producer-consumer/) and the
  descriptors it has open (\<open>Os\<close>). The lines it prints are left out.
\<close>

section \<open>Data\<close>

definition OP_CODE_REGIST_PUB :: byte where "OP_CODE_REGIST_PUB = 1"
definition OP_CODE_REGIST_SUB :: byte where "OP_CODE_REGIST_SUB = 2"
definition OP_CODE_CREATE_BOX :: byte where "OP_CODE_CREATE_BOX = 3"
definition OP_CODE_CREATE_BOX_ANSWER :: byte where "OP_CODE_CREATE_BOX_ANSWER = 4"
definition OP_CODE_REMOVE_BOX :: byte where "OP_CODE_REMOVE_BOX = 5"
definition OP_CODE_REMOVE_BOX_ANSWER :: byte where "OP_CODE_REMOVE_BOX_ANSWER = 6"
definition OP_CODE_LIST_BOXES :: byte where "OP_CODE_LIST_BOXES = 7"
definition OP_CODE_LIST_BOXES_ANSWER :: byte where "OP_CODE_LIST_BOXES_ANSWER = 8"
definition OP_CODE_PUBLISHER :: byte where "OP_CODE_PUBLISHER = 9"
definition OP_CODE_SUBSCRIBER :: byte where "OP_CODE_SUBSCRIBER = 10"

lemmas op_codes = OP_CODE_REGIST_PUB_def OP_CODE_REGIST_SUB_def OP_CODE_CREATE_BOX_def
  OP_CODE_CREATE_BOX_ANSWER_def OP_CODE_REMOVE_BOX_def OP_CODE_REMOVE_BOX_ANSWER_def
  OP_CODE_LIST_BOXES_def OP_CODE_LIST_BOXES_ANSWER_def OP_CODE_PUBLISHER_def OP_CODE_SUBSCRIBER_def

record request_t =
  rq_opcode :: byte
  rq_pipename :: "byte list"
  rq_box_name :: "byte list"

record box_t =
  b_name :: "byte list"
  b_size :: u64
  b_publishers :: u64
  b_subscribers :: u64
  b_cond :: bool
  b_lock :: lock_state

text \<open>
  The pointer to a box that a session keeps: \<open>NULL\<close>, an element of \<open>boxes\<close>, or whatever
  the memory of the sessions held when it was allocated.
\<close>

datatype box_ref = No_box | Box nat | Wild

record client_t =
  cl_opcode :: byte
  cl_session :: int
  cl_box_name :: "byte list"
  cl_box :: box_ref
  cl_offset :: int
  cl_box_fd :: int
  cl_pipename :: "byte list"
  cl_pipe :: int

record broker = os +
  max_sessions :: u64
  num_boxes :: int
  server_pipe :: int
  pc_queue :: "request_t pc_queue"
  clients :: "client_t list option"
  boxes :: "box_t list"
  free_boxes :: "bool list"
  boxes_lock :: lock_state
  tfs :: fs_state

type_synonym 'a mb = "(broker, 'a) prog"

section \<open>Access to the parts\<close>

definition in_tfs :: "'a fs \<Rightarrow> 'a mb" where
  "in_tfs = zoom tfs tfs_update"

definition in_queue :: "(request_t, 'a) pcq \<Rightarrow> 'a mb" where
  "in_queue = zoom pc_queue pc_queue_update"

definition client_at :: "nat \<Rightarrow> client_t mb" where
  "client_at c = rd clients c"

definition set_client :: "nat \<Rightarrow> (client_t \<Rightarrow> client_t) \<Rightarrow> unit mb" where
  "set_client c f = bind (client_at c) (\<lambda>cl. wr clients clients_update c (f cl))"

definition box_at :: "nat \<Rightarrow> box_t mb" where
  "box_at i = (\<lambda>s. if i < length (boxes s) then Inr (boxes s ! i, s) else Inl Undef)"

definition set_box :: "nat \<Rightarrow> (box_t \<Rightarrow> box_t) \<Rightarrow> unit mb" where
  "set_box i f = (\<lambda>s. if i < length (boxes s)
     then Inr ((), s\<lparr>boxes := (boxes s)[i := f (boxes s ! i)]\<rparr>) else Inl Undef)"

definition set_free_box :: "nat \<Rightarrow> bool \<Rightarrow> unit mb" where
  "set_free_box i b = (\<lambda>s. if i < length (free_boxes s)
     then Inr ((), s\<lparr>free_boxes := (free_boxes s)[i := b]\<rparr>) else Inl Undef)"

definition box_is_free :: "nat \<Rightarrow> bool mb" where
  "box_is_free i = (\<lambda>s. if i < length (free_boxes s) then Inr (free_boxes s ! i, s) else Inl Undef)"

text \<open>\<open>client->box\<close> as the index of the box; \<open>NULL\<close> and a wild pointer lead nowhere.\<close>

definition client_box :: "nat \<Rightarrow> nat mb" where
  "client_box c = bind (client_at c) (\<lambda>cl. case cl_box cl of Box i \<Rightarrow> ret i | _ \<Rightarrow> stop Undef)"

text \<open>\<open>safe_mutex_lock\<close> and \<open>safe_mutex_unlock\<close> on the lock of all boxes and on a box's own.\<close>

definition take_lock :: "lock_state \<Rightarrow> ('s \<Rightarrow> 's) \<Rightarrow> ('s, unit) prog" where
  "take_lock l upd = (case l of Dead \<Rightarrow> stop Undef | Locked \<Rightarrow> stop Blocked | Unlocked \<Rightarrow> modify upd)"

definition give_lock :: "lock_state \<Rightarrow> ('s \<Rightarrow> 's) \<Rightarrow> ('s, unit) prog" where
  "give_lock l upd = (if l = Locked then modify upd else stop Undef)"

definition lock_boxes :: "unit mb" where
  "lock_boxes = bind (gets boxes_lock) (\<lambda>l. take_lock l (boxes_lock_update (\<lambda>_. Locked)))"

definition unlock_boxes :: "unit mb" where
  "unlock_boxes = bind (gets boxes_lock) (\<lambda>l. give_lock l (boxes_lock_update (\<lambda>_. Unlocked)))"

definition lock_box :: "nat \<Rightarrow> unit mb" where
  "lock_box i = bind (box_at i) (\<lambda>b. bind (take_lock (b_lock b) id) (\<lambda>_. set_box i (b_lock_update (\<lambda>_. Locked))))"

definition unlock_box :: "nat \<Rightarrow> unit mb" where
  "unlock_box i = bind (box_at i) (\<lambda>b. bind (give_lock (b_lock b) id) (\<lambda>_. set_box i (b_lock_update (\<lambda>_. Unlocked))))"

text \<open>Each of them at a state in which it succeeds.\<close>

named_theorems mb_simps "evaluation of the accesses to the broker's state"

lemma in_tfs_app [mb_simps]:
  "in_tfs m s = (case m (tfs s) of Inl a \<Rightarrow> Inl a | Inr (x, t) \<Rightarrow> Inr (x, s\<lparr>tfs := t\<rparr>))"
  by (simp add: in_tfs_def zoom_def)

lemma client_at_app [mb_simps]: "clients s = Some cls \<Longrightarrow> c < length cls \<Longrightarrow> client_at c s = Inr (cls ! c, s)"
  by (simp add: client_at_def rd_app)

lemma set_client_app [mb_simps]:
  "clients s = Some cls \<Longrightarrow> c < length cls \<Longrightarrow>
     set_client c f s = Inr ((), s\<lparr>clients := Some (cls[c := f (cls ! c)])\<rparr>)"
  by (simp add: set_client_def client_at_def prog_simps)

lemma client_box_app [mb_simps]:
  "clients s = Some cls \<Longrightarrow> c < length cls \<Longrightarrow> cl_box (cls ! c) = Box i \<Longrightarrow> client_box c s = Inr (i, s)"
  by (simp add: client_box_def prog_simps client_at_def)

lemma box_at_app [mb_simps]: "i < length (boxes s) \<Longrightarrow> box_at i s = Inr (boxes s ! i, s)"
  by (simp add: box_at_def)

lemma set_box_app [mb_simps]:
  "i < length (boxes s) \<Longrightarrow> set_box i f s = Inr ((), s\<lparr>boxes := (boxes s)[i := f (boxes s ! i)]\<rparr>)"
  by (simp add: set_box_def)

lemma lock_box_app [mb_simps]:
  "i < length (boxes s) \<Longrightarrow> b_lock (boxes s ! i) = Unlocked \<Longrightarrow>
     lock_box i s = Inr ((), s\<lparr>boxes := (boxes s)[i := (boxes s ! i)\<lparr>b_lock := Locked\<rparr>]\<rparr>)"
  by (simp add: lock_box_def prog_simps box_at_def set_box_def take_lock_def)

lemma lock_box_held [mb_simps]:
  "i < length (boxes s) \<Longrightarrow> b_lock (boxes s ! i) = Locked \<Longrightarrow> lock_box i s = Inl Blocked"
  by (simp add: lock_box_def prog_simps box_at_def take_lock_def)

lemma unlock_box_app [mb_simps]:
  "i < length (boxes s) \<Longrightarrow> b_lock (boxes s ! i) = Locked \<Longrightarrow>
     unlock_box i s = Inr ((), s\<lparr>boxes := (boxes s)[i := (boxes s ! i)\<lparr>b_lock := Unlocked\<rparr>]\<rparr>)"
  by (simp add: unlock_box_def prog_simps box_at_def set_box_def give_lock_def)

lemma lock_boxes_app [mb_simps]:
  "boxes_lock s = Unlocked \<Longrightarrow> lock_boxes s = Inr ((), s\<lparr>boxes_lock := Locked\<rparr>)"
  by (simp add: lock_boxes_def prog_simps take_lock_def)

lemma unlock_boxes_app [mb_simps]:
  "boxes_lock s = Locked \<Longrightarrow> unlock_boxes s = Inr ((), s\<lparr>boxes_lock := Unlocked\<rparr>)"
  by (simp add: unlock_boxes_def prog_simps give_lock_def)

section \<open>Requests\<close>

definition enqueue_request :: "request_t \<Rightarrow> int mb" where
  "enqueue_request request =
     bind (in_queue (pcq_enqueue request)) (\<lambda>r. if r = - 1 then ret (- 1) else ret 0)"

text \<open>\<open>mem\<close>: what \<open>malloc\<close> returned for the request, \<open>NULL\<close> or an object with any contents.\<close>

definition parser :: "request_t option \<Rightarrow> byte \<Rightarrow> int mb" where
  "parser mem op_code = (case mem of None \<Rightarrow> ret (- 1) | Some request \<Rightarrow>
     if op_code > 7 then ret (- 1)
     else
       let request = request\<lparr>rq_opcode := op_code\<rparr> in
       bind (gets server_pipe) (\<lambda>pipe.
       read_pipe pipe CLIENT_NAMED_PIPE_PATH_LENGTH (\<lambda>buffer.
       bind (defined (c_strncpy buffer (CLIENT_NAMED_PIPE_PATH_LENGTH + 1))) (\<lambda>name.
       let request = request\<lparr>rq_pipename := name\<rparr> in
       if op_code \<noteq> OP_CODE_LIST_BOXES then
         read_pipe pipe BOX_NAME_LENGTH (\<lambda>buffer2.
         bind (defined (c_strncpy buffer2 (BOX_NAME_LENGTH + 1))) (\<lambda>name.
         enqueue_request (request\<lparr>rq_box_name := name\<rparr>)))
       else enqueue_request request))))"

text \<open>
  The inner loop of \<open>main\<close>: requests are read until the pipe is closed (the result is
  then the value of the last read) or one of them is not accepted (-1). The number of
  iterations is bounded; \<open>None\<close> is the result when the bound is met first.
\<close>

fun accept_requests :: "(nat \<Rightarrow> request_t option) \<Rightarrow> nat \<Rightarrow> int option mb" where
  "accept_requests mem 0 = ret None"
| "accept_requests mem (Suc n) =
     bind (gets server_pipe) (\<lambda>pipe.
     bind (try_read pipe 1) (\<lambda>(bytes_read, buf).
     if bytes_read > 0 then
       bind (parser (mem n) (hd buf)) (\<lambda>r.
       if r = - 1 then ret (Some (- 1)) else accept_requests mem n)
     else ret (Some bytes_read)))"

end
