(* ===== verification/Requests.thy ===== *)
theory Requests
  imports Broker
begin

text \<open>
  From a client's arguments to an element of the broker's queue: what \<open>parse_message\<close>
  builds, \<open>parser\<close> takes apart and \<open>main\<close> enqueues, for any number of requests that lie
  one behind the other in the pipe.
\<close>

section \<open>One request on the pipe\<close>

text \<open>
  The bytes of a request as the clients send it: of the message for \<open>list\<close> the manager
  sends no box name.
\<close>

definition request_bytes :: "byte \<Rightarrow> byte list \<Rightarrow> byte list \<Rightarrow> byte list" where
  "request_bytes opcode pipe box =
     opcode # field CLIENT_NAMED_PIPE_PATH_LENGTH pipe @
     (if opcode = OP_CODE_LIST_BOXES then [] else field BOX_NAME_LENGTH box)"

text \<open>The request the broker is meant to make of it, in memory that held \<open>junk\<close>.\<close>

definition request_of :: "request_t \<Rightarrow> byte \<Rightarrow> byte list \<Rightarrow> byte list \<Rightarrow> request_t" where
  "request_of junk opcode pipe box =
     \<lparr>rq_opcode = opcode, rq_pipename = field (CLIENT_NAMED_PIPE_PATH_LENGTH + 1) pipe,
      rq_box_name = (if opcode = OP_CODE_LIST_BOXES then rq_box_name junk
        else field (BOX_NAME_LENGTH + 1) box)\<rparr>"

text \<open>Names that leave room for a terminator in their field.\<close>

definition short_names :: "byte list \<Rightarrow> byte list \<Rightarrow> bool" where
  "short_names pipe box \<longleftrightarrow> 0 \<notin> set pipe \<and> length pipe < CLIENT_NAMED_PIPE_PATH_LENGTH \<and>
     0 \<notin> set box \<and> length box < BOX_NAME_LENGTH"

lemma strncpy_field:
  assumes "0 \<notin> set xs" "length xs < n"
  shows "c_strncpy (field n xs) (n + 1) = Some (field (n + 1) xs)"
proof -
  have "c_str (field n xs) = xs" "is_cstr (field n xs)"
    using assms by (simp_all add: c_str_field is_cstr_field)
  then show ?thesis using c_strncpy_fits [of "field n xs" "n + 1"] assms(2) by (simp add: field_def)
qed

lemma field_not_empty: "0 < n \<Longrightarrow> field n xs \<noteq> []"
  by (simp add: field_def)

text \<open>The broker with room for one more request, waiting at its pipe.\<close>

definition listening :: "broker \<Rightarrow> bool" where
  "listening s \<longleftrightarrow> server_pipe s \<in> set (open_fds s) \<and> pcq_ok (pc_queue s)"

lemma enqueue_request_spec:
  assumes "pcq_ok (pc_queue s)" "length (pcq_items (pc_queue s)) < pcq_cap (pc_queue s)"
  shows "\<exists>q. enqueue_request rq s = Inr (0, s\<lparr>pc_queue := q\<rparr>) \<and> pcq_ok q \<and>
    pcq_cap q = pcq_cap (pc_queue s) \<and> pcq_items q = pcq_items (pc_queue s) @ [rq]"
proof -
  from pcq.enq_room [OF assms, of rq] obtain q where q: "pcq_enqueue rq (pc_queue s) = Inr (0, q)"
    "pcq_ok q" "pcq_cap q = pcq_cap (pc_queue s)" "pcq_items q = pcq_items (pc_queue s) @ [rq]"
    by (auto simp: wp_iff)
  then show ?thesis
    by (intro exI [of _ q]) (simp add: enqueue_request_def in_queue_def zoom_def prog_simps)
qed

lemma parser_spec:
  assumes "listening s" "length (pcq_items (pc_queue s)) < pcq_cap (pc_queue s)"
    and "short_names pipe box" "opcode \<le> 7"
    and "inbox s (server_pipe s) = arrived (tl (request_bytes opcode pipe box) @ bs) later"
  shows "\<exists>q. parser (Some junk) opcode s =
      Inr (0, s\<lparr>inbox := (inbox s)(server_pipe s := arrived bs later), pc_queue := q\<rparr>) \<and>
    pcq_ok q \<and> pcq_cap q = pcq_cap (pc_queue s) \<and>
    pcq_items q = pcq_items (pc_queue s) @ [request_of junk opcode pipe box]"
proof -
  let ?P = CLIENT_NAMED_PIPE_PATH_LENGTH and ?B = BOX_NAME_LENGTH
  let ?fd = "server_pipe s"
  let ?s = "s\<lparr>inbox := (inbox s)(?fd := arrived bs later)\<rparr>"
  have fd: "?fd \<in> set (open_fds s)" and ok: "pcq_ok (pc_queue s)" using assms(1) by (simp_all add: listening_def)
  have len: "length (field ?P pipe) = ?P" "length (field ?B box) = ?B"
    using assms(3) by (simp_all add: short_names_def)
  have ne: "field ?P pipe \<noteq> []" "field ?B box \<noteq> []" by (rule field_not_empty; simp add: wire_sizes)+
  have cpy: "c_strncpy (field ?P pipe) (?P + 1) = Some (field (?P + 1) pipe)"
    "c_strncpy (field ?B box) (?B + 1) = Some (field (?B + 1) box)"
    using assms(3) by (simp_all add: short_names_def strncpy_field [simplified])
  have le: "\<not> opcode > 7" using assms(4) by simp
  have enq: "\<exists>q. enqueue_request rq ?s = Inr (0, ?s\<lparr>pc_queue := q\<rparr>) \<and> pcq_ok q \<and>
      pcq_cap q = pcq_cap (pc_queue s) \<and> pcq_items q = pcq_items (pc_queue s) @ [rq]" for rq
    using enqueue_request_spec [of ?s rq] ok assms(2) by simp
  show ?thesis
  proof (cases "opcode = OP_CODE_LIST_BOXES")
    case True
    then have i: "inbox s ?fd = arrived (field ?P pipe @ bs) later" using assms(5) by (simp add: request_bytes_def)
    have "parser (Some junk) opcode s = enqueue_request (request_of junk opcode pipe box) ?s"
      using True
      by (cases junk) (simp add: parser_def le [unfolded True] Let_def prog_simps
          read_pipe_exact [OF fd i ne(1) len(1) [symmetric]] cpy [simplified] request_of_def)
    then show ?thesis using enq by metis
  next
    case False
    then have i: "inbox s ?fd = arrived (field ?P pipe @ field ?B box @ bs) later"
      using assms(5) by (simp add: request_bytes_def)
    let ?s1 = "s\<lparr>inbox := (inbox s)(?fd := arrived (field ?B box @ bs) later)\<rparr>"
    have i1: "inbox ?s1 ?fd = arrived (field ?B box @ bs) later" "?fd \<in> set (open_fds ?s1)" using fd by simp_all
    have "parser (Some junk) opcode s = enqueue_request (request_of junk opcode pipe box) ?s"
      using False
      by (cases junk) (simp add: parser_def le Let_def prog_simps read_pipe_exact [OF fd i ne(1) len(1) [symmetric]]
          read_pipe_exact [OF i1(2,1) ne(2) len(2) [symmetric]] cpy [simplified] request_of_def)
    then show ?thesis using enq by metis
  qed
qed

section \<open>Many requests\<close>

type_synonym client_request = "byte \<times> byte list \<times> byte list"

definition valid_request :: "client_request \<Rightarrow> bool" where
  "valid_request = (\<lambda>(opcode, pipe, box). opcode \<le> 7 \<and> short_names pipe box)"

definition requests_bytes :: "client_request list \<Rightarrow> byte list" where
  "requests_bytes rs = concat (map (\<lambda>(opcode, pipe, box). request_bytes opcode pipe box) rs)"

fun requests_of :: "(nat \<Rightarrow> request_t) \<Rightarrow> nat \<Rightarrow> client_request list \<Rightarrow> request_t list" where
  "requests_of junk n [] = []"
| "requests_of junk n ((opcode, pipe, box) # rs) =
     request_of (junk (n - 1)) opcode pipe box # requests_of junk (n - 1) rs"

lemma request_bytes_split:
  "requests_bytes ((opcode, pipe, box) # rs) = [opcode] @ tl (request_bytes opcode pipe box) @ requests_bytes rs"
  by (simp add: requests_bytes_def request_bytes_def)

lemma accept_requests_spec:
  assumes "listening s" "inbox s (server_pipe s) = arrived (requests_bytes rs) []"
    and "list_all valid_request rs" "length rs < n"
    and "length (pcq_items (pc_queue s)) + length rs \<le> pcq_cap (pc_queue s)"
  shows "wp (accept_requests (\<lambda>i. Some (junk i)) n) (\<lambda>r s'. r = Some 0 \<and> pcq_ok (pc_queue s') \<and>
      pcq_items (pc_queue s') = pcq_items (pc_queue s) @ requests_of junk n rs \<and>
      s' = s\<lparr>inbox := (inbox s)(server_pipe s := []), pc_queue := pc_queue s'\<rparr>) s"
  using assms
proof (induction rs arbitrary: s n)
  case Nil
  then obtain m where n: "n = Suc m" by (cases n) auto
  have "try_read (server_pipe s) 1 s = Inr ((0, []), s)"
    using Nil by (intro try_read_closed) (simp_all add: listening_def arrived_def requests_bytes_def)
  then show ?case using Nil(1,2) by (simp add: n wp_def prog_simps listening_def arrived_def requests_bytes_def fun_upd_idem)
next
  case (Cons r rs)
  obtain opcode pipe box where r: "r = (opcode, pipe, box)" by (cases r)
  obtain m where n: "n = Suc m" using Cons.prems(4) by (cases n) auto
  have v: "opcode \<le> 7" "short_names pipe box" using Cons.prems(3) by (simp_all add: r valid_request_def)
  let ?fd = "server_pipe s" and ?t = "tl (request_bytes opcode pipe box) @ requests_bytes rs"
  let ?s = "s\<lparr>inbox := (inbox s)(?fd := arrived ?t [])\<rparr>"
  have i: "inbox s ?fd = arrived ([opcode] @ ?t) []" using Cons.prems(2) by (simp only: r request_bytes_split)
  have rd: "try_read ?fd 1 s = Inr ((1, [opcode]), ?s)"
    using try_read_exact [OF _ i] Cons.prems(1) by (simp add: listening_def)
  obtain q where p: "parser (Some (junk m)) opcode ?s =
      Inr (0, ?s\<lparr>inbox := (inbox ?s)(?fd := arrived (requests_bytes rs) []), pc_queue := q\<rparr>)"
    and q: "pcq_ok q" "pcq_cap q = pcq_cap (pc_queue s)"
      "pcq_items q = pcq_items (pc_queue s) @ [request_of (junk m) opcode pipe box]"
    using parser_spec [of ?s pipe box opcode "requests_bytes rs" "[]" "junk m"] Cons.prems(1,5) v
    by (auto simp: listening_def)
  let ?s' = "?s\<lparr>inbox := (inbox ?s)(?fd := arrived (requests_bytes rs) []), pc_queue := q\<rparr>"
  have "accept_requests (\<lambda>i. Some (junk i)) n s = accept_requests (\<lambda>i. Some (junk i)) m ?s'"
    using rd p by (simp add: n prog_simps)
  moreover have "wp (accept_requests (\<lambda>i. Some (junk i)) m) (\<lambda>r s'. r = Some 0 \<and> pcq_ok (pc_queue s') \<and>
      pcq_items (pc_queue s') = pcq_items (pc_queue ?s') @ requests_of junk m rs \<and>
      s' = ?s'\<lparr>inbox := (inbox ?s')(server_pipe ?s' := []), pc_queue := pc_queue s'\<rparr>) ?s'"
    using Cons.prems(1,3-5) q by (intro Cons.IH) (simp_all add: listening_def n)
  ultimately show ?case using q(3) by (simp add: wp_def r n del: accept_requests.simps fun_upd_apply)
qed

end
