(* ===== verification/WireProps.thy ===== *)
theory WireProps
  imports Requests PcqRuns FsExample
begin

text \<open>
  What holds of the way from a client to the broker's queue: interrupted reads, the round
  trip of requests, and the names for which it does not work.
\<close>

section \<open>A small broker\<close>

definition wire_request :: request_t where
  "wire_request = \<lparr>rq_opcode = 0, rq_pipename = replicate 256 1, rq_box_name = replicate 32 1\<rparr>"

definition wire_queue :: "request_t pc_queue" where
  "wire_queue = \<lparr>pcq_buffer = Some [wire_request, wire_request], pcq_capacity = 2, pcq_current_size = 0,
     pcq_head = 0, pcq_tail = 0, pcq_locks = (\<lambda>_. Unlocked), pcq_conds = (\<lambda>_. True)\<rparr>"

lemma wire_queue_ok: "pcq_ok wire_queue" "pcq_items wire_queue = []" "pcq_cap wire_queue = 2"
  by (simp_all add: wire_queue_def pcq_ok_def pcq_items_def pcq_cap_def)

text \<open>A broker that listens at descriptor 3, on which \<open>bs\<close> have arrived.\<close>

definition wire_broker :: "byte list \<Rightarrow> broker" where
  "wire_broker bs = \<lparr>inbox = (\<lambda>_. [])(3 := arrived bs []), accepts = (\<lambda>_. []), outbox = (\<lambda>_. []),
     opens = (\<lambda>_. []), open_fds = [3], path_calls = [], errno = 0, max_sessions = 2, num_boxes = 0,
     server_pipe = 3, pc_queue = wire_queue, clients = None, boxes = [], free_boxes = [], boxes_lock = Unlocked,
     tfs = ex0\<rparr>"

lemma wire_broker_listening: "listening (wire_broker bs)"
  by (simp add: listening_def wire_broker_def wire_queue_ok)

lemma wire_broker_simps:
  "pc_queue (wire_broker bs) = wire_queue" "server_pipe (wire_broker bs) = 3"
  "inbox (wire_broker bs) 3 = arrived bs []"
  by (simp_all add: wire_broker_def)

section \<open>Reading\<close>

text \<open>C37: However often a signal interrupts it, try_read delivers the bytes that are there
  and never reports the interruption; what it does not take stays in the pipe.\<close>

theorem try_read_resumes:
  assumes "fd \<in> set (open_fds s)" "inbox s fd = replicate k (Read_fails EINTR) @ Chunk bs # later"
  shows "\<exists>s'. try_read fd count s = Inr ((int (min count (length bs)), take count bs), s') \<and>
    inbox s' fd = (if count < length bs then Chunk (drop count bs) # later else later)"
  using try_read_data [OF assms, of count] by auto

theorem try_read_resumes_witness:
  "\<exists>s'. try_read 3 1 ((wire_broker [])\<lparr>inbox := \<lambda>_. [Read_fails EINTR, Read_fails EINTR, Chunk [5, 6]]\<rparr>) =
     Inr ((1, [5]), s') \<and> inbox s' 3 = [Chunk [6]]"
  using try_read_resumes [of 3 "(wire_broker [])\<lparr>inbox := \<lambda>_. [Read_fails EINTR, Read_fails EINTR, Chunk [5, 6]]\<rparr>"
      2 "[5, 6]" "[]" 1]
  by (simp add: wire_broker_def numeral_2_eq_2)

section \<open>Requests\<close>

text \<open>The bytes a client writes: of the message of \<open>parse_message\<close>, without the box for \<open>list\<close>.\<close>

definition client_bytes :: "client_request \<Rightarrow> byte list" where
  "client_bytes = (\<lambda>(opcode, pipe, box).
     if opcode = OP_CODE_LIST_BOXES
     then take (1 + CLIENT_NAMED_PIPE_PATH_LENGTH) (the (parse_message False opcode (pipe @ [0]) None))
     else the (parse_message False opcode (pipe @ [0]) (Some (box @ [0]))))"

definition delivers :: "client_request \<Rightarrow> request_t \<Rightarrow> bool" where
  "delivers = (\<lambda>(opcode, pipe, box) rq. rq_opcode rq = opcode \<and> c_str (rq_pipename rq) = pipe \<and>
     (opcode \<noteq> OP_CODE_LIST_BOXES \<longrightarrow> c_str (rq_box_name rq) = box))"

lemma client_bytes_eq:
  assumes "valid_request (opcode, pipe, box)"
  shows "client_bytes (opcode, pipe, box) = request_bytes opcode pipe box"
proof -
  have c: "is_cstr (xs @ [0])" "0 \<notin> set xs \<Longrightarrow> c_str (xs @ [0]) = xs" for xs :: "byte list"
    by (simp_all add: is_cstr_def c_str_append_nul)
  show ?thesis
    using assms parse_message_layout [OF c(1) _ c(1), of pipe box opcode]
    by (cases "opcode = OP_CODE_LIST_BOXES")
      (simp_all add: valid_request_def short_names_def client_bytes_def request_bytes_def c(2))
qed

lemma delivers_request_of:
  "valid_request (opcode, pipe, box) \<Longrightarrow> delivers (opcode, pipe, box) (request_of junk opcode pipe box)"
  by (simp add: delivers_def request_of_def valid_request_def short_names_def c_str_field)

lemma delivers_requests_of:
  "list_all valid_request rs \<Longrightarrow> list_all2 delivers rs (requests_of junk n rs)"
  by (induction junk n rs rule: requests_of.induct) (simp_all add: delivers_request_of)

text \<open>C6: The requests of any number of clients, each built by parse_message and written in
  one piece, one behind the other in the broker's pipe, become elements of the queue in
  the same order, each with its operation code and names; then the loop of main returns.
  The names leave room for a terminator in their fields.\<close>

theorem requests_roundtrip:
  assumes "listening s" "inbox s (server_pipe s) = arrived (concat (map client_bytes rs)) []"
    and "list_all valid_request rs" "length rs < n"
    and "length (pcq_items (pc_queue s)) + length rs \<le> pcq_cap (pc_queue s)"
  shows "wp (accept_requests (\<lambda>i. Some (junk i)) n) (\<lambda>r s'. r = Some 0 \<and>
    (\<exists>new. pcq_items (pc_queue s') = pcq_items (pc_queue s) @ new \<and> list_all2 delivers rs new)) s"
proof -
  have "map client_bytes rs = map (\<lambda>(opcode, pipe, box). request_bytes opcode pipe box) rs"
    using assms(3) by (auto simp: list_all_iff client_bytes_eq)
  then have "inbox s (server_pipe s) = arrived (requests_bytes rs) []"
    using assms(2) by (simp only: requests_bytes_def)
  from accept_requests_spec [OF assms(1) this assms(3-5), of junk] show ?thesis
    by (rule wp_mono) (use delivers_requests_of [OF assms(3)] in blast)
qed

theorem requests_roundtrip_witness:
  "wp (accept_requests (\<lambda>i. Some wire_request) 3) (\<lambda>r s'. r = Some 0 \<and>
    (\<exists>new. pcq_items (pc_queue s') = new \<and> list_all2 delivers [(3, [112], [47, 97]), (7, [113], [])] new))
    (wire_broker (concat (map client_bytes [(3, [112], [47, 97]), (7, [113], [])])))"
  using requests_roundtrip [of "wire_broker (concat (map client_bytes [(3, [112], [47, 97]), (7, [113], [])]))"
      "[(3, [112], [47, 97]), (7, [113], [])]" 3 "\<lambda>_. wire_request"]
  by (simp add: wire_broker_listening wire_broker_simps wire_queue_ok valid_request_def short_names_def
      CLIENT_NAMED_PIPE_PATH_LENGTH_def BOX_NAME_LENGTH_def)

text \<open>C38: A pipe name that fills its field of 255 bytes, which the protocol allows, has no
  terminator in the broker's buffer: parser copies 256 bytes from it, one past its end.\<close>

theorem full_pipename_overruns:
  assumes "listening s" "inbox s (server_pipe s) = arrived (name @ bs) []"
    and "length name = CLIENT_NAMED_PIPE_PATH_LENGTH" "0 \<notin> set name" "opcode \<le> 7"
  shows "parser (Some junk) opcode s = Inl Undef"
proof -
  have fd: "server_pipe s \<in> set (open_fds s)" using assms(1) by (simp add: listening_def)
  have ne: "name \<noteq> []" using assms(3) by (auto simp: CLIENT_NAMED_PIPE_PATH_LENGTH_def)
  have le: "\<not> opcode > 7" using assms(5) by simp
  have "c_strncpy name (CLIENT_NAMED_PIPE_PATH_LENGTH + 1) = None"
    using assms(3,4) by (intro c_strncpy_overrun) (auto simp: is_cstr_def)
  then show ?thesis
    by (simp add: parser_def le Let_def prog_simps read_pipe_exact [OF fd assms(2) ne assms(3) [symmetric]])
qed

theorem full_pipename_overruns_witness:
  "parser (Some wire_request) 1 (wire_broker (replicate 255 97)) = Inl Undef"
  by (rule full_pipename_overruns [OF wire_broker_listening, where name = "replicate 255 97" and bs = "[]"])
    (simp_all add: wire_broker_simps CLIENT_NAMED_PIPE_PATH_LENGTH_def)

text \<open>C39: A longer name is not truncated: parse_message copies all of it, over the field of
  the box and, from 287 characters on, past the end of the buffer.\<close>

theorem parse_message_overruns:
  assumes "is_cstr pipe" "length (c_str pipe) > CLIENT_NAMED_PIPE_PATH_LENGTH + BOX_NAME_LENGTH"
  shows "parse_message null opcode pipe box = None"
proof -
  have "c_store 1 (take (length (c_str pipe)) pipe) buffer = None" if "length buffer = 287" for buffer
    using assms that by (simp add: c_store_def take_cstr wire_sizes)
  then show ?thesis
    using assms(1)
    by (auto simp: parse_message_def Let_def c_strlen_some wire_sizes c_store_def [of 0] simp del: One_nat_def
        split: bind_splits)
qed

theorem parse_message_overruns_witness: "parse_message False 1 (replicate 300 97 @ [0]) None = None"
  by (rule parse_message_overruns) (simp_all add: is_cstr_def c_str_append_nul wire_sizes)

end
