(* ===== verification/Boxes.thy ===== *)
theory Boxes
  imports Broker
begin

text \<open>mbroker/mbroker.c: the table of boxes, and the end of a session and of the server.\<close>

section \<open>The table of boxes\<close>

definition get_box :: "byte list \<Rightarrow> nat option mb" where
  "get_box box_name =
     for_ret 0 MAX_BOXES (\<lambda>i.
       bind (box_at i) (\<lambda>b.
       bind (defined (c_strcmp (b_name b) box_name)) (\<lambda>r.
       ret (if r = 0 then Some i else None))))"

definition get_free_box :: "int mb" where
  "get_free_box =
     bind (for_ret 0 MAX_BOXES (\<lambda>i.
       bind (box_is_free i) (\<lambda>f.
       if f then andthen (set_free_box i False) (ret (Some (int i))) else ret None)))
     (\<lambda>r. ret (case r of Some i \<Rightarrow> i | None \<Rightarrow> - 1))"

text \<open>\<open>null\<close>: \<open>malloc\<close> fails. Every field of the new object is stored before it is copied.\<close>

definition create_box :: "bool \<Rightarrow> byte list \<Rightarrow> int mb" where
  "create_box null box_name =
     (if null then ret (- 1)
      else
        bind (defined (c_load 0 (BOX_NAME_LENGTH + 1) box_name)) (\<lambda>name.
        let tmp_box = \<lparr>b_name = name[BOX_NAME_LENGTH := 0], b_size = 0, b_publishers = 0,
              b_subscribers = 0, b_cond = True, b_lock = Unlocked\<rparr> in
        andthen (modify (\<lambda>s. s\<lparr>num_boxes := num_boxes s + 1\<rparr>))
        (bind get_free_box (\<lambda>box_id.
         if box_id = - 1 then ret (- 1)
         else andthen (set_box (nat box_id) (\<lambda>_. tmp_box)) (ret 0)))))"

definition remove_box :: "byte list \<Rightarrow> int mb" where
  "remove_box box_name =
     bind (for_ret 0 MAX_BOXES (\<lambda>i.
       bind (box_at i) (\<lambda>b.
       bind (defined (c_strcmp (b_name b) box_name)) (\<lambda>r.
       if r = 0 then
         andthen (set_free_box i True)
         (bind (in_tfs (tfs_unlink (Some (b_name b)))) (\<lambda>u.
          if u = - 1 then ret (Some (- 1))
          else
            andthen (set_box i (\<lambda>b. b\<lparr>b_name := (b_name b)[0 := 0], b_size := 0, b_publishers := 0,
              b_subscribers := 0\<rparr>))
            (andthen (modify (\<lambda>s. s\<lparr>num_boxes := num_boxes s - 1\<rparr>)) (ret (Some 0)))))
       else ret None))))
     (\<lambda>r. ret (case r of Some v \<Rightarrow> v | None \<Rightarrow> - 1))"

section \<open>The end of a session and of the server\<close>

definition finish_client_session :: "nat \<Rightarrow> int mb" where
  "finish_client_session c =
     bind (client_at c) (\<lambda>client.
     safe_close (cl_pipe client)
     (if cl_opcode client \<noteq> OP_CODE_LIST_BOXES \<and> cl_box_fd client = - 1 then ret (- 1)
      else
        andthen
          (if cl_opcode client = OP_CODE_REGIST_PUB then
             (case cl_box client of No_box \<Rightarrow> ret () | Wild \<Rightarrow> stop Undef
              | Box i \<Rightarrow> set_box i (\<lambda>b. b\<lparr>b_publishers := b_publishers b - 1\<rparr>))
           else if cl_opcode client = OP_CODE_REGIST_SUB then
             (case cl_box client of No_box \<Rightarrow> ret () | Wild \<Rightarrow> stop Undef
              | Box i \<Rightarrow> set_box i (\<lambda>b. b\<lparr>b_subscribers := b_subscribers b - 1\<rparr>))
           else ret ())
        (andthen (set_client c (\<lambda>cl. cl\<lparr>cl_box_name := (cl_box_name cl)[0 := 0],
           cl_pipename := (cl_pipename cl)[0 := 0], cl_box := No_box, cl_box_fd := - 1\<rparr>))
         (ret 0))))"

text \<open>
  A session's thread runs until the process ends, so \<open>pthread_join\<close> on it waits for ever;
  a thread that joins itself gets an error (\<open>EDEADLK\<close>) instead. \<open>self\<close>: the session whose
  thread makes the call, \<open>None\<close> for the main thread.
\<close>

definition free_client :: "nat option \<Rightarrow> nat \<Rightarrow> int mb" where
  "free_client self session_id =
     bind (client_at session_id) (\<lambda>client.
     if self = Some session_id then ret (- 1) else stop Blocked)"

definition close_server :: "nat option \<Rightarrow> int \<Rightarrow> 'a mb" where
  "close_server self exit_code =
     bind (gets max_sessions) (\<lambda>n.
     if n > 0 then bind (free_client self 0) (\<lambda>_. stop (Exit 1))
     else bind (in_queue pcq_destroy) (\<lambda>_.
       andthen (modify (\<lambda>s. s\<lparr>clients := None, boxes_lock := Dead\<rparr>)) (stop (Exit exit_code))))"

section \<open>The start of the server\<close>

text \<open>
  The outcome of \<open>malloc\<close> for the sessions (\<open>NULL\<close> or objects with any contents), of the
  creation of the queue, of each thread and of the mutex.
\<close>

record init_env =
  sessions_mem :: "client_t list option"
  queue_env :: "request_t pcq_env"
  thread_fails :: "nat \<Rightarrow> bool"
  boxes_lock_fails :: bool

definition mbroker_init :: "init_env \<Rightarrow> int mb" where
  "mbroker_init env =
     bind (gets max_sessions) (\<lambda>n.
     andthen (modify (\<lambda>s. s\<lparr>clients := sessions_mem env\<rparr>))
     (bind (in_queue (pcq_create (queue_env env) n)) (\<lambda>r.
      if r \<noteq> 0 then andthen (modify (\<lambda>s. s\<lparr>clients := None\<rparr>)) (ret (- 1))
      else
        bind (for_ret 0 (unat n) (\<lambda>i.
          andthen (set_client i (\<lambda>cl. cl\<lparr>cl_session := int i\<rparr>))
          (if thread_fails env i
           then andthen (modify (\<lambda>s. s\<lparr>clients := None\<rparr>)) (bind (in_queue pcq_destroy) (\<lambda>_. ret (Some (- 1))))
           else ret None)))
        (\<lambda>r. case r of Some v \<Rightarrow> ret v | None \<Rightarrow>
        if boxes_lock_fails env
        then andthen (modify (\<lambda>s. s\<lparr>clients := None\<rparr>)) (bind (in_queue pcq_destroy) (\<lambda>_. ret (- 1)))
        else
          andthen (modify (\<lambda>s. s\<lparr>boxes_lock := Unlocked\<rparr>))
          (bind (for_ret 0 MAX_BOXES (\<lambda>i. andthen (set_free_box i True) (ret (None :: unit option)))) (\<lambda>_.
           andthen (modify (\<lambda>s. s\<lparr>num_boxes := 0\<rparr>)) (ret 0)))))))"

text \<open>
  \<open>main\<close>. The static variables are zero when the process starts; \<open>n\<close> is what \<open>strtoul\<close>
  makes of the second argument. The outer loop is bounded; \<open>None\<close> when the bound is met.
\<close>

definition broker_params :: tfs_params where
  "broker_params = \<lparr>max_inode_count = of_nat MAX_BOXES, max_block_count = of_nat (MESSAGE_LENGTH * MAX_BOXES),
     max_open_files_count = of_nat MAX_BOXES, block_size = of_nat BOX_SIZE\<rparr>"

fun serve :: "(nat \<Rightarrow> nat \<Rightarrow> request_t option) \<Rightarrow> byte list \<Rightarrow> nat \<Rightarrow> int option mb" where
  "serve mem pipename 0 = ret None"
| "serve mem pipename (Suc n) =
     bind (sys_open pipename) (\<lambda>pipe_temp.
     bind (gets errno) (\<lambda>e.
     if pipe_temp < 0 \<and> e = ENOENT then ret (Some 0)
     else if pipe_temp < 0 then close_server None 1
     else bind (sys_close pipe_temp) (\<lambda>r.
       if r < 0 then close_server None 1
       else bind (accept_requests (mem n) n) (\<lambda>r. case r of
         None \<Rightarrow> ret None
       | Some v \<Rightarrow> if v < 0 then close_server None 1 else serve mem pipename n))))"

definition broker_main :: "init_env \<Rightarrow> malloc_env \<Rightarrow> (nat \<Rightarrow> nat \<Rightarrow> request_t option) \<Rightarrow> nat \<Rightarrow>
    byte list list \<Rightarrow> u64 \<Rightarrow> int option mb" where
  "broker_main ienv fenv mem fuel argv n =
     (if length argv \<noteq> 3 then ret (Some (- 1))
      else
        andthen (modify (\<lambda>s. s\<lparr>max_sessions := n\<rparr>))
        (bind (mbroker_init ienv) (\<lambda>r.
         if r \<noteq> 0 then ret (Some (- 1))
         else bind (in_tfs (tfs_init fenv (Some broker_params))) (\<lambda>r.
         if r \<noteq> 0 then ret (Some (- 1))
         else
           let pipename = argv ! 1 in
           bind (sys_unlink pipename) (\<lambda>r.
           bind (gets errno) (\<lambda>e.
           if r < 0 \<and> e \<noteq> ENOENT then ret (Some (- 1))
           else bind (sys_mkfifo pipename) (\<lambda>r.
           if r < 0 then ret (Some (- 1))
           else bind (sys_open pipename) (\<lambda>fd.
             andthen (modify (\<lambda>s. s\<lparr>server_pipe := fd\<rparr>))
             (if fd < 0 then bind (in_tfs (tfs_unlink (Some pipename))) (\<lambda>_. ret (Some (- 1)))
              else serve mem pipename fuel)))))))))"

end
