(* ===== verification/Sessions.thy ===== *)
theory Sessions
  imports Boxes
begin

text \<open>
  mbroker/mbroker.c: the handlers of the requests and the loop of a session's thread.
  The handlers of publishers and subscribers loop as long as their pipe is open; the
  number of iterations is bounded (\<open>Unfinished\<close> when the bound is met), and a subscriber
  that goes to sleep on its box \<open>Waits\<close>: the state is then the one in which it sleeps,
  and the same loop, called again, is what it does when it wakes up.
\<close>

datatype session_end = Returns int | Waits | Unfinished

definition finish_and :: "nat \<Rightarrow> int \<Rightarrow> session_end mb" where
  "finish_and c v = bind (finish_client_session c) (\<lambda>_. ret (Returns v))"

definition u64_of_int :: "int \<Rightarrow> u64" where
  "u64_of_int i = word_of_int i"

section \<open>Publishers\<close>

text \<open>\<open>pthread_cond_broadcast\<close>: the sleeping subscribers check again; its value is 0.\<close>

definition broadcast :: "nat \<Rightarrow> int mb" where
  "broadcast i = bind (box_at i) (\<lambda>b. if b_cond b then ret 0 else stop Undef)"

text \<open>\<open>message\<close> is the local buffer, which keeps its bytes from one message to the next.\<close>

primrec publisher_loop :: "nat \<Rightarrow> nat \<Rightarrow> byte list \<Rightarrow> session_end mb" where
  "publisher_loop 0 c message = ret Unfinished"
| "publisher_loop (Suc n) c message =
     bind (client_at c) (\<lambda>client.
     bind (try_read (cl_pipe client) 1) (\<lambda>(bytes_read, _).
     if bytes_read \<le> 0 then
       (if cl_box client \<noteq> No_box then finish_and c 0 else ret (Returns 0))
     else bind (try_read (cl_pipe client) MESSAGE_LENGTH) (\<lambda>(bytes_read, bytes).
     if bytes_read \<le> 0 then
       (if cl_box client \<noteq> No_box then finish_and c 0 else ret (Returns 0))
     else
       let message = write_at 0 bytes message in
       bind (client_box c) (\<lambda>box.
       andthen (lock_box box)
       (bind (box_at box) (\<lambda>b.
       bind (in_tfs (tfs_open (Some (b_name b)) TFS_O_APPEND)) (\<lambda>fhandle.
       if fhandle < 0 then finish_and c (- 1)
       else
         bind (defined (c_strlen message)) (\<lambda>len.
         bind (in_tfs (tfs_write fhandle message (of_nat (len + 1)))) (\<lambda>bytes_written.
         if bytes_written < 0 then finish_and c (- 1)
         else if bytes_written < int (len + 1) then finish_and c 0
         else
           andthen (set_box box (\<lambda>b. b\<lparr>b_size := b_size b + of_nat (len + 1)\<rparr>))
           (bind (broadcast box) (\<lambda>r.
            if r \<noteq> 0 then finish_and c (- 1)
            else andthen (unlock_box box) (publisher_loop n c message))))))))))))"

definition handle_messages_from_publisher :: "nat \<Rightarrow> byte list \<Rightarrow> nat \<Rightarrow> session_end mb" where
  "handle_messages_from_publisher fuel junk c = publisher_loop fuel c (junk[MESSAGE_LENGTH := 0])"

section \<open>Subscribers\<close>

text \<open>The messages in \<open>buffer\<close> from \<open>tmp_offset\<close> to \<open>bytes_read\<close>, one frame each.\<close>

function send_messages :: "int \<Rightarrow> byte list \<Rightarrow> nat \<Rightarrow> nat \<Rightarrow> int mb \<Rightarrow> int mb" where
  "send_messages pipe buffer tmp_offset bytes_read rest =
     (if tmp_offset < bytes_read then
        (case c_strcpy (drop tmp_offset buffer) of
           None \<Rightarrow> stop Undef
         | Some str \<Rightarrow>
             (case c_store 0 str (replicate (MESSAGE_LENGTH + 1) 0) of
                None \<Rightarrow> stop Undef
              | Some message \<Rightarrow>
                  write_pipe pipe [OP_CODE_SUBSCRIBER]
                  (write_pipe pipe (take MESSAGE_LENGTH message)
                   (send_messages pipe buffer (tmp_offset + (length (c_str message) + 1)) bytes_read rest))))
      else rest)"
  by pat_completeness auto
termination
  by (relation "measure (\<lambda>(pipe, buffer, t, n, rest). n - t)") auto

declare send_messages.simps [simp del]

text \<open>The loop of \<open>handle_messages_until_now\<close>; \<open>None\<close> when the bound is met.\<close>

primrec until_now_loop :: "nat \<Rightarrow> nat \<Rightarrow> nat \<Rightarrow> byte list \<Rightarrow> int option mb" where
  "until_now_loop 0 c box buffer = ret None"
| "until_now_loop (Suc n) c box buffer =
     bind (client_at c) (\<lambda>client.
     bind (box_at box) (\<lambda>b.
     if b_size b - u64_of_int (cl_offset client) > 0 then
       bind (in_tfs (tfs_read (cl_box_fd client) buffer (of_nat BOX_SIZE))) (\<lambda>(bytes_read, buffer).
       if bytes_read = 0 then andthen (unlock_box box) (ret (Some 0))
       else if bytes_read < 0 then bind (finish_client_session c) (\<lambda>_. ret (Some (- 1)))
       else
         bind (send_messages (cl_pipe client) buffer 0 (nat bytes_read) (ret 0)) (\<lambda>r.
         if r = - 1 then ret (Some (- 1))
         else
           andthen (set_client c (\<lambda>cl. cl\<lparr>cl_offset := cl_offset cl + bytes_read\<rparr>))
           (until_now_loop n c box buffer)))
     else andthen (unlock_box box) (ret (Some 0))))"

definition handle_messages_until_now :: "nat \<Rightarrow> byte list \<Rightarrow> nat \<Rightarrow> int option mb" where
  "handle_messages_until_now fuel junk c =
     bind (client_box c) (\<lambda>box.
     andthen (lock_box box)
     (bind (client_at c) (\<lambda>client.
     bind (in_tfs (tfs_open (Some (cl_box_name client)) TFS_O_CREAT)) (\<lambda>fd.
     andthen (set_client c (cl_box_fd_update (\<lambda>_. fd)))
     (if fd < 0 then bind (finish_client_session c) (\<lambda>_. ret (Some (- 1)))
      else until_now_loop fuel c box junk)))))"

primrec subscriber_loop :: "nat \<Rightarrow> nat \<Rightarrow> nat \<Rightarrow> byte list \<Rightarrow> session_end mb" where
  "subscriber_loop 0 c box message = ret Unfinished"
| "subscriber_loop (Suc n) c box message =
     andthen (lock_box box)
     (bind (client_at c) (\<lambda>client.
     bind (box_at box) (\<lambda>b.
     if b_size b - u64_of_int (cl_offset client) = 0 then
       (if b_cond b then andthen (unlock_box box) (ret Waits) else stop Undef)
     else
       andthen (unlock_box box)
       (let message = replicate MESSAGE_LENGTH 0 @ drop MESSAGE_LENGTH message in
        bind (in_tfs (tfs_read (cl_box_fd client) message (of_nat MESSAGE_LENGTH))) (\<lambda>(bytes_read, message).
        if bytes_read = 0 then
          bind (finish_client_session c) (\<lambda>r. ret (Returns (if r = - 1 then - 1 else 0)))
        else if bytes_read < 0 then finish_and c (- 1)
        else
          bind (try_write (cl_pipe client) [OP_CODE_SUBSCRIBER]) (\<lambda>w.
          bind (gets errno) (\<lambda>e.
          if w = 0 \<or> w < 0 \<and> e = EPIPE then finish_and c 0
          else if w < 1 then finish_and c (- 1)
          else
            bind (try_write (cl_pipe client) (take MESSAGE_LENGTH message)) (\<lambda>w.
            bind (gets errno) (\<lambda>e.
            if w = 0 \<or> w < 0 \<and> e = EPIPE then finish_and c 0
            else if w < int MESSAGE_LENGTH then finish_and c (- 1)
            else
              andthen (set_client c (\<lambda>cl. cl\<lparr>cl_offset := cl_offset cl + bytes_read\<rparr>))
              (subscriber_loop n c box message))))))))))"

definition handle_messages_to_subscriber :: "nat \<Rightarrow> byte list \<Rightarrow> nat \<Rightarrow> session_end mb" where
  "handle_messages_to_subscriber fuel junk c =
     bind (client_box c) (\<lambda>box. subscriber_loop fuel c box junk)"

section \<open>Registration\<close>

text \<open>\<open>junk\<close>, \<open>big_junk\<close>: the contents of the local buffers \<open>message\<close> and \<open>buffer\<close>.\<close>

definition handle_tfs_register :: "nat \<Rightarrow> byte list \<Rightarrow> byte list \<Rightarrow> nat \<Rightarrow> session_end mb" where
  "handle_tfs_register fuel junk big_junk c =
     bind (client_at c) (\<lambda>client.
     bind (sys_open (cl_pipename client)) (\<lambda>client_pipe.
     if client_pipe < 0 then ret (Returns (- 1))
     else
       andthen (set_client c (cl_pipe_update (\<lambda>_. client_pipe)))
       (bind (get_box (cl_box_name client)) (\<lambda>box. case box of
          None \<Rightarrow> bind (safe_close client_pipe (ret 0)) (\<lambda>r. ret (Returns r))
        | Some i \<Rightarrow>
            andthen (set_client c (cl_box_update (\<lambda>_. Box i)))
            (if cl_opcode client = OP_CODE_REGIST_PUB then
               bind (box_at i) (\<lambda>b.
               if b_publishers b = 1 then bind (finish_client_session c) (\<lambda>r. ret (Returns r))
               else
                 andthen (set_box i (\<lambda>b. b\<lparr>b_publishers := b_publishers b + 1\<rparr>))
                 (handle_messages_from_publisher fuel junk c))
             else
               andthen (set_box i (\<lambda>b. b\<lparr>b_subscribers := b_subscribers b + 1\<rparr>))
               (bind (handle_messages_until_now fuel big_junk c) (\<lambda>r. case r of
                  None \<Rightarrow> ret Unfinished
                | Some v \<Rightarrow> if v = - 1 then ret (Returns (- 1))
                    else handle_messages_to_subscriber fuel junk c)))))))"

section \<open>The manager's requests\<close>

text \<open>The bytes of a string literal, and a local array of zeros that starts with it.\<close>

definition chars :: "string \<Rightarrow> byte list" where
  "chars s = map (\<lambda>c. of_char c) s"

definition error_text :: "string \<Rightarrow> byte list" where
  "error_text s = field (MESSAGE_LENGTH + 1) (chars s)"

text \<open>The answer: operation code, return code and error message, written one by one.\<close>

definition write_answer :: "int \<Rightarrow> byte \<Rightarrow> int \<Rightarrow> byte list \<Rightarrow> int mb \<Rightarrow> int mb" where
  "write_answer pipe opcode return_code error_msg rest =
     write_pipe pipe [opcode]
     (write_pipe pipe (int32_bytes return_code)
     (write_pipe pipe (take MESSAGE_LENGTH error_msg) rest))"

text \<open>
  The checks of \<open>handle_tfs_create_box\<close> and the creation: the return code and error
  message. The name is an array, so it is never \<open>NULL\<close>.
\<close>

definition try_create_box :: "bool \<Rightarrow> byte list \<Rightarrow> (int \<times> byte list) mb" where
  "try_create_box null box_name =
     bind (gets num_boxes) (\<lambda>n.
     if n = int MAX_BOXES then ret (- 1, error_text ''Reached max number of boxes'')
     else bind (get_box box_name) (\<lambda>box.
       if box \<noteq> None then ret (- 1, error_text ''Box already exists'')
       else bind (create_box null box_name) (\<lambda>r.
         if r < 0 then ret (- 1, error_text ''Failed to create box'')
         else ret (0, error_text ''''))))"

definition handle_tfs_create_box :: "bool \<Rightarrow> nat \<Rightarrow> int mb" where
  "handle_tfs_create_box null c =
     andthen lock_boxes
     (bind (client_at c) (\<lambda>client.
     bind (try_create_box null (cl_box_name client)) (\<lambda>(return_code, error_msg).
     andthen unlock_boxes
     (bind (sys_open (cl_pipename client)) (\<lambda>pipe.
     andthen (set_client c (cl_pipe_update (\<lambda>_. pipe)))
     (let (return_code, error_msg) =
            (if pipe < 0 then (- 1, error_text ''Failed to open pipe'') else (return_code, error_msg)) in
      bind (in_tfs (tfs_open (Some (cl_box_name client)) TFS_O_CREAT)) (\<lambda>fhandle.
      if fhandle < 0 then ret (- 1)
      else
        andthen (set_client c (cl_box_fd_update (\<lambda>_. fhandle)))
        (write_answer pipe OP_CODE_CREATE_BOX_ANSWER return_code error_msg
         (finish_client_session c)))))))))"

text \<open>The loop that ends the other sessions on a box; the result is a return value or none.\<close>

definition end_sessions :: "int \<Rightarrow> byte list \<Rightarrow> u64 \<Rightarrow> int option mb" where
  "end_sessions session_id box_name n =
     for_ret 0 (unat n) (\<lambda>i.
       bind (client_at i) (\<lambda>cl.
       bind (defined (c_strcmp (cl_box_name cl) box_name)) (\<lambda>r.
       if r = 0 \<and> int i \<noteq> session_id
       then bind (finish_client_session i) (\<lambda>f. ret (if f = - 1 then Some (- 1) else None))
       else ret None)))"

definition handle_tfs_remove_box :: "nat \<Rightarrow> int mb" where
  "handle_tfs_remove_box c =
     andthen lock_boxes
     (bind (client_at c) (\<lambda>client.
     bind (sys_open (cl_pipename client)) (\<lambda>pipe.
     if pipe = - 1 then andthen unlock_boxes (ret (- 1))
     else
       andthen (set_client c (cl_pipe_update (\<lambda>_. pipe)))
       (bind (get_box (cl_box_name client)) (\<lambda>box.
        let (return_code, error_msg) =
              (if box = None then (- 1, error_text ''Box does not exist'') else (0, error_text '''')) in
        bind (defined (c_strcpy (cl_box_name client))) (\<lambda>str.
        bind (defined (c_store 0 str (replicate (BOX_NAME_LENGTH + 1) 0))) (\<lambda>box_name.
        bind (gets max_sessions) (\<lambda>n.
        bind (if return_code = - 1 then ret None
              else end_sessions (cl_session client) box_name n)
        (\<lambda>r. case r of Some v \<Rightarrow> ret v | None \<Rightarrow>
        bind (if return_code = - 1 then ret 0 else remove_box box_name) (\<lambda>r.
        if return_code \<noteq> - 1 \<and> r = - 1 then ret (- 1)
        else
          write_answer pipe OP_CODE_REMOVE_BOX_ANSWER return_code error_msg
          (andthen unlock_boxes (finish_client_session c))))))))))))"

text \<open>
  The frames of \<open>list\<close>, for the boxes from the first of \<open>todo\<close> on: what each iteration
  stores in \<open>buffer\<close> is what it then writes.
\<close>

primrec list_loop :: "int \<Rightarrow> nat list \<Rightarrow> int \<Rightarrow> byte \<Rightarrow> int mb \<Rightarrow> int mb" where
  "list_loop pipe [] count final rest = rest"
| "list_loop pipe (i # todo) count final rest =
     bind (box_is_free i) (\<lambda>free.
     bind (gets num_boxes) (\<lambda>n.
     if free \<and> n \<noteq> 0 then list_loop pipe todo count final rest
     else
       bind (box_at i) (\<lambda>box.
       let count = count + 1;
           final = (if count = n then 1 else final);
           buffer = [OP_CODE_LIST_BOXES_ANSWER, final] @ take BOX_NAME_LENGTH (b_name box) in
       if n \<noteq> 0 then
         write_pipe pipe (buffer @ u64_bytes (b_size box) @ u64_bytes (b_publishers box) @
             u64_bytes (b_subscribers box))
           (list_loop pipe todo count final rest)
       else write_pipe pipe buffer (list_loop pipe todo count final rest))))"

definition handle_tfs_list_boxes :: "nat \<Rightarrow> int mb" where
  "handle_tfs_list_boxes c =
     bind (client_at c) (\<lambda>client.
     bind (sys_open (cl_pipename client)) (\<lambda>client_pipe.
     if client_pipe < 0 then ret (- 1)
     else
       andthen (set_client c (cl_pipe_update (\<lambda>_. client_pipe)))
       (bind (gets num_boxes) (\<lambda>n.
        list_loop client_pipe [0..<MAX_BOXES] 0 (if n = 0 then 1 else 0)
          (bind (finish_client_session c) (\<lambda>r. ret (if r = - 1 then - 1 else 0)))))))"

section \<open>A session\<close>

text \<open>
  One turn of \<open>client_session\<close>: a request is taken from the queue and handled. The
  parameters are the bound and the outcome of the memory functions for this turn.
\<close>

definition session_turn :: "nat \<Rightarrow> byte list \<Rightarrow> byte list \<Rightarrow> bool \<Rightarrow> nat \<Rightarrow> session_end mb" where
  "session_turn fuel junk big_junk null c =
     bind (in_queue pcq_dequeue) (\<lambda>rq. case rq of
       None \<Rightarrow> ret (Returns 0)
     | Some request \<Rightarrow>
         andthen (set_client c (\<lambda>cl. cl\<lparr>cl_opcode := rq_opcode request,
           cl_pipename := take (CLIENT_NAMED_PIPE_PATH_LENGTH + 1) (rq_pipename request)\<rparr>))
         (andthen (if rq_opcode request \<noteq> OP_CODE_LIST_BOXES
            then set_client c (cl_box_name_update (\<lambda>_. take (BOX_NAME_LENGTH + 1) (rq_box_name request)))
            else ret ())
         (bind
           (if rq_opcode request = OP_CODE_REGIST_PUB \<or> rq_opcode request = OP_CODE_REGIST_SUB then
              handle_tfs_register fuel junk big_junk c
            else if rq_opcode request = OP_CODE_CREATE_BOX then
              bind (handle_tfs_create_box null c) (\<lambda>r. ret (Returns r))
            else if rq_opcode request = OP_CODE_REMOVE_BOX then
              bind (handle_tfs_remove_box c) (\<lambda>r. ret (Returns r))
            else if rq_opcode request = OP_CODE_LIST_BOXES then
              bind (handle_tfs_list_boxes c) (\<lambda>r. ret (Returns r))
            else ret (Returns 0))
          (\<lambda>result. if result = Returns (- 1) then close_server (Some c) 1 else ret result))))"

end
