(* ===== verification/Clients.thy ===== *)
theory Clients
  imports Broker
begin

text \<open>
  The three client programs: publisher/pub.c, subscriber/sub.c and manager/manager.c. An
  argument is the bytes of the string with its terminator; what a program prints on the
  terminal is a list of lines, a number in a line is the number and not its digits.
\<close>

section \<open>The terminal\<close>

datatype console_line =
    Message "byte list"
  | Text string
  | Box_line "byte list" nat nat nat

record client_os = os +
  console :: "console_line list"
  message_count :: int
  pipe_fd :: int

type_synonym 'a cl = "(client_os, 'a) prog"

definition print :: "console_line \<Rightarrow> unit cl" where
  "print l = modify (\<lambda>s. s\<lparr>console := console s @ [l]\<rparr>)"

text \<open>
  What \<open>getline\<close> finds on the standard input: a line (with its newline, if it has one), or
  an error. The end of the list is the end of the input; a line without a newline ends it too.
\<close>

datatype input_line = Line "byte list" | Input_error

definition newline :: byte where "newline = 10"

fun ends_input :: "input_line \<Rightarrow> bool" where
  "ends_input (Line bs) = (bs = [] \<or> bs ! (length bs - 1) \<noteq> newline)"
| "ends_input Input_error = False"

text \<open>The part all clients share: the request, and the client's own pipe.\<close>

definition register :: "byte list \<Rightarrow> byte list \<Rightarrow> byte list \<Rightarrow> nat \<Rightarrow> int cl \<Rightarrow> int cl" where
  "register register_pipe pipe_name buffer count rest =
     bind (sys_open register_pipe) (\<lambda>register_pipe_fd.
     if register_pipe_fd < 0 then ret (- 1)
     else
       write_pipe register_pipe_fd (take count buffer)
       (bind (sys_unlink pipe_name) (\<lambda>r.
        bind (gets errno) (\<lambda>e.
        if r < 0 \<and> e \<noteq> ENOENT then ret (- 1)
        else bind (sys_mkfifo pipe_name) (\<lambda>r. if r < 0 then ret (- 1) else rest)))))"

section \<open>The publisher\<close>

text \<open>
  The loop over the lines of the standard input. \<open>message\<close> is the local array: the
  operation code and the text. A line that does not fit makes \<open>getline\<close> reallocate the
  array, which it may not; for an empty text the index of the last character wraps around.
\<close>

primrec pub_loop :: "int \<Rightarrow> input_line list \<Rightarrow> bool \<Rightarrow> byte list \<Rightarrow> int cl" where
  "pub_loop fd [] eof message = safe_close fd (ret 0)"
| "pub_loop fd (l # input) eof message =
     (if eof then safe_close fd (ret 0)
      else
        let cleared = take 1 message @ replicate MESSAGE_LENGTH 0 in
        bind (case l of
            Input_error \<Rightarrow> ret cleared
          | Line bs \<Rightarrow> if length bs + 1 > MESSAGE_LENGTH then stop Undef else ret (write_at 1 (bs @ [0]) cleared))
        (\<lambda>message.
        bind (defined (c_strlen (drop 1 message))) (\<lambda>n.
        if n = 0 then stop Undef
        else
          let message = message[1 + (n - 1) := 0] in
          bind (try_write fd (take (1 + MESSAGE_LENGTH) message)) (\<lambda>bytes_written.
          bind (gets errno) (\<lambda>e.
          if bytes_written = 0 \<or> bytes_written < 0 \<and> e = EPIPE then safe_close fd (ret 0)
          else if bytes_written < 0 then safe_close fd (ret (- 1))
          else pub_loop fd input (ends_input l) message)))))"

definition pub_main :: "bool \<Rightarrow> byte list \<Rightarrow> input_line list \<Rightarrow> byte list list \<Rightarrow> int cl" where
  "pub_main null junk input argv =
     (if length argv \<noteq> 4 then ret (- 1)
      else
        let pipe_name = argv ! 2 in
        bind (defined (parse_message null OP_CODE_REGIST_PUB pipe_name (Some (argv ! 3)))) (\<lambda>buffer.
        register (argv ! 1) pipe_name buffer (1 + CLIENT_NAMED_PIPE_PATH_LENGTH + BOX_NAME_LENGTH)
        (bind (sys_open pipe_name) (\<lambda>fd.
         pub_loop fd input False (OP_CODE_PUBLISHER # junk)))))"

section \<open>The subscriber\<close>

text \<open>The loop is bounded; \<open>None\<close> when the bound is met.\<close>

primrec sub_loop :: "nat \<Rightarrow> byte list \<Rightarrow> int option cl" where
  "sub_loop 0 message = ret None"
| "sub_loop (Suc n) message =
     bind (gets pipe_fd) (\<lambda>fd.
     bind (try_read fd 1) (\<lambda>(bytes_read, _).
     if bytes_read = 0 then ret (Some 0)
     else if bytes_read < 0 then ret (Some (- 1))
     else bind (try_read fd MESSAGE_LENGTH) (\<lambda>(bytes_read, bytes).
       if bytes_read = 0 then ret (Some 0)
       else if bytes_read < 0 then ret (Some (- 1))
       else
         let message = (write_at 0 bytes message)[MESSAGE_LENGTH := 0] in
         andthen (modify (\<lambda>s. s\<lparr>message_count := message_count s + 1\<rparr>))
         (andthen (print (Message (c_str message))) (sub_loop n message)))))"

definition sub_main :: "bool \<Rightarrow> bool \<Rightarrow> nat \<Rightarrow> byte list \<Rightarrow> byte list list \<Rightarrow> int option cl" where
  "sub_main null signal_fails fuel junk argv =
     (if length argv \<noteq> 4 then ret (Some (- 1))
      else
        let pipe_name = argv ! 2 in
        bind (defined (parse_message null OP_CODE_REGIST_SUB pipe_name (Some (argv ! 3)))) (\<lambda>buffer.
        bind (register (argv ! 1) pipe_name buffer (1 + CLIENT_NAMED_PIPE_PATH_LENGTH + BOX_NAME_LENGTH) (ret 0)) (\<lambda>r.
        if r \<noteq> 0 then ret (Some r)
        else bind (sys_open pipe_name) (\<lambda>fd.
          andthen (modify (\<lambda>s. s\<lparr>pipe_fd := fd\<rparr>))
          (if fd < 0 then ret (Some (- 1))
           else if signal_fails then ret (Some (- 1))
           else sub_loop fuel junk)))))"

text \<open>The digits \<open>sprintf("%d")\<close> stores for a number, and their number for a negative one.\<close>

fun digits :: "nat \<Rightarrow> string" where
  "digits n = (if n < 10 then [char_of (48 + n)] else digits (n div 10) @ [char_of (48 + n mod 10)])"

definition decimal :: "int \<Rightarrow> string" where
  "decimal i = (if i < 0 then ''-'' @ digits (nat (- i)) else digits (nat i))"

definition SIGINT :: int where "SIGINT = 2"

text \<open>
  The handler of \<open>SIGINT\<close>. \<open>count\<close> and \<open>unexpected_sig\<close> have the size of an \<open>int\<close>, four
  characters. True: the handler restored the default action and raised the signal again.
\<close>

definition sigint_handler :: "int \<Rightarrow> bool cl" where
  "sigint_handler sig =
     (if sig = SIGINT then
        andthen (print (Text ''Received SIGINT. Closing pipe and exiting...''))
        (bind (gets pipe_fd) (\<lambda>fd.
         bind (sys_close fd) (\<lambda>r.
         if r < 0 then andthen (print (Text ''Failed to close pipe'')) (ret False)
         else bind (gets message_count) (\<lambda>n.
           if length (decimal n) + 1 > 4 then stop Undef
           else andthen (print (Text (''Received '' @ decimal n @ '' messages''))) (ret True)))))
      else
        (if length (decimal sig) + 1 > 4 then stop Undef
         else
           andthen (print (Text (''Received unexpected signal '' @ decimal sig)))
           (bind (gets pipe_fd) (\<lambda>fd.
            bind (sys_close fd) (\<lambda>r.
            if r < 0 then andthen (print (Text ''Failed to close pipe'')) (ret False) else ret True)))))"

section \<open>The manager\<close>

record box_info =
  bi_name :: "byte list"
  bi_size :: u64
  bi_publishers :: u64
  bi_subscribers :: u64

text \<open>
  The loop of \<open>list_boxes\<close> that fills the array \<open>boxes\<close>, of which \<open>k\<close> elements are left
  (\<open>got\<close> are filled). \<open>Inl\<close>: the function returns, having printed; \<open>Inr\<close>: all boxes are
  there. The bytes a name's last element has before are the array's.
\<close>

primrec list_boxes_loop :: "int \<Rightarrow> nat \<Rightarrow> box_info list \<Rightarrow> (box_info list \<Rightarrow> int cl) \<Rightarrow> int cl" where
  "list_boxes_loop fd 0 got rest =
     read_pipe fd 1 (\<lambda>op_code.
     if hd op_code \<noteq> OP_CODE_LIST_BOXES_ANSWER then ret (- 1)
     else read_pipe fd 1 (\<lambda>_. stop Undef))"
| "list_boxes_loop fd (Suc k) got rest =
     read_pipe fd 1 (\<lambda>op_code.
     if hd op_code \<noteq> OP_CODE_LIST_BOXES_ANSWER then ret (- 1)
     else
       read_pipe fd 1 (\<lambda>final.
       read_pipe fd BOX_NAME_LENGTH (\<lambda>name.
       if hd name = 0 then andthen (print (Text ''NO BOXES FOUND'')) (ret 0)
       else
         read_pipe fd 8 (\<lambda>box_size.
         read_pipe fd 8 (\<lambda>n_publishers.
         read_pipe fd 8 (\<lambda>n_subscribers.
         let got = got @ [\<lparr>bi_name = name @ [0], bi_size = bytes_u64 box_size,
               bi_publishers = bytes_u64 n_publishers, bi_subscribers = bytes_u64 n_subscribers\<rparr>] in
         if hd final = 0 then list_boxes_loop fd k got rest else rest got))))))"

definition to_lower :: "byte \<Rightarrow> byte" where
  "to_lower b = (if 65 \<le> b \<and> b \<le> 90 then b + 32 else b)"

definition compare_boxes :: "box_info \<Rightarrow> box_info \<Rightarrow> int" where
  "compare_boxes a b = (case c_strcmp (map to_lower (bi_name a)) (map to_lower (bi_name b)) of
     Some v \<Rightarrow> v | None \<Rightarrow> 0)"

fun print_boxes :: "box_info list \<Rightarrow> unit cl" where
  "print_boxes [] = ret ()"
| "print_boxes (b # bs) =
     andthen (print (Box_line (c_str (bi_name b)) (unat (bi_size b)) (unat (bi_publishers b)) (unat (bi_subscribers b))))
       (print_boxes bs)"

text \<open>\<open>qsort\<close>: the library's function, which leaves the order of equal elements open.\<close>

definition list_boxes :: "((box_info \<Rightarrow> box_info \<Rightarrow> int) \<Rightarrow> box_info list \<Rightarrow> box_info list) \<Rightarrow> int \<Rightarrow> int cl" where
  "list_boxes qsort pipefd =
     list_boxes_loop pipefd MAX_BOXES [] (\<lambda>boxes. andthen (print_boxes (qsort compare_boxes boxes)) (ret 0))"

definition arg :: "string \<Rightarrow> byte list" where
  "arg s = map (\<lambda>c. of_char c) s @ [0]"

text \<open>An argument equals a string: \<open>strcmp(command, "...") == 0\<close>.\<close>

definition arg_is :: "byte list \<Rightarrow> string \<Rightarrow> bool cl" where
  "arg_is m s = bind (defined (c_strcmp m (arg s))) (\<lambda>r. ret (r = 0))"

text \<open>\<open>null\<close> and \<open>junk\<close>: the outcome of \<open>malloc\<close>, the contents of the local array.\<close>

definition manager_main :: "((box_info \<Rightarrow> box_info \<Rightarrow> int) \<Rightarrow> box_info list \<Rightarrow> box_info list) \<Rightarrow> bool \<Rightarrow>
    byte list list \<Rightarrow> int cl" where
  "manager_main qsort null argv =
     (if length argv < 4 then andthen (print (Text ''usage'')) (ret (- 1))
      else
        let pipe_name = argv ! 2; command = argv ! 3 in
        bind (sys_open (argv ! 1)) (\<lambda>register_pipefd.
        if register_pipefd < 0 then ret (- 1)
        else bind (sys_unlink pipe_name) (\<lambda>r.
        bind (gets errno) (\<lambda>e.
        if r < 0 \<and> e \<noteq> ENOENT then ret (- 1)
        else bind (sys_mkfifo pipe_name) (\<lambda>r.
        if r < 0 then ret (- 1)
        else bind (arg_is command ''create'') (\<lambda>create.
        bind (arg_is command ''remove'') (\<lambda>remove.
        if create \<or> remove then
          (if length argv \<noteq> 5 then
             andthen (print (Text ''usage'')) (bind (sys_close register_pipefd) (\<lambda>_. ret (- 1)))
           else
             bind (defined (parse_message null (if create then OP_CODE_CREATE_BOX else OP_CODE_REMOVE_BOX)
               pipe_name (Some (argv ! 4)))) (\<lambda>buffer.
             write_pipe register_pipefd (take (1 + CLIENT_NAMED_PIPE_PATH_LENGTH + BOX_NAME_LENGTH) buffer)
             (bind (sys_open pipe_name) (\<lambda>pipefd.
              if pipefd < 0 then ret (- 1)
              else
                read_pipe pipefd 1 (\<lambda>return_op_code.
                read_pipe pipefd 4 (\<lambda>return_code.
                read_pipe pipefd MESSAGE_LENGTH (\<lambda>error_message.
                if bytes_int32 return_code = 0 then andthen (print (Text ''OK'')) (ret 0)
                else andthen (print (Message (c_str (error_message @ [0])))) (ret (- 1)))))))))
        else bind (arg_is command ''list'') (\<lambda>lst.
        if lst then
          (if length argv \<noteq> 4 then
             andthen (print (Text ''usage'')) (bind (sys_close register_pipefd) (\<lambda>_. ret (- 1)))
           else
             bind (defined (parse_message null OP_CODE_LIST_BOXES pipe_name None)) (\<lambda>buffer.
             write_pipe register_pipefd (take (1 + CLIENT_NAMED_PIPE_PATH_LENGTH) buffer)
             (bind (sys_open pipe_name) (\<lambda>pipefd.
              if pipefd < 0 then ret (- 1)
              else bind (list_boxes qsort pipefd) (\<lambda>r.
                if r = - 1 then bind (sys_close register_pipefd) (\<lambda>_. ret (- 1)) else ret 0)))))
        else andthen (print (Text ''usage'')) (bind (sys_close register_pipefd) (\<lambda>_. ret (- 1)))))))))))"

end
