(* ===== verification/Messages.thy ===== *)
theory Messages
  imports Sessions Clients FsCalls
begin

text \<open>
  Messages between the file of a box, the pipe of a subscriber and its terminal: stored one
  behind the other with a terminator each, sent as frames of a fixed size, printed as lines.
\<close>

section \<open>Frames\<close>

definition stored :: "byte list list \<Rightarrow> byte list" where
  "stored ms = concat (map (\<lambda>m. m @ [0]) ms)"

definition message_frame :: "byte list \<Rightarrow> byte list" where
  "message_frame m = [OP_CODE_SUBSCRIBER] @ field MESSAGE_LENGTH m"

definition message_ok :: "byte list \<Rightarrow> bool" where
  "message_ok m \<longleftrightarrow> 0 \<notin> set m \<and> length m \<le> MESSAGE_LENGTH"

lemma stored_Cons: "stored (m # ms) = m @ 0 # stored ms"
  by (simp add: stored_def)

lemma stored_append: "stored (ms @ ns) = stored ms @ stored ns"
  by (simp add: stored_def)

lemma field_Suc: "length m \<le> n \<Longrightarrow> field (Suc n) m = field n m @ [0]"
  by (simp add: field_def Suc_diff_le flip: replicate_append_same)

lemma strcpy_stored:
  assumes "message_ok m"
  shows "c_strcpy (m @ 0 # bs) = Some (m @ [0])"
    "c_store 0 (m @ [0]) (replicate (MESSAGE_LENGTH + 1) 0) = Some (field (MESSAGE_LENGTH + 1) m)"
    "take MESSAGE_LENGTH (field (MESSAGE_LENGTH + 1) m) = field MESSAGE_LENGTH m"
    "c_str (field (MESSAGE_LENGTH + 1) m) = m"
proof -
  have m: "0 \<notin> set m" "length m \<le> MESSAGE_LENGTH" using assms by (simp_all add: message_ok_def)
  have "is_cstr (m @ 0 # bs)" by (simp add: is_cstr_def)
  then show "c_strcpy (m @ 0 # bs) = Some (m @ [0])"
    using m(1) by (simp add: c_strcpy_def c_strlen_some c_str_append_nul)
  show "c_store 0 (m @ [0]) (replicate (MESSAGE_LENGTH + 1) 0) = Some (field (MESSAGE_LENGTH + 1) m)"
    using m(2) by (simp add: c_store_def write_at_def field_def Suc_diff_le)
  show "take MESSAGE_LENGTH (field (MESSAGE_LENGTH + 1) m) = field MESSAGE_LENGTH m"
    using m(2) by (simp add: field_Suc)
  show "c_str (field (MESSAGE_LENGTH + 1) m) = m" using m(1) by (rule c_str_field)
qed

section \<open>Sending\<close>

definition sent_to :: "int \<Rightarrow> byte list \<Rightarrow> 'a os_scheme \<Rightarrow> 'a os_scheme" where
  "sent_to fd bs s = s\<lparr>outbox := (outbox s)(fd := outbox s fd @ bs)\<rparr>"

lemma sent_to_simps [simp]:
  "open_fds (sent_to fd bs s) = open_fds s" "accepts (sent_to fd bs s) = accepts s"
  "sent_to fd cs (sent_to fd bs s) = sent_to fd (bs @ cs) s" "sent_to fd [] s = s"
  "outbox (sent_to fd bs s) fd = outbox s fd @ bs"
  by (simp_all add: sent_to_def)

lemma write_pipe_sent:
  assumes "fd \<in> set (open_fds s)" "accepts s fd = []"
  shows "write_pipe fd bs rest s = rest (sent_to fd bs s)"
  by (simp add: sent_to_def write_pipe_all [OF assms])

lemma send_messages_spec:
  assumes "pipe \<in> set (open_fds s)" "accepts s pipe = []" "list_all message_ok ms"
  shows "send_messages pipe (pre @ stored ms @ junk) (length pre) (length pre + length (stored ms)) rest s =
    rest (sent_to pipe (concat (map message_frame ms)) s)"
  using assms
proof (induction ms arbitrary: pre s)
  case Nil
  then show ?case by (subst send_messages.simps) (simp add: stored_def)
next
  case (Cons m ms)
  then have m: "message_ok m" by simp
  let ?s = "sent_to pipe (message_frame m) s"
  have "send_messages pipe (pre @ stored (m # ms) @ junk) (length pre) (length pre + length (stored (m # ms))) rest s =
      send_messages pipe ((pre @ m @ [0]) @ stored ms @ junk) (length (pre @ m @ [0]))
        (length (pre @ m @ [0]) + length (stored ms)) rest ?s"
    using Cons.prems
    by (subst send_messages.simps)
      (simp add: stored_Cons strcpy_stored [OF m, simplified] write_pipe_sent message_frame_def ac_simps)
  also have "\<dots> = rest (sent_to pipe (concat (map message_frame ms)) ?s)"
    using Cons.prems by (intro Cons.IH) simp_all
  finally show ?case by simp
qed

section \<open>Receiving\<close>

definition printed :: "byte list list \<Rightarrow> client_os \<Rightarrow> client_os \<Rightarrow> bool" where
  "printed ms c c' \<longleftrightarrow> console c' = console c @ map Message ms \<and> message_count c' = message_count c + int (length ms)"

lemma sub_loop_spec:
  assumes "pipe_fd c \<in> set (open_fds c)" "inbox c (pipe_fd c) = arrived (concat (map message_frame ms)) []"
    and "list_all message_ok ms" "length ms < n" "length message = MESSAGE_LENGTH + 1"
  shows "wp (sub_loop n message) (\<lambda>r c'. r = Some 0 \<and> printed ms c c') c"
  using assms
proof (induction ms arbitrary: c n message)
  case Nil
  then obtain k where n: "n = Suc k" by (cases n) auto
  have "try_read (pipe_fd c) 1 c = Inr ((0, []), c)"
    using Nil by (intro try_read_closed) (simp_all add: arrived_def)
  then show ?case by (simp add: n wp_def prog_simps printed_def)
next
  case (Cons m ms)
  obtain k where n: "n = Suc k" using Cons.prems(4) by (cases n) auto
  have m: "message_ok m" using Cons.prems(3) by simp
  let ?fd = "pipe_fd c" and ?rest = "concat (map message_frame ms)"
  let ?c1 = "c\<lparr>inbox := (inbox c)(?fd := arrived (field MESSAGE_LENGTH m @ ?rest) [])\<rparr>"
  let ?c2 = "c\<lparr>inbox := (inbox c)(?fd := arrived ?rest [])\<rparr>"
  have i: "inbox c ?fd = arrived ([OP_CODE_SUBSCRIBER] @ field MESSAGE_LENGTH m @ ?rest) []"
    using Cons.prems(2) by (simp add: message_frame_def [of m])
  have len: "length (field MESSAGE_LENGTH m) = MESSAGE_LENGTH" "field MESSAGE_LENGTH m \<noteq> []"
    using m by (auto simp: message_ok_def wire_sizes field_def)
  have r1: "try_read ?fd 1 c = Inr ((1, [OP_CODE_SUBSCRIBER]), ?c1)"
    using try_read_exact [OF Cons.prems(1) i] by simp
  have r2: "try_read ?fd MESSAGE_LENGTH ?c1 = Inr ((int MESSAGE_LENGTH, field MESSAGE_LENGTH m), ?c2)"
    using try_read_exact [of ?fd ?c1 "field MESSAGE_LENGTH m" ?rest "[]"] len Cons.prems(1) by simp
  have "length (drop MESSAGE_LENGTH message) = Suc 0" using Cons.prems(5) by simp
  then obtain x where x: "drop MESSAGE_LENGTH message = [x]"
    by (cases "drop MESSAGE_LENGTH message") (auto simp del: length_drop)
  have msg: "(write_at 0 (field MESSAGE_LENGTH m) message)[MESSAGE_LENGTH := 0] = field MESSAGE_LENGTH m @ [0]"
    using len(1) x by (simp add: write_at_def list_update_append)
  have str: "c_str (field MESSAGE_LENGTH m @ [0]) = m"
    using strcpy_stored(4) [OF m] m by (simp add: field_Suc message_ok_def)
  let ?c3 = "?c2\<lparr>message_count := message_count c + 1, console := console c @ [Message m]\<rparr>"
  have "sub_loop n message c = sub_loop k (field MESSAGE_LENGTH m @ [0]) ?c3"
    using r1 r2 by (simp add: n prog_simps wire_sizes [symmetric] msg str print_def) (simp add: MESSAGE_LENGTH_def)
  moreover have "wp (sub_loop k (field MESSAGE_LENGTH m @ [0])) (\<lambda>r c'. r = Some 0 \<and> printed ms ?c3 c') ?c3"
    using Cons.prems(1,3-4) len by (intro Cons.IH) (simp_all add: n)
  ultimately show ?case by (auto simp: wp_iff printed_def)
qed


section \<open>A session that reads what its box holds\<close>

lemma creat_flags:
  "has_flag TFS_O_CREAT TFS_O_CREAT" "\<not> has_flag TFS_O_CREAT TFS_O_TRUNC" "\<not> has_flag TFS_O_CREAT TFS_O_APPEND"
  "has_flag TFS_O_APPEND TFS_O_APPEND" "\<not> has_flag TFS_O_APPEND TFS_O_TRUNC" "\<not> has_flag TFS_O_APPEND TFS_O_CREAT"
  by (simp_all add: has_flag_def TFS_O_CREAT_def TFS_O_TRUNC_def TFS_O_APPEND_def)

text \<open>Opening the file of a box that exists, with a handle to spare.\<close>

definition box_file :: "fs_state \<Rightarrow> byte list \<Rightarrow> nat \<Rightarrow> byte list \<Rightarrow> nat \<Rightarrow> bool" where
  "box_file t name k bytes g \<longleftrightarrow> fs_inv t \<and> is_cstr name \<and> valid_name name \<and>
     a_names (afs_of t) (fname name) = Some k \<and> a_files (afs_of t) k = Some bytes \<and>
     first_index (\<lambda>h. a_handles (afs_of t) (int h) = None) (MAX_OPEN_FILES t) = Some g"

definition with_handle :: "nat \<Rightarrow> nat \<Rightarrow> nat \<Rightarrow> afs \<Rightarrow> afs" where
  "with_handle g k off a = a\<lparr>a_handles := (a_handles a)(int g \<mapsto> (k, off))\<rparr>"

lemma open_box_file:
  assumes "box_file t name k bytes g"
  shows "\<exists>t'. tfs_open (Some name) TFS_O_CREAT t = Inr (int g, t') \<and> fs_inv t' \<and> fs_params t' = fs_params t \<and>
      afs_of t' = with_handle g k 0 (afs_of t)"
    and "\<exists>t'. tfs_open (Some name) TFS_O_APPEND t = Inr (int g, t') \<and> fs_inv t' \<and> fs_params t' = fs_params t \<and>
      afs_of t' = with_handle g k (length bytes) (afs_of t)"
proof -
  note b = assms [unfolded box_file_def]
  have spec: "a_open ni (MAX_OPEN_FILES t) dr (fname name) mode (afs_of t) =
      (int g, with_handle g k (if has_flag mode TFS_O_APPEND then length bytes else 0) (afs_of t))"
    if "\<not> has_flag mode TFS_O_TRUNC" for ni dr mode
    using b that by (simp add: a_open_def a_attach_def with_handle_def Let_def del: afs_of_sel)
  have "wp (tfs_open (Some name) mode) (refines t (int g, with_handle g k
      (if has_flag mode TFS_O_APPEND then length bytes else 0) (afs_of t))) t" if "\<not> has_flag mode TFS_O_TRUNC" for mode
    using tfs_open_spec [of t name mode] b that by (simp add: spec [OF that] del: afs_of_sel)
  from this [of TFS_O_CREAT] this [of TFS_O_APPEND]
  show "\<exists>t'. tfs_open (Some name) TFS_O_CREAT t = Inr (int g, t') \<and> fs_inv t' \<and> fs_params t' = fs_params t \<and>
      afs_of t' = with_handle g k 0 (afs_of t)"
    and "\<exists>t'. tfs_open (Some name) TFS_O_APPEND t = Inr (int g, t') \<and> fs_inv t' \<and> fs_params t' = fs_params t \<and>
      afs_of t' = with_handle g k (length bytes) (afs_of t)"
    by (simp_all add: creat_flags wp_iff refines_def)
qed

lemma read_box_file:
  assumes "fs_inv t" "a_handles (afs_of t) (int g) = Some (k, 0)" "a_files (afs_of t) k = Some bytes"
    and "length bytes \<le> unat len" "unat len \<le> length buffer"
  shows "\<exists>t'. tfs_read (int g) buffer len t =
    Inr ((int (length bytes), bytes @ drop (length bytes) buffer), t') \<and> fs_inv t'"
proof -
  have "a_read (int g) buffer (unat len) (afs_of t) =
      ((int (length bytes), bytes @ drop (length bytes) buffer), with_handle g k (length bytes) (afs_of t))"
    using assms(2-4) by (simp add: a_read_def with_handle_def del: afs_of_sel)
  then show ?thesis using tfs_read_spec [OF assms(1,5), of "int g"]
    by (simp add: wp_iff refines_def) blast
qed

text \<open>A session whose box holds \<open>ms\<close>, about to be sent all of them.\<close>

definition subscriber_ready :: "broker \<Rightarrow> client_t list \<Rightarrow> nat \<Rightarrow> nat \<Rightarrow> byte list list \<Rightarrow> nat \<Rightarrow> nat \<Rightarrow> bool" where
  "subscriber_ready s cls c i ms k g \<longleftrightarrow> clients s = Some cls \<and> c < length cls \<and>
     cl_box (cls ! c) = Box i \<and> cl_offset (cls ! c) = 0 \<and>
     i < length (boxes s) \<and> b_lock (boxes s ! i) = Unlocked \<and>
     b_size (boxes s ! i) = of_nat (length (stored ms)) \<and> length (stored ms) \<le> BOX_SIZE \<and>
     list_all message_ok ms \<and> box_file (tfs s) (cl_box_name (cls ! c)) k (stored ms) g \<and>
     cl_pipe (cls ! c) \<in> set (open_fds s) \<and> accepts s (cl_pipe (cls ! c)) = []"

lemma until_now_spec:
  assumes "subscriber_ready s cls c i ms k g" "length junk = BOX_SIZE"
  shows "wp (handle_messages_until_now (Suc (Suc n)) junk c) (\<lambda>r s'. r = Some 0 \<and>
    outbox s' (cl_pipe (cls ! c)) = outbox s (cl_pipe (cls ! c)) @ concat (map message_frame ms) \<and>
    (\<exists>cls'. clients s' = Some cls' \<and> cl_offset (cls' ! c) = int (length (stored ms)) \<and> cl_box_fd (cls' ! c) = int g) \<and>
    b_lock (boxes s' ! i) = Unlocked) s"
proof -
  note r = assms(1) [unfolded subscriber_ready_def]
  let ?L = "length (stored ms)"
  from r open_box_file(1) obtain t1 where o: "tfs_open (Some (cl_box_name (cls ! c))) TFS_O_CREAT (tfs s) = Inr (int g, t1)"
    "fs_inv t1" "afs_of t1 = with_handle g k 0 (afs_of (tfs s))" by blast
  have h: "a_handles (afs_of t1) (int g) = Some (k, 0)" "a_files (afs_of t1) k = Some (stored ms)"
    using r o(3) by (simp_all add: with_handle_def box_file_def del: afs_of_sel)
  have L: "?L < 2 ^ 64" "unat (of_nat BOX_SIZE :: u64) = BOX_SIZE" using r by (simp_all add: wire_sizes)
  obtain t2 where rd: "tfs_read (int g) junk (of_nat BOX_SIZE) t1 =
      Inr ((int ?L, stored ms @ drop ?L junk), t2)"
    using read_box_file [OF o(2) h, of "of_nat BOX_SIZE" junk] r L assms(2) by auto
  show ?thesis
  proof (cases "?L = 0")
    case True
    then have "ms = []" by (cases ms) (simp_all add: stored_def)
    then show ?thesis
      using r o(1) True
      by (simp add: wp_def handle_messages_until_now_def prog_simps mb_simps u64_of_int_def)
  next
    case False
    then have pos: "(of_nat ?L :: u64) > 0" using L(1) by (simp add: word_gt_0 unat_eq_zero [symmetric] unat_of_nat)
    have snd: "send_messages (cl_pipe (cls ! c)) (stored ms @ drop ?L junk) 0 ?L (ret 0) s' =
        Inr (0, sent_to (cl_pipe (cls ! c)) (concat (map message_frame ms)) s')"
      if "cl_pipe (cls ! c) \<in> set (open_fds s')" "accepts s' (cl_pipe (cls ! c)) = []" for s' :: broker
      using send_messages_spec [OF that, of ms "[]" "drop ?L junk" "ret 0"] r by (simp add: ret_app)
    show ?thesis
      using r o(1) rd pos False
      by (simp add: wp_def handle_messages_until_now_def prog_simps mb_simps u64_of_int_def snd sent_to_def)
  qed
qed

end
