(* ===== verification/Publishing.thy ===== *)
theory Publishing
  imports Messages FsSeq
begin

text \<open>
  What a publisher's session does to the file of its box: each message is appended with
  its terminator, through a handle of its own that the session never closes.
\<close>

section \<open>Blocks and handles to spare\<close>

text \<open>There is a free block whenever there are more blocks than inodes.\<close>

lemma block_to_spare:
  assumes "fs_inv t" "INODE_TABLE_SIZE t < DATA_BLOCKS t"
  shows "first_free (bmap t) \<noteq> None"
proof
  assume none: "first_free (bmap t) = None"
  have wf: "fs_wf t" using assms(1) by (simp add: fs_inv_def)
  note sh = fs_shape_tables [OF fs_wfD(1) [OF wf]]
  have taken: "bmap t ! b = TAKEN" if "b < DATA_BLOCKS t" for b
    using none that sh(10) by (cases "bmap t ! b") (auto simp: first_free_def first_index_None)
  have "\<exists>i. owns (inodes t) (imap t) i b" if "b < DATA_BLOCKS t" for b
    using blocks_ok_taken [OF fs_wfD(3) [OF wf], of b] taken [OF that] that sh(10) by simp
  then obtain f where f: "\<And>b. b < DATA_BLOCKS t \<Longrightarrow> owns (inodes t) (imap t) (f b) b" by metis
  have "inj_on f {..<DATA_BLOCKS t}"
  proof (rule inj_onI)
    fix b c assume "b \<in> {..<DATA_BLOCKS t}" "c \<in> {..<DATA_BLOCKS t}" and e: "f b = f c"
    then have "owns (inodes t) (imap t) (f b) b" "owns (inodes t) (imap t) (f b) c" using f [of b] f [of c] by simp_all
    then show "b = c" unfolding owns_def by (metis of_nat_eq_iff)
  qed
  moreover have "f ` {..<DATA_BLOCKS t} \<subseteq> {..<INODE_TABLE_SIZE t}" using f sh(7) by (auto simp: owns_def)
  ultimately have "card {..<DATA_BLOCKS t} \<le> card {..<INODE_TABLE_SIZE t}" by (metis card_inj_on_le finite_lessThan)
  then show False using assms(2) by simp
qed

definition free_handles :: "fs_state \<Rightarrow> nat" where
  "free_handles t = card {h. h < MAX_OPEN_FILES t \<and> a_handles (afs_of t) (int h) = None}"

lemma handle_to_spare:
  assumes "0 < free_handles t"
  obtains g where "first_index (\<lambda>h. a_handles (afs_of t) (int h) = None) (MAX_OPEN_FILES t) = Some g"
proof -
  have "{h. h < MAX_OPEN_FILES t \<and> a_handles (afs_of t) (int h) = None} \<noteq> {}"
    using assms by (metis free_handles_def card.empty less_irrefl)
  then have "first_index (\<lambda>h. a_handles (afs_of t) (int h) = None) (MAX_OPEN_FILES t) \<noteq> None"
    by (auto simp: first_index_None simp del: afs_of_sel)
  then show thesis using that by blast
qed

lemma one_handle_less:
  assumes "first_index (\<lambda>h. a_handles (afs_of t) (int h) = None) (MAX_OPEN_FILES t) = Some g"
    and "fs_params t' = fs_params t"
    and "a_handles (afs_of t') = (a_handles (afs_of t))(int g \<mapsto> x)"
  shows "free_handles t' = free_handles t - 1"
proof -
  have "MAX_OPEN_FILES t' = MAX_OPEN_FILES t" using assms(2) by (rule fs_params_sizes)
  then have "{h. h < MAX_OPEN_FILES t' \<and> a_handles (afs_of t') (int h) = None} =
      {h. h < MAX_OPEN_FILES t \<and> a_handles (afs_of t) (int h) = None} - {g}"
    using assms(3) by (auto simp del: afs_of_sel)
  moreover have "g \<in> {h. h < MAX_OPEN_FILES t \<and> a_handles (afs_of t) (int h) = None}"
    using assms(1) by (simp add: first_index_Some del: afs_of_sel)
  ultimately show ?thesis by (simp add: free_handles_def card_Diff_singleton del: afs_of_sel)
qed

section \<open>Appending to the file of a box\<close>

definition file_of :: "fs_state \<Rightarrow> byte list \<Rightarrow> byte list option" where
  "file_of t name = Option.bind (a_names (afs_of t) (fname name)) (a_files (afs_of t))"

text \<open>The file of a box, with blocks to spare in the file system.\<close>

definition appendable :: "fs_state \<Rightarrow> byte list \<Rightarrow> byte list \<Rightarrow> bool" where
  "appendable t name bytes \<longleftrightarrow> fs_inv t \<and> is_cstr name \<and> valid_name name \<and> file_of t name = Some bytes \<and>
     INODE_TABLE_SIZE t < DATA_BLOCKS t"

lemma append_spec:
  assumes "appendable t name bytes" "0 < free_handles t" "m \<noteq> []" "length m \<le> length buffer"
    and "length bytes + length m \<le> unat (BLOCK_SIZE t)"
  shows "\<exists>g t1 t2. tfs_open (Some name) TFS_O_APPEND t = Inr (int g, t1) \<and>
    tfs_write (int g) (m @ drop (length m) buffer) (of_nat (length m)) t1 = Inr (int (length m), t2) \<and>
    appendable t2 name (bytes @ m) \<and> free_handles t2 = free_handles t - 1 \<and> fs_params t2 = fs_params t"
proof -
  note ap = assms(1) [unfolded appendable_def file_of_def]
  from ap obtain k where k: "a_names (afs_of t) (fname name) = Some k" "a_files (afs_of t) k = Some bytes"
    by (auto simp: bind_eq_Some_conv simp del: afs_of_sel)
  from handle_to_spare [OF assms(2)] obtain g where
    g: "first_index (\<lambda>h. a_handles (afs_of t) (int h) = None) (MAX_OPEN_FILES t) = Some g" .
  have "box_file t name k bytes g" using ap k g by (simp add: box_file_def del: afs_of_sel)
  from open_box_file(2) [OF this] obtain t1 where
    o: "tfs_open (Some name) TFS_O_APPEND t = Inr (int g, t1)" "fs_inv t1" "fs_params t1 = fs_params t"
      "afs_of t1 = with_handle g k (length bytes) (afs_of t)" by blast
  have h1: "a_handles (afs_of t1) (int g) = Some (k, length bytes)" "a_files (afs_of t1) k = Some bytes"
    using k(2) by (simp_all add: o(4) with_handle_def del: afs_of_sel)
  have sizes: "BLOCK_SIZE t1 = BLOCK_SIZE t" using o(3) by (rule fs_params_sizes)
  have "unat (BLOCK_SIZE t) < 2 ^ 64" using unsigned_less [of "BLOCK_SIZE t"] by simp
  then have len: "length bytes + length m < 2 ^ 64" using assms(5) by simp
  then have L: "unat (of_nat (length m) :: u64) = length m" by (simp add: unat_of_nat take_bit_nat_eq_self)
  have off: "unat (of_offset (ofiles t1 ! g)) = length bytes" if "open_handle t1 (int g)"
    using h1(1) that by simp
  have room: "first_free (bmap t1) \<noteq> None"
    using o(2,3) ap by (intro block_to_spare) (simp_all add: INODE_TABLE_SIZE_def DATA_BLOCKS_def)
  let ?a = "(afs_of t1)\<lparr>a_files := (a_files (afs_of t1))(k \<mapsto> bytes @ m),
    a_handles := (a_handles (afs_of t1))(int g \<mapsto> (k, length bytes + length m))\<rparr>"
  have "a_write (unat (BLOCK_SIZE t1)) (first_free (bmap t1) \<noteq> None) (int g) m (afs_of t1) = (int (length m), ?a)"
    using h1 room assms(5) sizes
    by (simp add: a_write_def Let_def min_absorb1 write_at_def del: afs_of_sel)
  then have w: "wp (tfs_write (int g) (m @ drop (length m) buffer) (of_nat (length m)))
      (refines t1 (int (length m), ?a)) t1"
    using tfs_write_spec [OF o(2), of "of_nat (length m)" "m @ drop (length m) buffer" "int g"] L len off assms(4)
    by (simp del: afs_of_sel)
  then obtain t2 where t2: "tfs_write (int g) (m @ drop (length m) buffer) (of_nat (length m)) t1 = Inr (int (length m), t2)"
    "fs_inv t2" "fs_params t2 = fs_params t1" "afs_of t2 = ?a" by (auto simp: wp_iff refines_def simp del: afs_of_sel)
  have "file_of t2 name = Some (bytes @ m)"
    using k(1) by (simp add: file_of_def t2(4) o(4) with_handle_def del: afs_of_sel)
  moreover have "INODE_TABLE_SIZE t2 < DATA_BLOCKS t2" "fs_params t2 = fs_params t"
    using ap o(3) t2(3) by (simp_all add: INODE_TABLE_SIZE_def DATA_BLOCKS_def)
  moreover have "free_handles t2 = free_handles t - 1"
    using t2(3,4) o(3,4) by (intro one_handle_less [OF g]) (simp_all add: with_handle_def del: afs_of_sel)
  ultimately show ?thesis using o(1) t2(1,2) ap unfolding appendable_def by blast
qed


section \<open>One message\<close>

text \<open>A publisher's session: its box, its pipe, and the file of the box.\<close>

definition publisher_ready :: "broker \<Rightarrow> nat \<Rightarrow> nat \<Rightarrow> int \<Rightarrow> byte list \<Rightarrow> bool" where
  "publisher_ready s c i pipe bytes \<longleftrightarrow>
     (\<exists>cls. clients s = Some cls \<and> c < length cls \<and> cl_box (cls ! c) = Box i \<and> cl_pipe (cls ! c) = pipe) \<and>
     i < length (boxes s) \<and> b_lock (boxes s ! i) = Unlocked \<and> b_cond (boxes s ! i) \<and>
     pipe \<in> set (open_fds s) \<and> appendable (tfs s) (b_name (boxes s ! i)) bytes"

definition published_frame :: "byte list \<Rightarrow> byte list" where
  "published_frame m = [OP_CODE_PUBLISHER] @ field MESSAGE_LENGTH m"

definition local_message :: "byte list \<Rightarrow> bool" where
  "local_message message \<longleftrightarrow> length message = MESSAGE_LENGTH + 1 \<and> message ! MESSAGE_LENGTH = 0"

lemma write_message:
  assumes "local_message message" "message_ok m"
  shows "write_at 0 (field MESSAGE_LENGTH m) message = (m @ [0]) @ drop (length (m @ [0])) (field (MESSAGE_LENGTH + 1) m)"
    and "write_at 0 (field MESSAGE_LENGTH m) message = field (MESSAGE_LENGTH + 1) m"
proof -
  have m: "length m \<le> MESSAGE_LENGTH" using assms(2) by (simp add: message_ok_def)
  have "drop MESSAGE_LENGTH message = [0]"
    using assms(1) by (simp add: local_message_def flip: Cons_nth_drop_Suc)
  then show e: "write_at 0 (field MESSAGE_LENGTH m) message = field (MESSAGE_LENGTH + 1) m"
    using m by (simp add: write_at_def field_Suc)
  have "field (MESSAGE_LENGTH + 1) m = m @ 0 # replicate (MESSAGE_LENGTH - length m) 0"
    using m by (simp add: field_def Suc_diff_le)
  then show "write_at 0 (field MESSAGE_LENGTH m) message = (m @ [0]) @ drop (length (m @ [0])) (field (MESSAGE_LENGTH + 1) m)"
    by (simp add: e)
qed

lemma local_message_field: "message_ok m \<Longrightarrow> local_message (field (MESSAGE_LENGTH + 1) m)"
  by (simp add: message_ok_def local_message_def field_Suc nth_append)

text \<open>The box after a message: its size has grown, its lock is free.\<close>

definition grown_box :: "nat \<Rightarrow> box_t \<Rightarrow> box_t" where
  "grown_box n b = b\<lparr>b_size := b_size b + of_nat n, b_lock := Unlocked\<rparr>"

lemma publish_one:
  assumes "publisher_ready s c i pipe bytes" "local_message message" "message_ok m"
    and "inbox s pipe = arrived (published_frame m @ rest) []"
    and "0 < free_handles (tfs s)" "length bytes + length m + 1 \<le> unat (BLOCK_SIZE (tfs s))"
  shows "\<exists>t. publisher_loop (Suc n) c message s = publisher_loop n c (field (MESSAGE_LENGTH + 1) m)
      (s\<lparr>inbox := (inbox s)(pipe := arrived rest []), tfs := t,
         boxes := (boxes s)[i := grown_box (length m + 1) (boxes s ! i)]\<rparr>) \<and>
    appendable t (b_name (boxes s ! i)) (bytes @ m @ [0]) \<and> free_handles t = free_handles (tfs s) - 1 \<and>
    fs_params t = fs_params (tfs s)"
proof -
  note pr = assms(1) [unfolded publisher_ready_def]
  from pr obtain cls where cls: "clients s = Some cls" "c < length cls" "cl_box (cls ! c) = Box i" "cl_pipe (cls ! c) = pipe"
    by blast
  have m: "length m \<le> MESSAGE_LENGTH" "0 \<notin> set m" using assms(3) by (simp_all add: message_ok_def)
  have flen: "length (field MESSAGE_LENGTH m) = MESSAGE_LENGTH" "field MESSAGE_LENGTH m \<noteq> []"
    using m(1) by (auto simp: field_def wire_sizes)
  have pos: "MESSAGE_LENGTH \<noteq> 0" by (simp add: MESSAGE_LENGTH_def)
  let ?s1 = "s\<lparr>inbox := (inbox s)(pipe := arrived (field MESSAGE_LENGTH m @ rest) [])\<rparr>"
  let ?s2 = "s\<lparr>inbox := (inbox s)(pipe := arrived rest [])\<rparr>"
  have r1: "try_read pipe 1 s = Inr ((1, [OP_CODE_PUBLISHER]), ?s1)"
    using try_read_exact [of pipe s "[OP_CODE_PUBLISHER]"] pr assms(4) by (simp add: published_frame_def)
  have r2: "try_read pipe MESSAGE_LENGTH ?s1 = Inr ((int MESSAGE_LENGTH, field MESSAGE_LENGTH m), ?s2)"
    using try_read_exact [of pipe ?s1 "field MESSAGE_LENGTH m" rest "[]"] flen pr by simp
  let ?msg = "field (MESSAGE_LENGTH + 1) m"
  have "appendable (tfs s) (b_name (boxes s ! i)) bytes" "m @ [0] \<noteq> []" "length (m @ [0]) \<le> length ?msg"
    "length bytes + length (m @ [0]) \<le> unat (BLOCK_SIZE (tfs s))"
    using pr assms(6) m by simp_all
  from append_spec [OF this(1) assms(5) this(2-4)] obtain g t1 t2 where t:
    "tfs_open (Some (b_name (boxes s ! i))) TFS_O_APPEND (tfs s) = Inr (int g, t1)"
    "tfs_write (int g) ((m @ [0]) @ drop (length (m @ [0])) ?msg) (of_nat (length (m @ [0]))) t1 = Inr (int (length (m @ [0])), t2)"
    "appendable t2 (b_name (boxes s ! i)) (bytes @ m @ [0])" "free_handles t2 = free_handles (tfs s) - 1"
    "fs_params t2 = fs_params (tfs s)"
    by blast
  have w: "tfs_write (int g) ?msg (of_nat (Suc (length m))) t1 = Inr (int (Suc (length m)), t2)"
    using t(2) write_message [OF assms(2,3)] by simp
  have str: "c_strlen ?msg = Some (length m)"
    using m by (simp add: c_strlen_some c_str_field is_cstr_field)
  have "publisher_loop (Suc n) c message s = publisher_loop n c ?msg (?s2\<lparr>tfs := t2,
      boxes := (boxes s)[i := grown_box (length m + 1) (boxes s ! i)]\<rparr>)"
    using r1 r2 cls pr t(1) w str write_message(2) [OF assms(2,3)] flen
    by (simp add: prog_simps mb_simps broadcast_def grown_box_def Let_def pos)
  with t(3-5) show ?thesis by auto
qed


section \<open>A session\<close>

text \<open>
  The end of a session leaves the file system alone, of the boxes all but the counters,
  of the sessions all but its own and of the pipes all but its own.
\<close>

definition others_kept :: "nat \<Rightarrow> int \<Rightarrow> broker \<Rightarrow> broker \<Rightarrow> bool" where
  "others_kept c pipe s s' \<longleftrightarrow> (\<exists>cl. clients s' = map_option (\<lambda>cls. cls[c := cl]) (clients s)) \<and>
     length (boxes s') = length (boxes s) \<and> set (open_fds s) - {pipe} \<subseteq> set (open_fds s') \<and>
     accepts s' = accepts s \<and> outbox s' = outbox s"

lemma finish_keeps:
  assumes "clients s = Some cls" "c < length cls" "cl_pipe (cls ! c) \<in> set (open_fds s)"
    and "cl_box (cls ! c) = Box i" "i < length (boxes s)"
  shows "\<exists>r s'. finish_client_session c s = Inr (r, s') \<and> tfs s' = tfs s \<and>
    b_size (boxes s' ! i) = b_size (boxes s ! i) \<and> b_lock (boxes s' ! i) = b_lock (boxes s ! i) \<and>
    others_kept c (cl_pipe (cls ! c)) s s'"
proof -
  have same: "\<exists>cl. cls = cls[c := cl]" by (metis list_update_id)
  have rest: "x = y" if "x \<in> set xs" "x \<notin> set (remove1 y xs)" for x y :: int and xs
    using that by (metis in_set_remove1)
  show ?thesis
    using assms same
    by (auto simp: finish_client_session_def prog_simps mb_simps safe_close_def sys_close_def others_kept_def
        intro: rest)
qed

lemma publish_all:
  assumes "publisher_ready s c i pipe bytes" "local_message message" "list_all message_ok ms"
    and "inbox s pipe = arrived (concat (map published_frame ms)) []" "length ms < n"
    and "length ms \<le> free_handles (tfs s)" "length bytes + length (stored ms) \<le> unat (BLOCK_SIZE (tfs s))"
  shows "wp (publisher_loop n c message) (\<lambda>r s'. r = Returns 0 \<and>
    appendable (tfs s') (b_name (boxes s ! i)) (bytes @ stored ms) \<and>
    b_size (boxes s' ! i) = b_size (boxes s ! i) + of_nat (length (stored ms)) \<and>
    b_lock (boxes s' ! i) = Unlocked \<and> free_handles (tfs s') = free_handles (tfs s) - length ms \<and>
    others_kept c pipe s s') s"
  using assms
proof (induction ms arbitrary: s bytes message n)
  case Nil
  then obtain k where n: "n = Suc k" by (cases n) auto
  note pr = Nil(1) [unfolded publisher_ready_def]
  from pr obtain cls where cls: "clients s = Some cls" "c < length cls" "cl_box (cls ! c) = Box i" "cl_pipe (cls ! c) = pipe"
    by blast
  have "try_read pipe 1 s = Inr ((0, []), s)"
    using Nil(4) pr by (intro try_read_closed) (simp_all add: arrived_def)
  then show ?case
    using finish_keeps [OF cls(1,2) _ cls(3)] cls pr
    by (auto simp: n wp_def prog_simps mb_simps finish_and_def stored_def)
next
  case (Cons m ms)
  then obtain k where n: "n = Suc k" by (cases n) auto
  have m: "message_ok m" "list_all message_ok ms" using Cons.prems(3) by simp_all
  have i: "inbox s pipe = arrived (published_frame m @ concat (map published_frame ms)) []"
    using Cons.prems(4) by simp
  have len: "length bytes + length m + 1 \<le> unat (BLOCK_SIZE (tfs s))"
    using Cons.prems(7) by (simp add: stored_Cons)
  have "0 < free_handles (tfs s)" using Cons.prems(6) by (cases "free_handles (tfs s)") simp_all
  from publish_one [OF Cons.prems(1,2) m(1) i this len, of k] obtain t where
    t: "publisher_loop n c message s = publisher_loop k c (field (MESSAGE_LENGTH + 1) m)
      (s\<lparr>inbox := (inbox s)(pipe := arrived (concat (map published_frame ms)) []), tfs := t,
         boxes := (boxes s)[i := grown_box (length m + 1) (boxes s ! i)]\<rparr>)"
      "appendable t (b_name (boxes s ! i)) (bytes @ m @ [0])" "free_handles t = free_handles (tfs s) - 1"
      "fs_params t = fs_params (tfs s)"
    by (auto simp: n simp del: publisher_loop.simps)
  let ?s = "s\<lparr>inbox := (inbox s)(pipe := arrived (concat (map published_frame ms)) []), tfs := t,
         boxes := (boxes s)[i := grown_box (length m + 1) (boxes s ! i)]\<rparr>"
  have il: "i < length (boxes s)" using Cons.prems(1) by (simp add: publisher_ready_def)
  have ready: "publisher_ready ?s c i pipe (bytes @ m @ [0])"
    using Cons.prems(1) t(2) il by (auto simp: publisher_ready_def grown_box_def)
  have "wp (publisher_loop k c (field (MESSAGE_LENGTH + 1) m)) (\<lambda>r s'. r = Returns 0 \<and>
      appendable (tfs s') (b_name (boxes ?s ! i)) ((bytes @ m @ [0]) @ stored ms) \<and>
      b_size (boxes s' ! i) = b_size (boxes ?s ! i) + of_nat (length (stored ms)) \<and>
      b_lock (boxes s' ! i) = Unlocked \<and> free_handles (tfs s') = free_handles (tfs ?s) - length ms \<and>
      others_kept c pipe ?s s') ?s"
    by (rule Cons.IH [OF ready local_message_field [OF m(1)] m(2)])
      (use Cons.prems(5-7) t(3,4) in \<open>simp_all add: n stored_Cons BLOCK_SIZE_def\<close>)
  then show ?case
    unfolding wp_def t(1) using il t(3)
    by (auto simp: stored_Cons grown_box_def ac_simps others_kept_def split: sum.splits)
qed

text \<open>When no handle is left, the next message ends the session with an error.\<close>

lemma attach_full:
  assumes "free_handles t = 0"
  shows "first_index (\<lambda>h. a_handles (afs_of t) (int h) = None) (MAX_OPEN_FILES t) = None"
  using assms by (auto simp: free_handles_def first_index_None simp del: afs_of_sel)

lemma open_without_handle:
  assumes "appendable t name bytes" "free_handles t = 0"
  shows "\<exists>t'. tfs_open (Some name) TFS_O_APPEND t = Inr (- 1, t')"
proof -
  note ap = assms(1) [unfolded appendable_def file_of_def]
  from ap obtain k where k: "a_names (afs_of t) (fname name) = Some k" "a_files (afs_of t) k = Some bytes"
    by (auto simp: bind_eq_Some_conv simp del: afs_of_sel)
  have "a_open ni (MAX_OPEN_FILES t) dr (fname name) TFS_O_APPEND (afs_of t) = (- 1, afs_of t)" for ni dr
    using k attach_full [OF assms(2)] by (simp add: a_open_def a_attach_def creat_flags Let_def del: afs_of_sel)
  then show ?thesis
    using tfs_open_spec [of t name TFS_O_APPEND] ap by (auto simp: creat_flags wp_iff refines_def simp del: afs_of_sel)
qed

lemma publish_without_handle:
  assumes "publisher_ready s c i pipe bytes" "message_ok m"
    and "inbox s pipe = arrived (published_frame m @ rest) []" "free_handles (tfs s) = 0"
  shows "wp (publisher_loop (Suc n) c message) (\<lambda>r s'. r = Returns (- 1) \<and> b_lock (boxes s' ! i) = Locked) s"
proof -
  note pr = assms(1) [unfolded publisher_ready_def]
  from pr obtain cls where cls: "clients s = Some cls" "c < length cls" "cl_box (cls ! c) = Box i" "cl_pipe (cls ! c) = pipe"
    by blast
  have m: "length m \<le> MESSAGE_LENGTH" using assms(2) by (simp add: message_ok_def)
  have flen: "length (field MESSAGE_LENGTH m) = MESSAGE_LENGTH" "field MESSAGE_LENGTH m \<noteq> []" "MESSAGE_LENGTH \<noteq> 0"
    using m by (auto simp: field_def wire_sizes)
  let ?s1 = "s\<lparr>inbox := (inbox s)(pipe := arrived (field MESSAGE_LENGTH m @ rest) [])\<rparr>"
  let ?s2 = "s\<lparr>inbox := (inbox s)(pipe := arrived rest [])\<rparr>"
  have r1: "try_read pipe 1 s = Inr ((1, [OP_CODE_PUBLISHER]), ?s1)"
    using try_read_exact [of pipe s "[OP_CODE_PUBLISHER]"] pr assms(3) by (simp add: published_frame_def)
  have r2: "try_read pipe MESSAGE_LENGTH ?s1 = Inr ((int MESSAGE_LENGTH, field MESSAGE_LENGTH m), ?s2)"
    using try_read_exact [of pipe ?s1 "field MESSAGE_LENGTH m" rest "[]"] flen pr by simp
  obtain t where t: "tfs_open (Some (b_name (boxes s ! i))) TFS_O_APPEND (tfs s) = Inr (- 1, t)"
    using open_without_handle pr assms(4) by blast
  let ?s3 = "?s2\<lparr>boxes := (boxes s)[i := (boxes s ! i)\<lparr>b_lock := Locked\<rparr>], tfs := t\<rparr>"
  obtain r s' where f: "finish_client_session c ?s3 = Inr (r, s')" "b_lock (boxes s' ! i) = b_lock (boxes ?s3 ! i)"
    using finish_keeps [of ?s3 cls c i] cls pr by auto
  show ?thesis
    using r1 r2 cls pr t f flen
    by (simp add: wp_def prog_simps mb_simps finish_and_def Let_def)
qed


text \<open>Every \<open>tfs_open\<close> without a \<open>tfs_close\<close> takes a handle, until none is left.\<close>

lemma open_uses_handle:
  assumes "appendable t name bytes" "free_handles t = Suc k"
  shows "\<exists>t'. appendable t' name bytes \<and> free_handles t' = k"
proof -
  note ap = assms(1) [unfolded appendable_def file_of_def]
  from ap obtain i where i: "a_names (afs_of t) (fname name) = Some i" "a_files (afs_of t) i = Some bytes"
    by (auto simp: bind_eq_Some_conv simp del: afs_of_sel)
  from handle_to_spare [of t] assms(2) obtain g where
    g: "first_index (\<lambda>h. a_handles (afs_of t) (int h) = None) (MAX_OPEN_FILES t) = Some g" by auto
  have "box_file t name i bytes g" using ap i g by (simp add: box_file_def del: afs_of_sel)
  from open_box_file(1) [OF this] obtain t' where
    o: "fs_inv t'" "fs_params t' = fs_params t" "afs_of t' = with_handle g i 0 (afs_of t)" by blast
  have "free_handles t' = k"
    using one_handle_less [OF g o(2), of "(i, 0)"] o(3) assms(2) by (simp add: with_handle_def del: afs_of_sel)
  moreover have "appendable t' name bytes"
    using ap o i by (simp add: appendable_def file_of_def with_handle_def INODE_TABLE_SIZE_def DATA_BLOCKS_def del: afs_of_sel)
  ultimately show ?thesis by blast
qed

lemma all_handles_used: "appendable t name bytes \<Longrightarrow> \<exists>t'. appendable t' name bytes \<and> free_handles t' = 0"
proof (induction "free_handles t" arbitrary: t)
  case 0
  then show ?case by metis
next
  case (Suc k)
  then show ?case using open_uses_handle by metis
qed

end
