(* ===== verification/BoxTable.thy ===== *)
theory BoxTable
  imports Boxes FsCalls
begin

text \<open>
  The table of boxes as a map from names to sizes and counters, and its operations
  against that map: the invariant says that the table, the flags and the counter agree.
\<close>

section \<open>The invariant and the map\<close>

definition box_named :: "broker \<Rightarrow> byte list \<Rightarrow> nat \<Rightarrow> bool" where
  "box_named s nm i \<longleftrightarrow> c_str (b_name (boxes s ! i)) = nm"

definition boxes_ok :: "broker \<Rightarrow> bool" where
  "boxes_ok s \<longleftrightarrow> length (boxes s) = MAX_BOXES \<and> length (free_boxes s) = MAX_BOXES \<and>
     num_boxes s = int (card {i. i < MAX_BOXES \<and> \<not> free_boxes s ! i}) \<and>
     (\<forall>i<MAX_BOXES. length (b_name (boxes s ! i)) = BOX_NAME_LENGTH + 1 \<and> is_cstr (b_name (boxes s ! i)) \<and>
        (free_boxes s ! i \<longleftrightarrow> c_str (b_name (boxes s ! i)) = [])) \<and>
     (\<forall>i<MAX_BOXES. \<forall>j<MAX_BOXES. \<not> free_boxes s ! i \<and>
        c_str (b_name (boxes s ! i)) = c_str (b_name (boxes s ! j)) \<longrightarrow> i = j)"

definition box_data :: "box_t \<Rightarrow> u64 \<times> u64 \<times> u64" where
  "box_data b = (b_size b, b_publishers b, b_subscribers b)"

definition box_table :: "broker \<Rightarrow> byte list \<Rightarrow> (u64 \<times> u64 \<times> u64) option" where
  "box_table s nm = (if nm = [] then None
     else map_option (\<lambda>i. box_data (boxes s ! i)) (first_index (box_named s nm) MAX_BOXES))"

lemma boxes_okD:
  assumes "boxes_ok s"
  shows "length (boxes s) = MAX_BOXES" "length (free_boxes s) = MAX_BOXES"
    "num_boxes s = int (card {i. i < MAX_BOXES \<and> \<not> free_boxes s ! i})"
    "i < MAX_BOXES \<Longrightarrow> length (b_name (boxes s ! i)) = BOX_NAME_LENGTH + 1"
    "i < MAX_BOXES \<Longrightarrow> is_cstr (b_name (boxes s ! i))"
    "i < MAX_BOXES \<Longrightarrow> free_boxes s ! i \<longleftrightarrow> box_named s [] i"
    "box_named s nm i \<Longrightarrow> box_named s nm j \<Longrightarrow> nm \<noteq> [] \<Longrightarrow> i < MAX_BOXES \<Longrightarrow> j < MAX_BOXES \<Longrightarrow> i = j"
  using assms by (auto simp: boxes_ok_def box_named_def)

text \<open>A name that a box bears belongs to one box only, so the first is the one.\<close>

lemma first_named:
  assumes "boxes_ok s" "i < MAX_BOXES" "box_named s nm i" "nm \<noteq> []"
  shows "first_index (box_named s nm) MAX_BOXES = Some i"
  using assms boxes_okD(7) [OF assms(1)] by (force simp: first_index_Some)

lemma box_table_Some:
  assumes "boxes_ok s" "nm \<noteq> []"
  shows "box_table s nm = Some d \<longleftrightarrow> (\<exists>i<MAX_BOXES. box_named s nm i \<and> d = box_data (boxes s ! i))"
proof
  assume "box_table s nm = Some d"
  then show "\<exists>i<MAX_BOXES. box_named s nm i \<and> d = box_data (boxes s ! i)"
    using assms(2) by (auto simp: box_table_def first_index_Some)
next
  assume "\<exists>i<MAX_BOXES. box_named s nm i \<and> d = box_data (boxes s ! i)"
  then show "box_table s nm = Some d" using first_named [OF assms(1)] assms(2) by (auto simp: box_table_def)
qed

section \<open>Looking up\<close>

lemma box_at_eq: "i < length (boxes s) \<Longrightarrow> box_at i s = Inr (boxes s ! i, s)"
  by (simp add: box_at_def)

text \<open>One comparison of the loops over the boxes.\<close>

lemma box_compare:
  assumes "boxes_ok s" "i < MAX_BOXES" "is_cstr name"
  shows "\<exists>v. c_strcmp (b_name (boxes s ! i)) name = Some v \<and> (v = 0 \<longleftrightarrow> box_named s (c_str name) i)"
  using c_strcmp_zero [OF boxes_okD(5) [OF assms(1,2)] assms(3)] by (simp add: box_named_def)

lemma get_box_eq:
  assumes "boxes_ok s" "is_cstr name"
  shows "get_box name s = Inr (first_index (box_named s (c_str name)) MAX_BOXES, s)"
proof -
  let ?body = "\<lambda>i. bind (box_at i) (\<lambda>b. bind (defined (c_strcmp (b_name b) name)) (\<lambda>r. ret (if r = 0 then Some i else None)))"
  have "?body j s = (if box_named s (c_str name) j then Inr (Some j, s) else Inr (None, s))" if "j < MAX_BOXES" for j
    using box_compare [OF assms(1) that assms(2)] boxes_okD(1) [OF assms(1)] that
    by (auto simp: prog_simps box_at_eq)
  from for_ret_first [of MAX_BOXES ?body s "box_named s (c_str name)" "\<lambda>j. j" "\<lambda>_. s", OF this]
  show ?thesis by (simp add: get_box_def split: option.splits)
qed

lemma get_free_box_eq:
  assumes "length (free_boxes s) = MAX_BOXES"
  shows "get_free_box s = (case first_index (\<lambda>i. free_boxes s ! i) MAX_BOXES of None \<Rightarrow> Inr (- 1, s)
    | Some i \<Rightarrow> Inr (int i, s\<lparr>free_boxes := (free_boxes s)[i := False]\<rparr>))"
proof -
  let ?body = "\<lambda>i. bind (box_is_free i) (\<lambda>f. if f then andthen (set_free_box i False) (ret (Some (int i))) else ret None)"
  have "?body j s = (if free_boxes s ! j then Inr (Some (int j), s\<lparr>free_boxes := (free_boxes s)[j := False]\<rparr>)
      else Inr (None, s))" if "j < MAX_BOXES" for j
    using assms that by (simp add: prog_simps box_is_free_def set_free_box_def)
  from for_ret_first [of MAX_BOXES ?body s "\<lambda>i. free_boxes s ! i" int
      "\<lambda>i. s\<lparr>free_boxes := (free_boxes s)[i := False]\<rparr>", OF this]
  show ?thesis by (simp add: get_free_box_def prog_simps split: option.splits)
qed

section \<open>Creating\<close>

lemma free_slot:
  assumes "boxes_ok s" "num_boxes s < int MAX_BOXES"
  obtains i where "first_index (\<lambda>i. free_boxes s ! i) MAX_BOXES = Some i"
proof (cases "first_index (\<lambda>i. free_boxes s ! i) MAX_BOXES")
  case None
  then have "{i. i < MAX_BOXES \<and> \<not> free_boxes s ! i} = {..<MAX_BOXES}" by (auto simp: first_index_None)
  then show ?thesis using assms(2) boxes_okD(3) [OF assms(1)] by simp
qed

definition new_box :: "byte list \<Rightarrow> box_t" where
  "new_box name = \<lparr>b_name = name[BOX_NAME_LENGTH := 0], b_size = 0, b_publishers = 0, b_subscribers = 0,
     b_cond = True, b_lock = Unlocked\<rparr>"

definition created_box :: "byte list \<Rightarrow> nat \<Rightarrow> broker \<Rightarrow> broker" where
  "created_box name i s = s\<lparr>num_boxes := num_boxes s + 1, free_boxes := (free_boxes s)[i := False],
     boxes := (boxes s)[i := new_box name]\<rparr>"

lemma create_box_eq:
  assumes "boxes_ok s" "length name = BOX_NAME_LENGTH + 1"
    and "first_index (\<lambda>i. free_boxes s ! i) MAX_BOXES = Some i"
  shows "create_box False name s = Inr (0, created_box name i s)"
proof -
  have "c_load 0 (BOX_NAME_LENGTH + 1) name = Some name" using assms(2) by (simp add: c_load_def read_at_def)
  moreover have "i < MAX_BOXES" using assms(3) by (simp add: first_index_Some)
  moreover have "length (boxes s) = MAX_BOXES" "length (free_boxes s) = MAX_BOXES"
    using boxes_okD(1,2) [OF assms(1)] .
  ultimately show ?thesis
    using assms(3) get_free_box_eq [of "s\<lparr>num_boxes := num_boxes s + 1\<rparr>"]
    by (simp add: create_box_def prog_simps set_box_def new_box_def created_box_def Let_def)
qed

lemma c_str_cut:
  assumes "is_cstr m" "length m = Suc n" shows "c_str (m[n := 0]) = c_str m" "is_cstr (m[n := 0])"
proof -
  obtain r where m: "m = c_str m @ 0 # r" using cstr_split [OF assms(1)] by blast
  have l: "length (c_str m) \<le> n" using length_c_str [OF assms(1)] assms(2) by simp
  have "\<exists>r'. m[n := 0] = c_str m @ 0 # r'"
  proof (cases "length (c_str m) = n")
    case True
    then have "m[n := 0] = c_str m @ 0 # r" by (subst m) (simp add: list_update_append)
    then show ?thesis by blast
  next
    case False
    with l obtain k where k: "n = length (c_str m) + Suc k" by (metis less_imp_Suc_add le_neq_implies_less add_Suc_right)
    have "m[n := 0] = c_str m @ 0 # r[k := 0]" by (subst m) (simp add: list_update_append k)
    then show ?thesis by blast
  qed
  then obtain r' where "m[n := 0] = c_str m @ 0 # r'" by blast
  then show "c_str (m[n := 0]) = c_str m" "is_cstr (m[n := 0])"
    by (simp_all add: c_str_append_nul c_str_no_nul is_cstr_def)
qed

lemma used_after_create:
  assumes "i < MAX_BOXES" "free_boxes s ! i" "length (free_boxes s) = MAX_BOXES"
  shows "card {j. j < MAX_BOXES \<and> \<not> (free_boxes s)[i := False] ! j} =
    Suc (card {j. j < MAX_BOXES \<and> \<not> free_boxes s ! j})"
proof -
  have "{j. j < MAX_BOXES \<and> \<not> (free_boxes s)[i := False] ! j} = insert i {j. j < MAX_BOXES \<and> \<not> free_boxes s ! j}"
    using assms by (auto simp: nth_list_update)
  then show ?thesis using assms(2) by simp
qed


lemma created_named:
  assumes "is_cstr name" "length name = BOX_NAME_LENGTH + 1" "i < length (boxes s)"
  shows "box_named (created_box name i s) nm j \<longleftrightarrow> (if j = i then c_str name = nm else box_named s nm j)"
  using c_str_cut(1) [of name BOX_NAME_LENGTH] assms
  by (simp add: box_named_def created_box_def new_box_def nth_list_update)

lemma created_box_ok:
  assumes "boxes_ok s" "is_cstr name" "length name = BOX_NAME_LENGTH + 1" "c_str name \<noteq> []"
    and "box_table s (c_str name) = None" "first_index (\<lambda>i. free_boxes s ! i) MAX_BOXES = Some i"
  shows "boxes_ok (created_box name i s)"
    and "box_table (created_box name i s) = (box_table s)(c_str name \<mapsto> (0, 0, 0))"
proof -
  let ?s = "created_box name i s"
  note ok = boxes_okD [OF assms(1)]
  have i: "i < MAX_BOXES" "free_boxes s ! i" using assms(6) by (simp_all add: first_index_Some)
  note named = created_named [OF assms(2,3), of i s]
  have new: "\<not> box_named s (c_str name) j" if "j < MAX_BOXES" for j
    using assms(4,5) first_named [OF assms(1) that] that by (auto simp: box_table_def)
  have free: "free_boxes ?s ! j \<longleftrightarrow> j \<noteq> i \<and> free_boxes s ! j" if "j < MAX_BOXES" for j
    using ok(2) that i(1) by (simp add: created_box_def nth_upd)
  have cs: "length (b_name (boxes ?s ! j)) = BOX_NAME_LENGTH + 1" "is_cstr (b_name (boxes ?s ! j))"
    if "j < MAX_BOXES" for j
    using ok(1,4,5) that assms(2,3) c_str_cut(2) [of name BOX_NAME_LENGTH]
    by (simp_all add: created_box_def new_box_def nth_upd)
  have one: "j = k" if "j < MAX_BOXES" "k < MAX_BOXES" "\<not> free_boxes ?s ! j" "box_named ?s nm j" "box_named ?s nm k" for j k nm
    using that new free named ok(1,6,7) i assms(4)
    by (cases "j = i"; cases "k = i") (auto simp: box_named_def)
  show 1: "boxes_ok ?s"
    unfolding boxes_ok_def
  proof (intro conjI allI impI)
    show "length (boxes ?s) = MAX_BOXES" "length (free_boxes ?s) = MAX_BOXES"
      using ok(1,2) by (simp_all add: created_box_def)
    show "num_boxes ?s = int (card {i. i < MAX_BOXES \<and> \<not> free_boxes ?s ! i})"
      using used_after_create [OF i ok(2)] ok(3) by (simp add: created_box_def)
    fix j assume j: "j < MAX_BOXES"
    show "free_boxes ?s ! j \<longleftrightarrow> c_str (b_name (boxes ?s ! j)) = []"
      using named [of "[]" j] free [OF j] ok(1,6) j assms(4) i by (auto simp: box_named_def)
  qed (use cs one in \<open>auto simp: box_named_def\<close>)
  show "box_table ?s = (box_table s)(c_str name \<mapsto> (0, 0, 0))"
  proof
    fix nm
    have at_i: "box_data (boxes ?s ! i) = (0, 0, 0)"
      using i ok(1) by (simp add: created_box_def new_box_def box_data_def)
    have at_j: "boxes ?s ! j = boxes s ! j" if "j \<noteq> i" for j
      using that by (simp add: created_box_def nth_list_update)
    show "box_table ?s nm = ((box_table s)(c_str name \<mapsto> (0, 0, 0))) nm"
    proof (cases "nm = []")
      case True
      then show ?thesis using assms(4) by (simp add: box_table_def)
    next
      case False
      show ?thesis
      proof (rule map_eqI)
        fix d
        have ni: "\<not> box_named s nm i" using ok(6) [OF i(1)] i False by (auto simp: box_named_def)
        have "box_table ?s nm = Some d \<longleftrightarrow> (\<exists>j<MAX_BOXES. box_named ?s nm j \<and> d = box_data (boxes ?s ! j))"
          by (rule box_table_Some [OF 1 False])
        also have "\<dots> \<longleftrightarrow> (c_str name = nm \<and> d = (0, 0, 0)) \<or>
            (\<exists>j<MAX_BOXES. box_named s nm j \<and> d = box_data (boxes s ! j))"
          using named ok(1) i(1) ni at_i at_j by metis
        also have "\<dots> \<longleftrightarrow> ((box_table s)(c_str name \<mapsto> (0, 0, 0))) nm = Some d"
          using new by (auto simp: box_table_Some [OF assms(1) False])
        finally show "box_table ?s nm = Some d \<longleftrightarrow> ((box_table s)(c_str name \<mapsto> (0, 0, 0))) nm = Some d" .
      qed
    qed
  qed
qed

section \<open>Removing\<close>

definition removed_box :: "nat \<Rightarrow> fs_state \<Rightarrow> broker \<Rightarrow> broker" where
  "removed_box i t s = s\<lparr>num_boxes := num_boxes s - 1, free_boxes := (free_boxes s)[i := True], tfs := t,
     boxes := (boxes s)[i := (boxes s ! i)\<lparr>b_name := (b_name (boxes s ! i))[0 := 0], b_size := 0,
       b_publishers := 0, b_subscribers := 0\<rparr>]\<rparr>"

lemma remove_box_eq:
  assumes "boxes_ok s" "is_cstr name" "fs_inv (tfs s)"
  shows "remove_box name s = (case first_index (box_named s (c_str name)) MAX_BOXES of
      None \<Rightarrow> Inr (- 1, s)
    | Some i \<Rightarrow> (case tfs_unlink (Some (b_name (boxes s ! i))) (tfs s) of
          Inl a \<Rightarrow> Inl a
        | Inr (u, t) \<Rightarrow> if u = - 1 then Inr (- 1, s\<lparr>free_boxes := (free_boxes s)[i := True], tfs := t\<rparr>)
            else Inr (0, removed_box i t s)))"
proof -
  note ok = boxes_okD [OF assms(1)]
  let ?u = "\<lambda>i. projr (tfs_unlink (Some (b_name (boxes s ! i))) (tfs s))"
  have u: "tfs_unlink (Some (b_name (boxes s ! i))) (tfs s) = Inr (?u i)" if "i < MAX_BOXES" for i
    by (simp add: tfs_unlink_eq [OF assms(3) ok(5) [OF that]])
  let ?body = "\<lambda>i. bind (box_at i) (\<lambda>b. bind (defined (c_strcmp (b_name b) name)) (\<lambda>r.
       if r = 0 then
         andthen (set_free_box i True)
         (bind (in_tfs (tfs_unlink (Some (b_name b)))) (\<lambda>u.
          if u = - 1 then ret (Some (- 1))
          else
            andthen (set_box i (\<lambda>b. b\<lparr>b_name := (b_name b)[0 := 0], b_size := 0, b_publishers := 0,
              b_subscribers := 0\<rparr>))
            (andthen (modify (\<lambda>s. s\<lparr>num_boxes := num_boxes s - 1\<rparr>)) (ret (Some 0)))))
       else ret None))"
  let ?f = "\<lambda>i. if fst (?u i) = - 1 then - 1 else (0 :: int)"
  let ?g = "\<lambda>i. if fst (?u i) = - 1 then s\<lparr>free_boxes := (free_boxes s)[i := True], tfs := snd (?u i)\<rparr>
    else removed_box i (snd (?u i)) s"
  have "?body j s = (if box_named s (c_str name) j then Inr (Some (?f j), ?g j) else Inr (None, s))"
    if j: "j < MAX_BOXES" for j
  proof -
    from box_compare [OF assms(1) j assms(2)] obtain v where
      v: "c_strcmp (b_name (boxes s ! j)) name = Some v" "v = 0 \<longleftrightarrow> box_named s (c_str name) j" by blast
    obtain r t where rt: "tfs_unlink (Some (b_name (boxes s ! j))) (tfs s) = Inr (r, t)"
      using u [OF j] by (metis surj_pair)
    show ?thesis
      using v ok(1,2) j
      by (simp add: prog_simps box_at_eq set_free_box_def in_tfs_def zoom_def rt set_box_def removed_box_def)
  qed
  from for_ret_first [of MAX_BOXES ?body s "box_named s (c_str name)" ?f ?g, OF this]
  have r: "remove_box name s = (case first_index (box_named s (c_str name)) MAX_BOXES of
      None \<Rightarrow> Inr (- 1, s) | Some k \<Rightarrow> Inr (?f k, ?g k))"
    unfolding remove_box_def bind_app by (simp add: ret_app split: option.splits)
  show ?thesis
  proof (cases "first_index (box_named s (c_str name)) MAX_BOXES")
    case None
    with r show ?thesis by simp
  next
    case (Some i)
    then have "i < MAX_BOXES" by (simp add: first_index_Some)
    then obtain x t where "tfs_unlink (Some (b_name (boxes s ! i))) (tfs s) = Inr (x, t)"
      using u by (metis surj_pair)
    with r Some show ?thesis by simp
  qed
qed

lemma used_after_remove:
  assumes "i < MAX_BOXES" "\<not> free_boxes s ! i" "length (free_boxes s) = MAX_BOXES"
  shows "int (card {j. j < MAX_BOXES \<and> \<not> (free_boxes s)[i := True] ! j}) =
    int (card {j. j < MAX_BOXES \<and> \<not> free_boxes s ! j}) - 1"
proof -
  have "{j. j < MAX_BOXES \<and> \<not> free_boxes s ! j} = insert i {j. j < MAX_BOXES \<and> \<not> (free_boxes s)[i := True] ! j}"
    using assms by (auto simp: nth_list_update split: if_splits)
  moreover have "i \<notin> {j. j < MAX_BOXES \<and> \<not> (free_boxes s)[i := True] ! j}" using assms by simp
  ultimately show ?thesis by simp
qed

lemma removed_box_ok:
  assumes "boxes_ok s" "i < MAX_BOXES" "box_named s nm i" "nm \<noteq> []"
  shows "boxes_ok (removed_box i t s)" and "box_table (removed_box i t s) = (box_table s)(nm := None)"
proof -
  let ?s = "removed_box i t s"
  note ok = boxes_okD [OF assms(1)]
  have used: "\<not> free_boxes s ! i" using ok(6) [OF assms(2)] assms(3,4) by (auto simp: box_named_def)
  have at_j: "boxes ?s ! j = boxes s ! j" if "j \<noteq> i" for j
    using that by (simp add: removed_box_def nth_list_update)
  have at_i: "b_name (boxes ?s ! i) = (b_name (boxes s ! i))[0 := 0]"
    using ok(1) assms(2) by (simp add: removed_box_def)
  have cleared: "c_str ((b_name (boxes s ! i))[0 := 0]) = []" "is_cstr ((b_name (boxes s ! i))[0 := 0])"
    using ok(4) [OF assms(2)] by (cases "b_name (boxes s ! i)"; simp add: c_str_def is_cstr_def)+
  have named: "box_named ?s n j \<longleftrightarrow> (if j = i then n = [] else box_named s n j)" for n j
    using at_i at_j [of j] cleared(1) by (auto simp: box_named_def)
  have free: "free_boxes ?s ! j \<longleftrightarrow> j = i \<or> free_boxes s ! j" if "j < MAX_BOXES" for j
    using ok(2) that assms(2) by (simp add: removed_box_def nth_upd)
  show 1: "boxes_ok ?s"
    unfolding boxes_ok_def
  proof (intro conjI allI impI)
    show "length (boxes ?s) = MAX_BOXES" "length (free_boxes ?s) = MAX_BOXES"
      using ok(1,2) by (simp_all add: removed_box_def)
    show "num_boxes ?s = int (card {i. i < MAX_BOXES \<and> \<not> free_boxes ?s ! i})"
      using used_after_remove [OF assms(2) used ok(2)] ok(3) by (simp add: removed_box_def)
    fix j assume j: "j < MAX_BOXES"
    show "length (b_name (boxes ?s ! j)) = BOX_NAME_LENGTH + 1" "is_cstr (b_name (boxes ?s ! j))"
      using at_i at_j [of j] ok(4,5) [OF j] cleared(2) by (cases "j = i"; simp)+
    show "free_boxes ?s ! j \<longleftrightarrow> c_str (b_name (boxes ?s ! j)) = []"
      using named [of "[]" j] free [OF j] ok(6) [OF j] by (auto simp: box_named_def)
    fix k assume k: "k < MAX_BOXES"
    assume e: "\<not> free_boxes ?s ! j \<and> c_str (b_name (boxes ?s ! j)) = c_str (b_name (boxes ?s ! k))"
    then have "j \<noteq> i" "\<not> free_boxes s ! j" using free [OF j] by auto
    then have "c_str (b_name (boxes s ! j)) \<noteq> []" using ok(6) [OF j] by (simp add: box_named_def)
    then show "j = k"
      using e \<open>j \<noteq> i\<close> at_i cleared(1) at_j ok(7) [of "c_str (b_name (boxes s ! j))" j k] j k
      by (cases "k = i") (auto simp: box_named_def)
  qed
  show "box_table ?s = (box_table s)(nm := None)"
  proof
    fix n
    show "box_table ?s n = ((box_table s)(nm := None)) n"
    proof (cases "n = []")
      case True
      then show ?thesis by (simp add: box_table_def)
    next
      case False
      show ?thesis
      proof (rule map_eqI)
        fix d
        have "box_table ?s n = Some d \<longleftrightarrow> (\<exists>j<MAX_BOXES. box_named ?s n j \<and> d = box_data (boxes ?s ! j))"
          by (rule box_table_Some [OF 1 False])
        also have "\<dots> \<longleftrightarrow> (\<exists>j<MAX_BOXES. j \<noteq> i \<and> box_named s n j \<and> d = box_data (boxes s ! j))"
          using named False at_j by metis
        also have "\<dots> \<longleftrightarrow> n \<noteq> nm \<and> (\<exists>j<MAX_BOXES. box_named s n j \<and> d = box_data (boxes s ! j))"
          using ok(7) [OF _ assms(3,4) _ assms(2)] assms(3) by (auto simp: box_named_def)
        also have "\<dots> \<longleftrightarrow> ((box_table s)(nm := None)) n = Some d"
          by (simp add: box_table_Some [OF assms(1) False])
        finally show "box_table ?s n = Some d \<longleftrightarrow> ((box_table s)(nm := None)) n = Some d" .
      qed
    qed
  qed
qed

end
