(* ===== verification/BrokerExample.thy ===== *)
theory BrokerExample
  imports Publishing BoxTable FsExample
begin

text \<open>
  A small broker for the witnesses: one box, "/a", whose file is empty, a publisher's and a
  subscriber's session on it, and a third that is idle.
\<close>

section \<open>The file system\<close>

definition box_params :: tfs_params where
  "box_params = \<lparr>max_inode_count = 2, max_block_count = 3, max_open_files_count = 4, block_size = 88\<rparr>"

definition bx0 :: fs_state where
  "bx0 = ex0\<lparr>fs_params := box_params\<rparr>"

definition bx1 :: fs_state where
  "bx1 = \<lparr>fs_params = box_params,
     inode_table = Some [\<lparr>i_node_type = T_DIRECTORY, i_size = 88, i_data_block = 0\<rparr>,
       \<lparr>i_node_type = T_DIRECTORY, i_size = 7, i_data_block = 2\<rparr>],
     freeinode_ts = Some [TAKEN, FREE], fs_data = Some (replicate 264 255),
     free_blocks = Some [TAKEN, FREE, FREE],
     open_file_table = Some (replicate 4 \<lparr>of_inumber = 1, of_offset = 3\<rparr>),
     free_open_file_entries = Some [FREE, FREE, FREE, FREE], g_library_mutex = False\<rparr>"

definition bx2 :: fs_state where
  "bx2 = bx1\<lparr>
     inode_table := Some [\<lparr>i_node_type = T_DIRECTORY, i_size = 88, i_data_block = 0\<rparr>,
       \<lparr>i_node_type = T_FILE, i_size = 0, i_data_block = - 1\<rparr>],
     freeinode_ts := Some [TAKEN, TAKEN],
     fs_data := Some (97 # replicate 39 0 @ [1, 0, 0, 0] @ replicate 220 255),
     open_file_table := Some (\<lparr>of_inumber = 1, of_offset = 0\<rparr> # replicate 3 \<lparr>of_inumber = 1, of_offset = 3\<rparr>),
     free_open_file_entries := Some [TAKEN, FREE, FREE, FREE]\<rparr>"

definition box_fs :: fs_state where
  "box_fs = bx2\<lparr>free_open_file_entries := Some [FREE, FREE, FREE, FREE]\<rparr>"

lemma bx_init: "tfs_init ex_env (Some box_params) bx0 = Inr (0, bx1)"
  by code_simp

lemma bx_open: "tfs_open (Some path_a) TFS_O_CREAT bx1 = Inr (0, bx2)"
  by code_simp

lemma bx_close: "tfs_close 0 bx2 = Inr (0, box_fs)"
  by code_simp

lemma bx1_inv: "fs_inv bx1" "afs_of bx1 = a_empty"
proof -
  have "params_ok box_params" "inode_table bx0 = None" "\<not> g_library_mutex bx0"
    by (simp_all add: params_ok_def box_params_def bx0_def ex0_def)
  from wp_result [OF tfs_init_spec [OF this(1) ex0_start(3) this(2,3)] bx_init]
  show "fs_inv bx1" "afs_of bx1 = a_empty" by auto
qed

lemma box_fs_inv: "fs_inv box_fs"
proof -
  have "fs_inv bx2"
    using wp_result [OF tfs_open_spec [OF bx1_inv(1) path_cstr(1)] bx_open]
    by (auto simp: refines_def bx1_inv(2) a_empty_def)
  then show ?thesis using wp_result [OF tfs_close_spec bx_close] by (simp add: refines_def)
qed

lemma box_fs_facts:
  "name_slot box_fs [97] = Some 0" "snd (dir_slots box_fs 0 ! 0) = 1" "file_inum (imap box_fs) 1"
  "content box_fs (Suc 0) = []" "omap box_fs = [FREE, FREE, FREE, FREE]" "INODE_TABLE_SIZE box_fs = 2"
  "DATA_BLOCKS box_fs = 3" "unat (BLOCK_SIZE box_fs) = 88" "MAX_OPEN_FILES box_fs = 4"
  by code_simp+

definition box_name_a :: "byte list" where
  "box_name_a = field (BOX_NAME_LENGTH + 1) [47, 97]"

lemma box_name_a: "is_cstr box_name_a" "c_str box_name_a = [47, 97]" "fname box_name_a = [97]" "valid_name box_name_a"
  "length box_name_a = BOX_NAME_LENGTH + 1"
proof -
  show "is_cstr box_name_a" "c_str box_name_a = [47, 97]" "length box_name_a = BOX_NAME_LENGTH + 1"
    unfolding box_name_a_def by (rule is_cstr_field c_str_field length_field; simp add: BOX_NAME_LENGTH_def)+
  then show "fname box_name_a = [97]" "valid_name box_name_a"
    by (simp_all add: fname_def valid_name_def slash_def box_name_a_def field_def)
qed

lemma box_fs_appendable: "appendable box_fs box_name_a []"
  by (simp add: appendable_def box_fs_inv box_name_a box_fs_facts file_of_def)

lemma box_fs_handles: "free_handles box_fs = 4"
proof -
  have "open_handle box_fs (int h) = False" if "h < 4" for h
    using that by (auto simp: open_handle_def box_fs_facts less_Suc_eq numeral_eq_Suc nth_Cons')
  then have "{h. h < MAX_OPEN_FILES box_fs \<and> a_handles (afs_of box_fs) (int h) = None} = {..<4}"
    by (auto simp: box_fs_facts)
  then show ?thesis by (simp add: free_handles_def)
qed

section \<open>The broker\<close>

definition used_box :: box_t where
  "used_box = \<lparr>b_name = box_name_a, b_size = 0, b_publishers = 1, b_subscribers = 1, b_cond = True, b_lock = Unlocked\<rparr>"

definition unused_box :: box_t where
  "unused_box = \<lparr>b_name = replicate 32 0, b_size = 0, b_publishers = 0, b_subscribers = 0, b_cond = False, b_lock = Dead\<rparr>"

definition session_on_a :: "byte \<Rightarrow> int \<Rightarrow> int \<Rightarrow> client_t" where
  "session_on_a opcode i fd = \<lparr>cl_opcode = opcode, cl_session = i, cl_box_name = box_name_a, cl_box = Box 0,
     cl_offset = 0, cl_box_fd = 0, cl_pipename = replicate 256 0, cl_pipe = fd\<rparr>"

definition idle_session :: client_t where
  "idle_session = \<lparr>cl_opcode = 0, cl_session = 2, cl_box_name = replicate 32 0, cl_box = No_box,
     cl_offset = 0, cl_box_fd = - 1, cl_pipename = field 256 [112], cl_pipe = 0\<rparr>"

definition ex_queue :: "request_t pc_queue" where
  "ex_queue = \<lparr>pcq_buffer = Some (replicate 3 \<lparr>rq_opcode = 0, rq_pipename = [], rq_box_name = []\<rparr>),
     pcq_capacity = 3, pcq_current_size = 0, pcq_head = 0, pcq_tail = 0,
     pcq_locks = (\<lambda>_. Unlocked), pcq_conds = (\<lambda>_. True)\<rparr>"

text \<open>On the publisher's pipe, 5, lie \<open>bs\<close>; the subscriber's pipe is 6, a manager's opens as 7.\<close>

definition ex_broker :: "byte list \<Rightarrow> broker" where
  "ex_broker bs = \<lparr>inbox = (\<lambda>_. [])(5 := arrived bs []), accepts = (\<lambda>_. []), outbox = (\<lambda>_. []),
     opens = (\<lambda>_. [])([112] := [7]), open_fds = [3, 5, 6], path_calls = [], errno = 0, max_sessions = 3,
     num_boxes = 1, server_pipe = 3, pc_queue = ex_queue,
     clients = Some [session_on_a OP_CODE_REGIST_PUB 0 5, session_on_a OP_CODE_REGIST_SUB 1 6, idle_session],
     boxes = used_box # replicate 63 unused_box, free_boxes = False # replicate 63 True, boxes_lock = Unlocked,
     tfs = box_fs\<rparr>"

lemma ex_broker_sel:
  "inbox (ex_broker bs) 5 = arrived bs []" "accepts (ex_broker bs) = (\<lambda>_. [])" "outbox (ex_broker bs) = (\<lambda>_. [])"
  "open_fds (ex_broker bs) = [3, 5, 6]" "max_sessions (ex_broker bs) = 3" "num_boxes (ex_broker bs) = 1"
  "clients (ex_broker bs) =
     Some [session_on_a OP_CODE_REGIST_PUB 0 5, session_on_a OP_CODE_REGIST_SUB 1 6, idle_session]"
  "boxes (ex_broker bs) = used_box # replicate 63 unused_box" "free_boxes (ex_broker bs) = False # replicate 63 True"
  "boxes_lock (ex_broker bs) = Unlocked" "tfs (ex_broker bs) = box_fs" "opens (ex_broker bs) [112] = [7]"
  by (simp_all add: ex_broker_def)

lemma ex_publisher: "publisher_ready (ex_broker bs) 0 0 5 []"
  by (simp add: publisher_ready_def ex_broker_sel session_on_a_def used_box_def box_fs_appendable)

lemma ex_boxes_ok: "boxes_ok (ex_broker bs)"
proof -
  have cl: "c_str (replicate 32 0 :: byte list) = []" "is_cstr (replicate 32 0 :: byte list)"
    by (simp_all add: c_str_def is_cstr_def numeral_eq_Suc)
  have "{i. i < MAX_BOXES \<and> \<not> (False # replicate 63 True) ! i} = {0}"
    by (auto simp: MAX_BOXES_def nth_Cons' split: if_splits)
  then show ?thesis
    unfolding boxes_ok_def ex_broker_sel
    by (auto simp: used_box_def unused_box_def box_name_a cl wire_sizes nth_Cons' split: if_splits)
qed

end
