(* ===== verification/Live.thy ===== *)
theory Live
  imports Messages
begin

text \<open>
  A subscriber's session that is up to date and wakes up: what it sends of the bytes that
  have been added to its box since, and what the subscriber program makes of it.
\<close>

definition live_session :: "broker \<Rightarrow> client_t list \<Rightarrow> nat \<Rightarrow> nat \<Rightarrow> nat \<Rightarrow> byte list \<Rightarrow> nat \<Rightarrow> bool" where
  "live_session s cls c i k bytes off \<longleftrightarrow> clients s = Some cls \<and> c < length cls \<and> i < length (boxes s) \<and>
     b_lock (boxes s ! i) = Unlocked \<and> b_cond (boxes s ! i) \<and> b_size (boxes s ! i) = of_nat (length bytes) \<and>
     length bytes < 2 ^ 63 \<and> cl_offset (cls ! c) = int off \<and> fs_inv (tfs s) \<and>
     a_handles (afs_of (tfs s)) (cl_box_fd (cls ! c)) = Some (k, off) \<and> a_files (afs_of (tfs s)) k = Some bytes \<and>
     cl_pipe (cls ! c) \<in> set (open_fds s) \<and> accepts s (cl_pipe (cls ! c)) = []"

lemma unread_bytes:
  assumes "off \<le> len" "len < 2 ^ 63"
  shows "(of_nat len :: u64) - u64_of_int (int off) = 0 \<longleftrightarrow> off = len"
proof -
  have "(of_nat len :: u64) - u64_of_int (int off) = of_nat (len - off)"
    using assms(1) by (simp add: u64_of_int_def of_nat_diff)
  moreover have "(of_nat (len - off) :: u64) = 0 \<longleftrightarrow> len - off = 0"
    using assms(2) by (simp add: unat_eq_zero [symmetric] unat_of_nat take_bit_nat_eq_self del: unat_eq_zero)
  ultimately show ?thesis using assms(1) by auto
qed

text \<open>With nothing to read it goes to sleep, the lock given up.\<close>

lemma subscriber_sleeps:
  assumes "live_session s cls c i k bytes (length bytes)"
  shows "subscriber_loop (Suc n) c i message s = Inr (Waits, s)"
proof -
  note l = assms [unfolded live_session_def]
  have "b_lock_update (\<lambda>_. Unlocked) (boxes s ! i) = boxes s ! i" using l by simp
  then have "(boxes s)[i := b_lock_update (\<lambda>_. Unlocked) (boxes s ! i)] = boxes s" by simp
  then show ?thesis
    using l unread_bytes [of "length bytes" "length bytes"]
    by (simp add: prog_simps mb_simps)
qed

lemma read_on:
  assumes "fs_inv t" "a_handles (afs_of t) h = Some (k, off)" "a_files (afs_of t) k = Some bytes"
    and "length bytes - off \<le> unat len" "unat len \<le> length buffer"
  shows "\<exists>t'. tfs_read h buffer len t = Inr ((int (length bytes - off), drop off bytes @ drop (length bytes - off) buffer), t') \<and>
    fs_inv t' \<and> a_handles (afs_of t') h = Some (k, off + (length bytes - off)) \<and> a_files (afs_of t') k = Some bytes"
proof -
  let ?a = "(afs_of t)\<lparr>a_handles := (a_handles (afs_of t))(h \<mapsto> (k, off + (length bytes - off)))\<rparr>"
  have "a_read h buffer (unat len) (afs_of t) =
      ((int (length bytes - off), drop off bytes @ drop (length bytes - off) buffer), ?a)"
    using assms(2-4) by (simp add: a_read_def Let_def del: afs_of_sel)
  then have "wp (tfs_read h buffer len)
      (refines t ((int (length bytes - off), drop off bytes @ drop (length bytes - off) buffer), ?a)) t"
    using tfs_read_spec [OF assms(1,5), of h] by simp
  then show ?thesis using assms(3) by (auto simp: wp_iff refines_def simp del: afs_of_sel)
qed

text \<open>With something to read, at most one frame, it sends all of it in one frame.\<close>

lemma subscriber_sends:
  assumes "live_session s cls c i k bytes off" "off < length bytes" "length bytes - off \<le> MESSAGE_LENGTH"
  shows "wp (subscriber_loop (Suc (Suc n)) c i message) (\<lambda>r s'. r = Waits \<and>
    outbox s' (cl_pipe (cls ! c)) = outbox s (cl_pipe (cls ! c)) @ OP_CODE_SUBSCRIBER # field MESSAGE_LENGTH (drop off bytes) \<and>
    (\<exists>cls'. clients s' = Some cls' \<and> cl_offset (cls' ! c) = int (length bytes)) \<and>
    b_lock (boxes s' ! i) = Unlocked) s"
proof -
  note l = assms(1) [unfolded live_session_def]
  let ?L = "length bytes - off" and ?p = "cl_pipe (cls ! c)"
  let ?buf = "replicate MESSAGE_LENGTH 0 @ drop MESSAGE_LENGTH message"
  have M: "unat (of_nat MESSAGE_LENGTH :: u64) = MESSAGE_LENGTH" by (simp add: MESSAGE_LENGTH_def)
  from l read_on [of "tfs s" "cl_box_fd (cls ! c)" k off bytes "of_nat MESSAGE_LENGTH" ?buf] M assms(3)
  obtain t where rd: "tfs_read (cl_box_fd (cls ! c)) ?buf (of_nat MESSAGE_LENGTH) (tfs s) =
      Inr ((int ?L, drop off bytes @ drop ?L ?buf), t)"
    and t: "fs_inv t" "a_handles (afs_of t) (cl_box_fd (cls ! c)) = Some (k, length bytes)" "a_files (afs_of t) k = Some bytes"
    using assms(2) by auto
  have M0: "MESSAGE_LENGTH \<noteq> 0" by (simp add: MESSAGE_LENGTH_def)
  have fr: "take MESSAGE_LENGTH (drop off bytes @ drop ?L ?buf) = field MESSAGE_LENGTH (drop off bytes)"
    using assms(3) by (simp add: field_def)
  have lenf: "length (field MESSAGE_LENGTH (drop off bytes)) = MESSAGE_LENGTH" using assms(3) by simp
  have same: "(boxes s)[i := b_lock_update (\<lambda>_. Unlocked) (boxes s ! i)] = boxes s"
    using l by (metis (mono_tags, lifting) box_t.surjective box_t.update_convs(6) list_update_id)
  let ?cl = "(cls ! c)\<lparr>cl_offset := int (length bytes)\<rparr>"
  let ?s1 = "sent_to ?p ([OP_CODE_SUBSCRIBER] @ field MESSAGE_LENGTH (drop off bytes)) (s\<lparr>tfs := t\<rparr>)"
  let ?s2 = "?s1\<lparr>clients := Some (cls[c := ?cl])\<rparr>"
  have one: "subscriber_loop (Suc (Suc n)) c i message s = subscriber_loop (Suc n) c i (drop off bytes @ drop ?L ?buf) ?s2"
    using l assms(2) unread_bytes [of off "length bytes"] rd fr lenf
    by (subst subscriber_loop.simps) (simp add: prog_simps mb_simps same M0 try_write_all sent_to_def of_nat_diff
        del: subscriber_loop.simps)
  have "live_session ?s2 (cls[c := ?cl]) c i k bytes (length bytes)"
    using l t by (simp add: live_session_def sent_to_def del: afs_of_sel)
  from subscriber_sleeps [OF this] have "subscriber_loop (Suc (Suc n)) c i message s = Inr (Waits, ?s2)"
    unfolding one .
  then show ?thesis using l by (simp add: wp_def sent_to_def del: subscriber_loop.simps)
qed

text \<open>Of several messages in one frame the subscriber prints the first.\<close>

lemma subscriber_prints_first:
  assumes "pipe_fd p \<in> set (open_fds p)" "list_all message_ok (m # ms)" "length (stored (m # ms)) \<le> MESSAGE_LENGTH"
    and "inbox p (pipe_fd p) = arrived (OP_CODE_SUBSCRIBER # field MESSAGE_LENGTH (stored (m # ms))) []"
    and "length buffer = MESSAGE_LENGTH + 1"
  shows "wp (sub_loop 2 buffer) (\<lambda>r p'. r = Some 0 \<and> printed [m] p p') p"
proof -
  let ?fd = "pipe_fd p" and ?S = "stored (m # ms)"
  let ?p1 = "p\<lparr>inbox := (inbox p)(?fd := arrived (field MESSAGE_LENGTH ?S) [])\<rparr>"
  let ?p2 = "p\<lparr>inbox := (inbox p)(?fd := [])\<rparr>"
  have len: "length (field MESSAGE_LENGTH ?S) = MESSAGE_LENGTH" "field MESSAGE_LENGTH ?S \<noteq> []"
    using assms(3) by (auto simp: field_def MESSAGE_LENGTH_def)
  have i: "inbox p ?fd = arrived ([OP_CODE_SUBSCRIBER] @ field MESSAGE_LENGTH ?S) []" using assms(4) by simp
  have i1: "inbox ?p1 ?fd = arrived (field MESSAGE_LENGTH ?S @ []) []" by simp
  have r1: "try_read ?fd 1 p = Inr ((1, [OP_CODE_SUBSCRIBER]), ?p1)" using try_read_exact [OF assms(1) i] by simp
  have r2: "try_read ?fd MESSAGE_LENGTH ?p1 = Inr ((int MESSAGE_LENGTH, field MESSAGE_LENGTH ?S), ?p2)"
    using try_read_exact [OF _ i1 len(2)] len(1) assms(1) by (simp add: arrived_def)
  let ?msg = "(write_at 0 (field MESSAGE_LENGTH ?S) buffer)[MESSAGE_LENGTH := 0]"
  have "\<exists>r. ?msg = m @ 0 # r"
  proof -
    have "write_at 0 (field MESSAGE_LENGTH ?S) buffer = field MESSAGE_LENGTH ?S @ drop MESSAGE_LENGTH buffer"
      using len(1) by (simp add: write_at_def)
    then have "?msg = field MESSAGE_LENGTH ?S @ (drop MESSAGE_LENGTH buffer)[0 := 0]"
      using len(1) by (simp add: list_update_append)
    then show ?thesis by (simp add: field_def stored_Cons)
  qed
  then have str: "c_str ?msg = m" using assms(2) by (auto simp: message_ok_def c_str_append_nul)
  let ?p3 = "?p2\<lparr>message_count := message_count p + 1, console := console p @ [Message m]\<rparr>"
  have "try_read ?fd 1 ?p3 = Inr ((0, []), ?p3)" using assms(1) by (intro try_read_closed) simp_all
  moreover have "0 < int MESSAGE_LENGTH" by (simp add: MESSAGE_LENGTH_def)
  ultimately have "sub_loop 2 buffer p = Inr (Some 0, ?p3)"
    using r1 r2 by (simp add: numeral_2_eq_2 prog_simps str print_def)
  then show ?thesis by (simp add: wp_def printed_def)
qed

end
