(* ===== verification/MessageProps.thy ===== *)
theory MessageProps
  imports BrokerExample Live
begin

text \<open>What holds of messages on their way from a publisher over a box to a subscriber.\<close>

section \<open>Publishers\<close>

text \<open>C7: A publisher's session appends every message it reads, each with its terminator, to
  the file of its box, in order; the size of the box grows by the same number of bytes, its
  lock is free at the end, and the session ends without an error when the pipe is closed.
  There must be room in the file and a free handle for each message.\<close>

theorem publisher_appends:
  assumes "publisher_ready s c i pipe bytes" "local_message message" "list_all message_ok ms"
    and "inbox s pipe = arrived (concat (map published_frame ms)) []" "length ms < n"
    and "length ms \<le> free_handles (tfs s)" "length bytes + length (stored ms) \<le> unat (BLOCK_SIZE (tfs s))"
  shows "wp (publisher_loop n c message) (\<lambda>r s'. r = Returns 0 \<and>
    file_of (tfs s') (b_name (boxes s ! i)) = Some (bytes @ stored ms) \<and>
    b_size (boxes s' ! i) = b_size (boxes s ! i) + of_nat (length (stored ms)) \<and>
    b_lock (boxes s' ! i) = Unlocked) s"
  by (rule wp_mono [OF publish_all [OF assms]]) (simp add: appendable_def)

lemma ex_message: "local_message (replicate 1024 0)"
  by (simp add: local_message_def MESSAGE_LENGTH_def)

lemma ex_messages: "list_all message_ok [[1, 2], [3]]" "length (stored [[1, 2], [3]]) = 5"
  by (simp_all add: message_ok_def MESSAGE_LENGTH_def stored_def)

theorem publisher_appends_witness:
  "wp (publisher_loop 3 0 (replicate 1024 0)) (\<lambda>r s'. r = Returns 0 \<and>
     file_of (tfs s') box_name_a = Some [1, 2, 0, 3, 0] \<and> b_size (boxes s' ! 0) = 5 \<and> b_lock (boxes s' ! 0) = Unlocked)
   (ex_broker (concat (map published_frame [[1, 2], [3]])))"
  using publisher_appends [OF ex_publisher ex_message ex_messages(1),
      of "concat (map published_frame [[1, 2], [3]])" 3]
  by (simp add: ex_broker_sel box_fs_handles box_fs_facts ex_messages(2) stored_def used_box_def)

text \<open>C29: A publisher's session opens the file anew for each message and never closes it:
  when no handle is left the next message ends the session with -1, which closes the
  server, and the lock of the box stays taken.\<close>

theorem publisher_runs_out_of_handles:
  assumes "publisher_ready s c i pipe bytes" "message_ok m"
    and "inbox s pipe = arrived (published_frame m @ rest) []" "free_handles (tfs s) = 0"
  shows "wp (publisher_loop (Suc n) c message) (\<lambda>r s'. r = Returns (- 1) \<and> b_lock (boxes s' ! i) = Locked) s"
  by (rule publish_without_handle [OF assms])

theorem publisher_runs_out_of_handles_witness:
  "\<exists>s. wp (publisher_loop 1 0 (replicate 1024 0)) (\<lambda>r s'. r = Returns (- 1) \<and> b_lock (boxes s' ! 0) = Locked) s \<and>
     inbox s 5 = arrived (published_frame [1, 2]) []"
proof -
  obtain t where t: "appendable t box_name_a []" "free_handles t = 0" using all_handles_used [OF box_fs_appendable] by blast
  let ?s = "(ex_broker (published_frame [1, 2]))\<lparr>tfs := t\<rparr>"
  have "publisher_ready ?s 0 0 5 []"
    using t(1) by (simp add: publisher_ready_def ex_broker_sel session_on_a_def used_box_def)
  from publisher_runs_out_of_handles [OF this, of "[1, 2]" "[]" 0 "replicate 1024 0"] show ?thesis
    using t(2) by (intro exI [of _ ?s]) (simp add: ex_broker_sel message_ok_def MESSAGE_LENGTH_def)
qed

section \<open>Subscribers\<close>

text \<open>C19: The subscriber program prints every message of the frames on its pipe, one per
  line and in order, counts them, and returns 0 when the broker closes the pipe.\<close>

theorem subscriber_prints:
  assumes "pipe_fd c \<in> set (open_fds c)" "inbox c (pipe_fd c) = arrived (concat (map message_frame ms)) []"
    and "list_all message_ok ms" "length ms < n" "length message = MESSAGE_LENGTH + 1"
  shows "wp (sub_loop n message) (\<lambda>r c'. r = Some 0 \<and> console c' = console c @ map Message ms \<and>
    message_count c' = message_count c + int (length ms)) c"
  by (rule wp_mono [OF sub_loop_spec [OF assms]]) (simp add: printed_def)

definition ex_subscriber :: "byte list \<Rightarrow> client_os" where
  "ex_subscriber bs = \<lparr>inbox = (\<lambda>_. [])(4 := arrived bs []), accepts = (\<lambda>_. []), outbox = (\<lambda>_. []),
     opens = (\<lambda>_. []), open_fds = [4], path_calls = [], errno = 0, console = [], message_count = 0, pipe_fd = 4\<rparr>"

theorem subscriber_prints_witness:
  "wp (sub_loop 3 (replicate 1024 7)) (\<lambda>r c'. r = Some 0 \<and> console c' = [Message [1, 2], Message [3]] \<and> message_count c' = 2)
     (ex_subscriber (concat (map message_frame [[1, 2], [3]])))"
  using subscriber_prints [of "ex_subscriber (concat (map message_frame [[1, 2], [3]]))" "[[1, 2], [3]]" 3
      "replicate 1024 7"] ex_messages(1)
  by (simp add: ex_subscriber_def MESSAGE_LENGTH_def)

section \<open>From publisher to subscriber\<close>

text \<open>C2: What one session reads from its publisher, another sends to its subscriber: after
  a publisher has filled an empty box, a new subscriber's session writes one frame per
  message to its pipe, in the order of publication, and waits for more with its offset at
  the end of the box.\<close>

theorem published_reach_subscriber:
  assumes "publisher_ready s c i pipe []" "local_message message" "list_all message_ok ms"
    and "inbox s pipe = arrived (concat (map published_frame ms)) []" "length ms < n"
    and "length ms < free_handles (tfs s)" "length (stored ms) \<le> unat (BLOCK_SIZE (tfs s))"
    and "length (stored ms) \<le> BOX_SIZE" "b_size (boxes s ! i) = 0"
    and "clients s = Some cls" "d < length cls" "d \<noteq> c" "cl_box (cls ! d) = Box i" "cl_offset (cls ! d) = 0"
    and "cl_box_name (cls ! d) = b_name (boxes s ! i)"
    and "cl_pipe (cls ! d) \<in> set (open_fds s)" "cl_pipe (cls ! d) \<noteq> pipe" "accepts s (cl_pipe (cls ! d)) = []"
    and "length junk = BOX_SIZE"
  shows "wp (bind (publisher_loop n c message) (\<lambda>_. handle_messages_until_now 2 junk d)) (\<lambda>r s'. r = Some 0 \<and>
    outbox s' (cl_pipe (cls ! d)) = outbox s (cl_pipe (cls ! d)) @ concat (map message_frame ms) \<and>
    cl_offset (the (clients s') ! d) = int (length (stored ms))) s"
proof -
  have cap: "length [] + length (stored ms) \<le> unat (BLOCK_SIZE (tfs s))" using assms(7) by simp
  note run = publish_all [OF assms(1-5) less_imp_le [OF assms(6)] cap]
  show ?thesis
    unfolding wp_bind
  proof (rule wp_mono [OF run], elim conjE)
    fix r s1
    assume ap: "appendable (tfs s1) (b_name (boxes s ! i)) ([] @ stored ms)"
      and b: "b_size (boxes s1 ! i) = b_size (boxes s ! i) + of_nat (length (stored ms))" "b_lock (boxes s1 ! i) = Unlocked"
      and fh: "free_handles (tfs s1) = free_handles (tfs s) - length ms" and ok: "others_kept c pipe s s1"
    let ?p = "cl_pipe (cls ! d)"
    from ok assms(10) obtain cl where cls: "clients s1 = Some (cls[c := cl])" by (auto simp: others_kept_def)
    have d: "cls[c := cl] ! d = cls ! d" using assms(12) by simp
    from fh assms(6) have "0 < free_handles (tfs s1)" by simp
    then obtain g where g: "first_index (\<lambda>h. a_handles (afs_of (tfs s1)) (int h) = None) (MAX_OPEN_FILES (tfs s1)) = Some g"
      by (rule handle_to_spare)
    from ap obtain k where "a_names (afs_of (tfs s1)) (fname (b_name (boxes s ! i))) = Some k"
      "a_files (afs_of (tfs s1)) k = Some (stored ms)"
      by (auto simp: appendable_def file_of_def bind_eq_Some_conv simp del: afs_of_sel)
    then have "box_file (tfs s1) (cl_box_name (cls ! d)) k (stored ms) g"
      using ap g assms(15) by (simp add: box_file_def appendable_def del: afs_of_sel)
    then have "subscriber_ready s1 (cls[c := cl]) d i ms k g"
      using assms(1,3,8-18) ok b cls d
      by (auto simp: subscriber_ready_def others_kept_def publisher_ready_def simp del: afs_of_sel)
    from until_now_spec [OF this assms(19), of 0]
    show "wp (handle_messages_until_now 2 junk d) (\<lambda>r s'. r = Some 0 \<and>
        outbox s' ?p = outbox s ?p @ concat (map message_frame ms) \<and>
        cl_offset (the (clients s') ! d) = int (length (stored ms))) s1"
      unfolding d numeral_2_eq_2 using ok by (auto simp: others_kept_def elim!: wp_mono)
  qed
qed

theorem published_reach_subscriber_witness:
  "wp (bind (publisher_loop 3 0 (replicate 1024 0)) (\<lambda>_. handle_messages_until_now 2 (replicate 16384 9) 1))
     (\<lambda>r s'. r = Some 0 \<and> outbox s' 6 = concat (map message_frame [[1, 2], [3]]) \<and> cl_offset (the (clients s') ! 1) = 5)
     (ex_broker (concat (map published_frame [[1, 2], [3]])))"
  using published_reach_subscriber [OF ex_publisher ex_message ex_messages(1),
      of "concat (map published_frame [[1, 2], [3]])" 3 _ 1 "replicate 16384 9"]
  by (simp add: ex_broker_sel box_fs_handles box_fs_facts ex_messages(2) used_box_def session_on_a_def BOX_SIZE_def
      del: handle_messages_until_now_def)

section \<open>Messages that come later\<close>

text \<open>C27: A subscriber's session that is up to date and wakes up reads on where it was and
  sends what it reads in one frame, without regard to the terminators in it; then it waits
  again, with the lock of the box free and its offset at the end. The subscriber program
  takes a frame for one message: when more than one has been published since the session last
  looked, it prints and counts the first and the others are lost.\<close>

theorem later_messages_share_a_frame:
  assumes "live_session s cls c i k (old @ stored (m # ms)) (length old)" "length (stored (m # ms)) \<le> MESSAGE_LENGTH"
    and "list_all message_ok (m # ms)" "pipe_fd p \<in> set (open_fds p)" "length buffer = MESSAGE_LENGTH + 1"
  shows "wp (subscriber_loop (Suc (Suc n)) c i message) (\<lambda>r s'. r = Waits \<and> b_lock (boxes s' ! i) = Unlocked \<and>
    cl_offset (the (clients s') ! c) = int (length old + length (stored (m # ms))) \<and>
    (\<exists>frame. outbox s' (cl_pipe (cls ! c)) = outbox s (cl_pipe (cls ! c)) @ frame \<and>
      wp (sub_loop 2 buffer) (\<lambda>r p'. r = Some 0 \<and> console p' = console p @ [Message m] \<and>
        message_count p' = message_count p + 1) (p\<lparr>inbox := (inbox p)(pipe_fd p := arrived frame [])\<rparr>))) s"
proof -
  let ?S = "stored (m # ms)" and ?fd = "cl_pipe (cls ! c)"
  let ?frame = "OP_CODE_SUBSCRIBER # field MESSAGE_LENGTH ?S"
  have new: "length old < length (old @ ?S)" "length (old @ ?S) - length old \<le> MESSAGE_LENGTH"
    using assms(2) by (simp_all add: stored_Cons)
  have prints: "wp (sub_loop 2 buffer) (\<lambda>r p'. r = Some 0 \<and> console p' = console p @ [Message m] \<and>
      message_count p' = message_count p + 1) (p\<lparr>inbox := (inbox p)(pipe_fd p := arrived ?frame [])\<rparr>)"
    by (rule wp_mono [OF subscriber_prints_first [OF _ assms(3,2) _ assms(5)]]) (simp_all add: assms(4) printed_def)
  show ?thesis
    by (rule wp_mono [OF subscriber_sends [OF assms(1) new]]) (use prints in auto)
qed

text \<open>Two messages, [1, 2] and [3], lie in the file of the box; the session has read nothing.\<close>

lemma ex_live_file:
  "\<exists>t g k. fs_inv t \<and> a_handles (afs_of t) (int g) = Some (k, 0) \<and> a_files (afs_of t) k = Some (stored [[1, 2], [3]])"
proof -
  let ?S = "stored [[1, 2], [3]]"
  have S: "?S \<noteq> []" "length ?S = 5" by (simp_all add: stored_def)
  have h: "0 < free_handles box_fs" "length [] + length ?S \<le> unat (BLOCK_SIZE box_fs)"
    by (simp_all add: box_fs_handles box_fs_facts S)
  from append_spec [OF box_fs_appendable h(1) S(1) order_refl h(2)] obtain t where
    t: "appendable t box_name_a ?S" "free_handles t = 3" by (auto simp: box_fs_handles)
  from t(2) have "0 < free_handles t" by simp
  then obtain g where g: "first_index (\<lambda>h. a_handles (afs_of t) (int h) = None) (MAX_OPEN_FILES t) = Some g"
    by (rule handle_to_spare)
  from t(1) obtain k where k: "a_names (afs_of t) (fname box_name_a) = Some k" "a_files (afs_of t) k = Some ?S"
    by (auto simp: appendable_def file_of_def bind_eq_Some_conv simp del: afs_of_sel)
  have "box_file t box_name_a k ?S g" using t(1) g k by (simp add: box_file_def appendable_def del: afs_of_sel)
  from open_box_file(1) [OF this] obtain t' where "fs_inv t'" "afs_of t' = with_handle g k 0 (afs_of t)" by blast
  then show ?thesis using k(2)
    by (intro exI [of _ t'] exI [of _ g] exI [of _ k]) (simp add: with_handle_def del: afs_of_sel)
qed

theorem later_messages_share_a_frame_witness:
  "\<exists>s. wp (subscriber_loop 2 1 0 (replicate 1024 0)) (\<lambda>r s'. r = Waits \<and> cl_offset (the (clients s') ! 1) = 5 \<and>
     (\<exists>frame. outbox s' 6 = frame \<and> wp (sub_loop 2 (replicate 1024 7)) (\<lambda>r p'. r = Some 0 \<and>
        console p' = [Message [1, 2]] \<and> message_count p' = 1) (ex_subscriber frame))) s"
proof -
  from ex_live_file obtain t g k where t: "fs_inv t" "a_handles (afs_of t) (int g) = Some (k, 0)"
    "a_files (afs_of t) k = Some (stored [[1, 2], [3]])" by blast
  let ?cls = "[session_on_a OP_CODE_REGIST_PUB 0 5, (session_on_a OP_CODE_REGIST_SUB 1 6)\<lparr>cl_box_fd := int g\<rparr>, idle_session]"
  let ?s = "(ex_broker [])\<lparr>tfs := t, clients := Some ?cls, boxes := used_box\<lparr>b_size := 5\<rparr> # replicate 63 unused_box\<rparr>"
  have l: "live_session ?s ?cls 1 0 k ([] @ stored [[1, 2], [3]]) (length [])"
    using t by (simp add: live_session_def ex_broker_sel session_on_a_def used_box_def stored_def del: afs_of_sel)
  have m: "list_all message_ok [[1, 2], [3]]" "length (stored [[1, 2], [3]]) \<le> MESSAGE_LENGTH"
    "pipe_fd (ex_subscriber []) \<in> set (open_fds (ex_subscriber []))" "length (replicate 1024 (7 :: byte)) = MESSAGE_LENGTH + 1"
    by (simp_all add: message_ok_def stored_def MESSAGE_LENGTH_def ex_subscriber_def)
  have e: "(ex_subscriber [])\<lparr>inbox := (inbox (ex_subscriber []))(pipe_fd (ex_subscriber []) := arrived frame [])\<rparr> = ex_subscriber frame"
    for frame by (simp add: ex_subscriber_def)
  have sel: "console (ex_subscriber []) = []" "message_count (ex_subscriber []) = 0" "cl_pipe (?cls ! 1) = 6" "outbox ?s 6 = []"
    by (simp_all add: ex_subscriber_def session_on_a_def ex_broker_sel)
  note run = later_messages_share_a_frame [OF l m(2,1,3,4), of 0 "replicate 1024 0", unfolded e sel]
  show ?thesis
    by (rule exI [of _ ?s], rule wp_mono [OF run [folded numeral_2_eq_2]]) (simp add: stored_def)
qed

end
