(* ===== verification/Listing.thy ===== *)
theory Listing
  imports BoxTable Messages
begin

text \<open>
  The answer to \<open>list\<close>: the frames the broker writes, one per box and a flag in the last,
  and what the manager's \<open>list_boxes\<close> reads from them.
\<close>

section \<open>Frames\<close>

definition box_frame :: "byte \<Rightarrow> box_t \<Rightarrow> byte list" where
  "box_frame final b = [OP_CODE_LIST_BOXES_ANSWER, final] @ take BOX_NAME_LENGTH (b_name b) @
     u64_bytes (b_size b) @ u64_bytes (b_publishers b) @ u64_bytes (b_subscribers b)"

fun box_frames :: "box_t list \<Rightarrow> byte list" where
  "box_frames [] = []"
| "box_frames [b] = box_frame 1 b"
| "box_frames (b # bs) = box_frame 0 b @ box_frames bs"

lemma box_frames_Cons: "bs \<noteq> [] \<Longrightarrow> box_frames (b # bs) = box_frame 0 b @ box_frames bs"
  by (cases bs) simp_all

definition used_boxes :: "broker \<Rightarrow> nat list \<Rightarrow> box_t list" where
  "used_boxes s todo = map (\<lambda>i. boxes s ! i) (filter (\<lambda>i. \<not> free_boxes s ! i) todo)"

lemma used_boxes_simps [simp]:
  "used_boxes s [] = []"
  "used_boxes s (i # todo) = (if free_boxes s ! i then used_boxes s todo else boxes s ! i # used_boxes s todo)"
  "used_boxes (sent_to fd bs s) todo = used_boxes s todo"
  by (simp_all add: used_boxes_def sent_to_def)

lemma length_used_boxes:
  assumes "boxes_ok s" shows "int (length (used_boxes s [0..<MAX_BOXES])) = num_boxes s"
proof -
  have "length (filter (\<lambda>i. \<not> free_boxes s ! i) [0..<MAX_BOXES]) =
      card {i. i < MAX_BOXES \<and> \<not> free_boxes s ! i}"
    using length_filter_conv_card [of "\<lambda>i. \<not> free_boxes s ! i" "[0..<MAX_BOXES]"]
    by (simp cong: conj_cong)
  then show ?thesis using boxes_okD(3) [OF assms] by (simp add: used_boxes_def)
qed

section \<open>Writing them\<close>

lemma list_loop_none:
  assumes "used_boxes s todo = []" "list_all (\<lambda>i. i < length (free_boxes s)) todo" "num_boxes s \<noteq> 0"
  shows "list_loop pipe todo count final rest s = rest s"
  using assms by (induction todo) (auto simp: prog_simps box_is_free_def split: if_splits)

lemma list_loop_used:
  assumes "list_all (\<lambda>i. i < length (free_boxes s) \<and> i < length (boxes s)) todo"
    and "count + int (length (used_boxes s todo)) = num_boxes s" "num_boxes s \<noteq> 0" "0 \<le> count"
    and "pipe \<in> set (open_fds s)" "accepts s pipe = []" "used_boxes s todo \<noteq> []"
  shows "list_loop pipe todo count 0 rest s = rest (sent_to pipe (box_frames (used_boxes s todo)) s)"
  using assms
proof (induction todo arbitrary: count s)
  case (Cons i todo)
  show ?case
  proof (cases "free_boxes s ! i")
    case True
    then show ?thesis using Cons by (simp add: prog_simps box_is_free_def)
  next
    case used: False
    show ?thesis
    proof (cases "used_boxes s todo = []")
      case True
      let ?s = "sent_to pipe (box_frame 1 (boxes s ! i)) s"
      have "list_loop pipe (i # todo) count 0 rest s = list_loop pipe todo (count + 1) 1 rest ?s"
        using Cons.prems used True
        by (simp add: prog_simps box_is_free_def box_at_app write_pipe_sent box_frame_def Let_def)
      also have "\<dots> = rest ?s"
        using Cons.prems True by (intro list_loop_none) (auto simp: sent_to_def list_all_iff used_boxes_def)
      finally show ?thesis using used True by simp
    next
      case False
      let ?s = "sent_to pipe (box_frame 0 (boxes s ! i)) s"
      have "num_boxes s \<noteq> count + 1" using Cons.prems(2) used False by auto
      then have "list_loop pipe (i # todo) count 0 rest s = list_loop pipe todo (count + 1) 0 rest ?s"
        using Cons.prems used
        by (simp add: prog_simps box_is_free_def box_at_app write_pipe_sent box_frame_def Let_def)
      also have "\<dots> = rest (sent_to pipe (box_frames (used_boxes ?s todo)) ?s)"
        using Cons.prems used False by (intro Cons.IH) (simp_all add: sent_to_def used_boxes_def)
      finally show ?thesis using used False by (simp add: box_frames_Cons)
    qed
  qed
qed simp

text \<open>Without boxes a shorter frame is written for each slot, and all say they are the last.\<close>

lemma sent_to_sel:
  "boxes (sent_to fd bs s) = boxes s" "free_boxes (sent_to fd bs s) = free_boxes s"
  "num_boxes (sent_to fd bs s) = num_boxes s" "open_fds (sent_to fd bs s) = open_fds s"
  "accepts (sent_to fd bs s) = accepts s" "tfs (sent_to fd bs s) = tfs s" "clients (sent_to fd bs s) = clients s"
  "boxes_lock (sent_to fd bs s) = boxes_lock s"
  by (simp_all add: sent_to_def)

lemma list_loop_no_boxes:
  assumes "list_all (\<lambda>i. i < length (free_boxes s) \<and> i < length (boxes s)) todo"
    and "num_boxes s = 0" "0 \<le> count" "pipe \<in> set (open_fds s)" "accepts s pipe = []"
  shows "list_loop pipe todo count 1 rest s = rest (sent_to pipe (concat (map (\<lambda>i.
    [OP_CODE_LIST_BOXES_ANSWER, 1] @ take BOX_NAME_LENGTH (b_name (boxes s ! i))) todo)) s)"
  using assms
proof (induction todo arbitrary: count s)
  case (Cons i todo)
  let ?s = "sent_to pipe ([OP_CODE_LIST_BOXES_ANSWER, 1] @ take BOX_NAME_LENGTH (b_name (boxes s ! i))) s"
  have "list_loop pipe (i # todo) count 1 rest s = list_loop pipe todo (count + 1) 1 rest ?s"
    using Cons.prems by (simp add: prog_simps box_is_free_def box_at_app write_pipe_sent Let_def)
  also have "\<dots> = rest (sent_to pipe (concat (map (\<lambda>j.
      [OP_CODE_LIST_BOXES_ANSWER, 1] @ take BOX_NAME_LENGTH (b_name (boxes ?s ! j))) todo)) ?s)"
    using Cons.prems by (intro Cons.IH) (simp_all add: sent_to_sel)
  finally show ?case by (simp add: sent_to_sel del: list_loop.simps)
qed simp

section \<open>Reading them\<close>

definition box_info_of :: "box_t \<Rightarrow> box_info" where
  "box_info_of b = \<lparr>bi_name = take BOX_NAME_LENGTH (b_name b) @ [0], bi_size = b_size b,
     bi_publishers = b_publishers b, bi_subscribers = b_subscribers b\<rparr>"

text \<open>A box whose name is not empty and fills its array.\<close>

definition listable :: "box_t \<Rightarrow> bool" where
  "listable b \<longleftrightarrow> length (b_name b) = BOX_NAME_LENGTH + 1 \<and> hd (b_name b) \<noteq> 0"

definition pipe_left :: "int \<Rightarrow> byte list \<Rightarrow> client_os \<Rightarrow> client_os" where
  "pipe_left fd bs m = m\<lparr>inbox := (inbox m)(fd := arrived bs [])\<rparr>"

lemma read_pipe_left:
  assumes "fd \<in> set (open_fds m)" "xs \<noteq> []" "count = length xs"
  shows "read_pipe fd count rest (pipe_left fd (xs @ bs) m) = rest xs (pipe_left fd bs m)"
  using read_pipe_exact [of fd "pipe_left fd (xs @ bs) m" xs bs "[]" count rest] assms
  by (simp add: pipe_left_def)

lemma read_box_frame:
  assumes "fd \<in> set (open_fds m)" "listable b"
  shows "list_boxes_loop fd (Suc k) got rest (pipe_left fd (box_frame final b @ bs) m) =
    (if final = 0 then list_boxes_loop fd k (got @ [box_info_of b]) rest else rest (got @ [box_info_of b]))
      (pipe_left fd bs m)"
proof -
  let ?nm = "take BOX_NAME_LENGTH (b_name b)"
  have nm: "?nm \<noteq> []" "BOX_NAME_LENGTH = length ?nm" "hd ?nm \<noteq> 0"
    using assms(2) by (auto simp: listable_def BOX_NAME_LENGTH_def hd_take)
  have ne: "u64_bytes w \<noteq> []" for w by (metis length_u64_bytes list.size(3) zero_neq_numeral)
  note rd = read_pipe_left [OF assms(1)]
  let ?got = "got @ [box_info_of b]"
  have frame: "box_frame final b @ bs = [OP_CODE_LIST_BOXES_ANSWER] @ [final] @ ?nm @
      u64_bytes (b_size b) @ u64_bytes (b_publishers b) @ u64_bytes (b_subscribers b) @ bs"
    by (simp add: box_frame_def)
  have step: "read_pipe fd 1 k' (pipe_left fd ([x] @ xs) m) = k' [x] (pipe_left fd xs m)"
    "read_pipe fd BOX_NAME_LENGTH k' (pipe_left fd (?nm @ xs) m) = k' ?nm (pipe_left fd xs m)"
    "read_pipe fd 8 k' (pipe_left fd (u64_bytes w @ xs) m) = k' (u64_bytes w) (pipe_left fd xs m)" for k' x xs w
    by (rule rd, (rule nm ne | simp)+)+
  have final: "hd [OP_CODE_LIST_BOXES_ANSWER] = OP_CODE_LIST_BOXES_ANSWER" "hd [final] = final" by simp_all
  have info: "\<lparr>bi_name = ?nm @ [0], bi_size = bytes_u64 (u64_bytes (b_size b)),
      bi_publishers = bytes_u64 (u64_bytes (b_publishers b)), bi_subscribers = bytes_u64 (u64_bytes (b_subscribers b))\<rparr> =
      box_info_of b"
    by (simp add: box_info_of_def)
  show ?thesis
    by (simp only: list_boxes_loop.simps(2) frame step final Let_def info nm(3) simp_thms if_False if_True)
qed

lemma read_box_frames:
  assumes "fd \<in> set (open_fds m)" "list_all listable bs" "bs \<noteq> []" "length bs \<le> k"
  shows "list_boxes_loop fd k got rest (pipe_left fd (box_frames bs) m) =
    rest (got @ map box_info_of bs) (pipe_left fd [] m)"
  using assms(2-4)
proof (induction bs arbitrary: got k rule: box_frames.induct)
  case (2 b)
  then obtain j where "k = Suc j" by (cases k) auto
  then show ?case using read_box_frame [OF assms(1), of b j got rest 1 "[]"] 2 by simp
next
  case (3 b b' bs)
  then obtain j where k: "k = Suc j" by (cases k) auto
  have "list_boxes_loop fd j (got @ [box_info_of b]) rest (pipe_left fd (box_frames (b' # bs)) m) =
      rest ((got @ [box_info_of b]) @ map box_info_of (b' # bs)) (pipe_left fd [] m)"
    using 3 by (intro "3.IH") (simp_all add: k)
  then show ?case using read_box_frame [OF assms(1), of b j got rest 0] 3 by (simp add: k)
qed simp

definition box_line :: "box_info \<Rightarrow> console_line" where
  "box_line b = Box_line (c_str (bi_name b)) (unat (bi_size b)) (unat (bi_publishers b)) (unat (bi_subscribers b))"

lemma print_boxes_eq: "print_boxes bs m = Inr ((), m\<lparr>console := console m @ map box_line bs\<rparr>)"
  by (induction bs arbitrary: m) (simp_all add: prog_simps print_def box_line_def)

lemma list_boxes_frames:
  assumes "fd \<in> set (open_fds m)" "list_all listable bs" "bs \<noteq> []" "length bs \<le> MAX_BOXES"
  shows "list_boxes qsort fd (pipe_left fd (box_frames bs) m) = Inr (0, (pipe_left fd [] m)\<lparr>console := console m @
    map box_line (qsort compare_boxes (map box_info_of bs))\<rparr>)"
  by (simp add: list_boxes_def read_box_frames [OF assms] prog_simps print_boxes_eq) (simp add: pipe_left_def)

text \<open>A name that is empty ends the list at once.\<close>

lemma list_boxes_empty:
  assumes "fd \<in> set (open_fds m)" "length nm = BOX_NAME_LENGTH" "hd nm = 0"
  shows "list_boxes qsort fd (pipe_left fd ([OP_CODE_LIST_BOXES_ANSWER, final] @ nm @ bs) m) =
    Inr (0, (pipe_left fd bs m)\<lparr>console := console m @ [Text ''NO BOXES FOUND'']\<rparr>)"
proof -
  obtain k where k: "MAX_BOXES = Suc k" by (simp add: MAX_BOXES_def)
  have nm: "nm \<noteq> []" using assms(2) by (auto simp: BOX_NAME_LENGTH_def)
  note rd = read_pipe_left [OF assms(1)]
  have step: "read_pipe fd 1 k' (pipe_left fd ([x] @ xs) m) = k' [x] (pipe_left fd xs m)"
    "read_pipe fd BOX_NAME_LENGTH k' (pipe_left fd (nm @ xs) m) = k' nm (pipe_left fd xs m)" for k' x xs
    by (rule rd, (rule nm assms(2) [symmetric] | simp)+)+
  have frame: "[OP_CODE_LIST_BOXES_ANSWER, final] @ nm @ bs = [OP_CODE_LIST_BOXES_ANSWER] @ [final] @ nm @ bs"
    "hd [OP_CODE_LIST_BOXES_ANSWER] = OP_CODE_LIST_BOXES_ANSWER" by simp_all
  show ?thesis
    unfolding list_boxes_def k
    by (simp only: list_boxes_loop.simps(2) frame step assms(3) simp_thms if_True if_False)
      (simp add: prog_simps print_def pipe_left_def)
qed

section \<open>The handler\<close>

lemma sys_open_ok:
  assumes "is_cstr path" "opens s (c_str path) = fd # later" "0 \<le> fd"
  shows "sys_open path s = Inr (fd, s\<lparr>opens := (opens s)(c_str path := later), open_fds := fd # open_fds s\<rparr>)"
  using assms by (simp add: sys_open_def prog_simps c_strlen_some take_cstr Let_def)

lemma boxes_ok_cong:
  "boxes s' = boxes s \<Longrightarrow> free_boxes s' = free_boxes s \<Longrightarrow> num_boxes s' = num_boxes s \<Longrightarrow> boxes_ok s' \<longleftrightarrow> boxes_ok s"
  by (simp add: boxes_ok_def)

definition session_over :: "client_t \<Rightarrow> client_t" where
  "session_over cl = cl\<lparr>cl_box_name := (cl_box_name cl)[0 := 0], cl_pipename := (cl_pipename cl)[0 := 0],
     cl_box := No_box, cl_box_fd := - 1\<rparr>"

lemma finish_manager_session:
  assumes "clients s = Some cls" "c < length cls" "cl_pipe (cls ! c) \<in> set (open_fds s)"
    and "cl_opcode (cls ! c) \<noteq> OP_CODE_REGIST_PUB" "cl_opcode (cls ! c) \<noteq> OP_CODE_REGIST_SUB"
    and "cl_opcode (cls ! c) = OP_CODE_LIST_BOXES \<or> cl_box_fd (cls ! c) \<noteq> - 1"
  shows "finish_client_session c s = Inr (0, s\<lparr>open_fds := remove1 (cl_pipe (cls ! c)) (open_fds s),
    clients := Some (cls[c := session_over (cls ! c)])\<rparr>)"
  using assms
  by (auto simp: finish_client_session_def prog_simps mb_simps safe_close_def sys_close_def session_over_def)

definition empty_frames :: "broker \<Rightarrow> byte list" where
  "empty_frames s = concat (map (\<lambda>i. [OP_CODE_LIST_BOXES_ANSWER, 1] @ take BOX_NAME_LENGTH (b_name (boxes s ! i)))
     [0..<MAX_BOXES])"

lemma list_answer:
  assumes "boxes_ok s" "clients s = Some cls" "c < length cls" "cl_opcode (cls ! c) = OP_CODE_LIST_BOXES"
    and "is_cstr (cl_pipename (cls ! c))" "opens s (c_str (cl_pipename (cls ! c))) = fd # later" "0 \<le> fd"
    and "accepts s fd = []"
  shows "wp (handle_tfs_list_boxes c) (\<lambda>r s'. r = 0 \<and> outbox s' fd = outbox s fd @
    (if num_boxes s = 0 then empty_frames s else box_frames (used_boxes s [0..<MAX_BOXES]))) s"
proof -
  let ?cl = "(cls ! c)\<lparr>cl_pipe := fd\<rparr>"
  let ?s = "s\<lparr>opens := (opens s)(c_str (cl_pipename (cls ! c)) := later), open_fds := fd # open_fds s,
    clients := Some (cls[c := ?cl])\<rparr>"
  let ?bs = "if num_boxes s = 0 then empty_frames s else box_frames (used_boxes s [0..<MAX_BOXES])"
  let ?rest = "bind (finish_client_session c) (\<lambda>r. ret (if r = - 1 then - 1 else 0))"
  note ok = boxes_okD [OF assms(1)]
  have start: "handle_tfs_list_boxes c s = list_loop fd [0..<MAX_BOXES] 0 (if num_boxes s = 0 then 1 else 0) ?rest ?s"
    using assms by (simp add: handle_tfs_list_boxes_def prog_simps mb_simps sys_open_ok)
  have used: "used_boxes ?s todo = used_boxes s todo" for todo by (simp add: used_boxes_def)
  have len: "int (length (used_boxes s [0..<MAX_BOXES])) = num_boxes s" by (rule length_used_boxes [OF assms(1)])
  have "handle_tfs_list_boxes c s = ?rest (sent_to fd ?bs ?s)"
  proof (cases "num_boxes s = 0")
    case True
    have "list_loop fd [0..<MAX_BOXES] 0 1 ?rest ?s = ?rest (sent_to fd (empty_frames s) ?s)"
      using list_loop_no_boxes [of ?s "[0..<MAX_BOXES]" 0 fd ?rest] True assms(8) ok(1,2)
      by (simp add: empty_frames_def list_all_iff)
    then show ?thesis using True start by simp
  next
    case False
    then have "used_boxes s [0..<MAX_BOXES] \<noteq> []" using len by auto
    with False have "list_loop fd [0..<MAX_BOXES] 0 0 ?rest ?s = ?rest (sent_to fd ?bs ?s)"
      using list_loop_used [of ?s "[0..<MAX_BOXES]" 0 fd ?rest] len assms(8) ok(1,2)
      by (simp add: used list_all_iff)
    then show ?thesis using False start by simp
  qed
  moreover have "finish_client_session c (sent_to fd ?bs ?s) = Inr (0, (sent_to fd ?bs ?s)\<lparr>open_fds := open_fds s,
      clients := Some (cls[c := session_over ?cl])\<rparr>)"
    using finish_manager_session [of "sent_to fd ?bs ?s" "cls[c := ?cl]" c] assms(3,4)
    by (simp add: sent_to_def op_codes)
  ultimately show ?thesis by (simp add: wp_def prog_simps sent_to_def)
qed

lemma used_listable:
  assumes "boxes_ok s" shows "list_all listable (used_boxes s [0..<MAX_BOXES])"
proof -
  have "listable (boxes s ! i)" if "i < MAX_BOXES" "\<not> free_boxes s ! i" for i
  proof -
    have "c_str (b_name (boxes s ! i)) \<noteq> []" using boxes_okD(6) [OF assms that(1)] that(2) by (simp add: box_named_def)
    moreover have "length (b_name (boxes s ! i)) = Suc BOX_NAME_LENGTH" using boxes_okD(4) [OF assms that(1)] by simp
    ultimately show ?thesis
      by (cases "b_name (boxes s ! i)") (auto simp: listable_def c_str_def split: if_splits)
  qed
  then show ?thesis by (auto simp: list_all_iff used_boxes_def)
qed

end
