(* ===== verification/Ordering.thy ===== *)
theory Ordering
  imports Clients "HOL-Library.List_Lexorder" "HOL-Library.Multiset"
begin

text \<open>
  The order of the manager's lines: \<open>compare_boxes\<close> as a comparison of keys, and what is
  asked of \<open>qsort\<close>.
\<close>

section \<open>The order of the lines\<close>

lemma c_strcmp_order:
  "is_cstr a \<Longrightarrow> is_cstr b \<Longrightarrow> \<exists>v. c_strcmp a b = Some v \<and> (v \<le> 0 \<longleftrightarrow> c_str a \<le> c_str b)"
proof (induction a b rule: c_strcmp.induct)
  case (1 a as b bs)
  show ?case
  proof (cases "a = b \<and> a \<noteq> 0")
    case True
    then show ?thesis using 1 by (auto simp: is_cstr_def c_str_def)
  next
    case False
    have "uint a - uint b \<le> 0 \<longleftrightarrow> a \<le> b" by (simp add: word_le_def)
    then show ?thesis
      using False by (auto simp: c_str_def word_le_less_eq [of a b] word_le_0_iff)
  qed
qed (simp_all add: is_cstr_def)

lemma to_lower_zero [simp]: "to_lower b = 0 \<longleftrightarrow> b = 0"
proof -
  have "b + 32 \<noteq> 0" if "b \<le> 90"
  proof -
    have "unat b \<le> 90" using that by (simp add: word_le_nat_alt)
    then have "unat (b + 32) = unat b + 32" by (simp add: unat_plus_simple [THEN iffD1] word_le_nat_alt unat_word_ariths)
    then show ?thesis by auto
  qed
  then show ?thesis by (auto simp: to_lower_def)
qed

lemma cstr_to_lower: "is_cstr (map to_lower m) = is_cstr m" "c_str (map to_lower m) = map to_lower (c_str m)"
  by (auto simp: is_cstr_def c_str_def takeWhile_map comp_def image_iff)

definition sort_key :: "box_info \<Rightarrow> byte list" where
  "sort_key b = map to_lower (c_str (bi_name b))"

lemma compare_boxes_order:
  "is_cstr (bi_name a) \<Longrightarrow> is_cstr (bi_name b) \<Longrightarrow> compare_boxes a b \<le> 0 \<longleftrightarrow> sort_key a \<le> sort_key b"
  using c_strcmp_order [of "map to_lower (bi_name a)" "map to_lower (bi_name b)"]
  by (auto simp: compare_boxes_def sort_key_def cstr_to_lower)

text \<open>
  What the C library says of \<open>qsort\<close>: of a comparison that orders the elements it returns
  them all, sorted. Nothing is known of the order of equal ones.
\<close>

definition orders :: "('a \<Rightarrow> 'a \<Rightarrow> int) \<Rightarrow> 'a set \<Rightarrow> bool" where
  "orders cmp A \<longleftrightarrow> (\<forall>a\<in>A. \<forall>b\<in>A. cmp a b \<le> 0 \<or> cmp b a \<le> 0) \<and>
     (\<forall>a\<in>A. \<forall>b\<in>A. \<forall>c\<in>A. cmp a b \<le> 0 \<longrightarrow> cmp b c \<le> 0 \<longrightarrow> cmp a c \<le> 0)"

lemma orders_subset: "orders cmp A \<Longrightarrow> B \<subseteq> A \<Longrightarrow> orders cmp B"
  unfolding orders_def by (intro conjI ballI; blast)

lemma orders_trans:
  "orders cmp A \<Longrightarrow> a \<in> A \<Longrightarrow> b \<in> A \<Longrightarrow> c \<in> A \<Longrightarrow> cmp a b \<le> 0 \<Longrightarrow> cmp b c \<le> 0 \<Longrightarrow> cmp a c \<le> 0"
  unfolding orders_def by blast

lemma orders_total: "orders cmp A \<Longrightarrow> a \<in> A \<Longrightarrow> b \<in> A \<Longrightarrow> cmp a b \<le> 0 \<or> cmp b a \<le> 0"
  unfolding orders_def by blast

definition sorts :: "(('a \<Rightarrow> 'a \<Rightarrow> int) \<Rightarrow> 'a list \<Rightarrow> 'a list) \<Rightarrow> bool" where
  "sorts qsort \<longleftrightarrow> (\<forall>cmp xs. orders cmp (set xs) \<longrightarrow>
     mset (qsort cmp xs) = mset xs \<and> sorted_wrt (\<lambda>a b. cmp a b \<le> 0) (qsort cmp xs))"

lemma compare_boxes_orders: "\<forall>b\<in>A. is_cstr (bi_name b) \<Longrightarrow> orders compare_boxes A"
  unfolding orders_def by (auto simp: compare_boxes_order)

lemma sorts_boxes:
  assumes "sorts qsort" "list_all (\<lambda>b. is_cstr (bi_name b)) bs"
  shows "mset (qsort compare_boxes bs) = mset bs" "sorted_wrt (\<lambda>a b. sort_key a \<le> sort_key b) (qsort compare_boxes bs)"
proof -
  have cs: "\<forall>b\<in>set bs. is_cstr (bi_name b)" using assms(2) by (simp add: list_all_iff)
  then have s: "mset (qsort compare_boxes bs) = mset bs" "sorted_wrt (\<lambda>a b. compare_boxes a b \<le> 0) (qsort compare_boxes bs)"
    using assms(1) compare_boxes_orders [of "set bs"] by (simp_all add: sorts_def)
  then show "mset (qsort compare_boxes bs) = mset bs" by simp
  have "set (qsort compare_boxes bs) = set bs" using s(1) by (metis set_mset_mset)
  then show "sorted_wrt (\<lambda>a b. sort_key a \<le> sort_key b) (qsort compare_boxes bs)"
    using sorted_wrt_mono_rel [OF _ s(2)] cs by (simp add: compare_boxes_order)
qed

end
