(* ===== verification/ListProps.thy ===== *)
theory ListProps
  imports Listing Ordering BrokerExample
begin

text \<open>
  From the broker's table of boxes to the lines the manager prints for \<open>list\<close>.
\<close>

definition listed :: "broker \<Rightarrow> console_line list \<Rightarrow> bool" where
  "listed s lines \<longleftrightarrow> (if num_boxes s = 0 then lines = [Text ''NO BOXES FOUND'']
     else \<exists>infos. mset infos = mset (map box_info_of (used_boxes s [0..<MAX_BOXES])) \<and>
       sorted_wrt (\<lambda>a b. sort_key a \<le> sort_key b) infos \<and> lines = map box_line infos)"

lemma used_cstrs:
  assumes "boxes_ok s"
  shows "list_all (\<lambda>b. is_cstr (bi_name b)) (map box_info_of (used_boxes s [0..<MAX_BOXES]))"
  by (auto simp: list_all_iff box_info_of_def is_cstr_def)

text \<open>C5: The manager prints what the broker's table holds: after the broker has answered
  a list request, list_boxes reads the frames and prints one line per box that is in use,
  each with its name, size and counters and each once, in the order of their names without
  regard to case; when there are no boxes it says so.\<close>

theorem list_roundtrip:
  assumes "boxes_ok s" "clients s = Some cls" "c < length cls" "cl_opcode (cls ! c) = OP_CODE_LIST_BOXES"
    and "is_cstr (cl_pipename (cls ! c))" "opens s (c_str (cl_pipename (cls ! c))) = fd # later" "0 \<le> fd"
    and "accepts s fd = []" "outbox s fd = []" "fd' \<in> set (open_fds m)" "sorts qsort"
  shows "wp (handle_tfs_list_boxes c) (\<lambda>r s'. r = 0 \<and>
    wp (list_boxes qsort fd') (\<lambda>r m'. r = 0 \<and> (\<exists>lines. console m' = console m @ lines \<and> listed s lines))
      (pipe_left fd' (outbox s' fd) m)) s"
proof (rule wp_mono [OF list_answer [OF assms(1-8)]], elim conjE, intro conjI)
  fix r s'
  let ?used = "used_boxes s [0..<MAX_BOXES]"
  let ?Q = "\<lambda>r m'. r = 0 \<and> (\<exists>lines. console m' = console m @ lines \<and> listed s lines)"
  assume out: "outbox s' fd = outbox s fd @ (if num_boxes s = 0 then empty_frames s else box_frames ?used)"
  note ok = boxes_okD [OF assms(1)] and len = length_used_boxes [OF assms(1)]
  show "wp (list_boxes qsort fd') ?Q (pipe_left fd' (outbox s' fd) m)"
  proof (cases "num_boxes s = 0")
    case True
    then have "free_boxes s ! 0" using len by (simp add: used_boxes_def filter_empty_conv MAX_BOXES_def)
    moreover have "0 < MAX_BOXES" by (simp add: MAX_BOXES_def)
    ultimately have nm: "c_str (b_name (boxes s ! 0)) = []" "length (b_name (boxes s ! 0)) = Suc BOX_NAME_LENGTH"
      using ok(4,6) [of 0] by (simp_all add: box_named_def)
    let ?nm = "take BOX_NAME_LENGTH (b_name (boxes s ! 0))"
    have hd: "hd ?nm = 0" "length ?nm = BOX_NAME_LENGTH"
      using nm by (cases "b_name (boxes s ! 0)"; simp add: c_str_def BOX_NAME_LENGTH_def split: if_splits)+
    have "[0..<MAX_BOXES] = 0 # [1..<MAX_BOXES]" by (simp add: MAX_BOXES_def upt_conv_Cons)
    then have "\<exists>bs. empty_frames s = [OP_CODE_LIST_BOXES_ANSWER, 1] @ ?nm @ bs" by (simp add: empty_frames_def)
    then obtain bs where "empty_frames s = [OP_CODE_LIST_BOXES_ANSWER, 1] @ ?nm @ bs" by blast
    then show ?thesis
      using out True assms(9) list_boxes_empty [OF assms(10) hd(2,1), of qsort 1 bs]
      by (simp add: wp_def listed_def)
  next
    case False
    then have ne: "?used \<noteq> []" using len by auto
    have max: "length ?used \<le> MAX_BOXES" by (simp add: used_boxes_def) (metis length_filter_le length_upt diff_zero)
    from sorts_boxes [OF assms(11) used_cstrs [OF assms(1)]] False
    have "listed s (map box_line (qsort compare_boxes (map box_info_of ?used)))"
      by (auto simp: listed_def)
    then show ?thesis
      using out False assms(9) list_boxes_frames [OF assms(10) used_listable [OF assms(1)] ne max, of qsort]
      by (simp add: wp_def)
  qed
qed simp

text \<open>Insertion sort, which keeps to the contract of \<open>qsort\<close>.\<close>

fun put_in :: "('a \<Rightarrow> 'a \<Rightarrow> int) \<Rightarrow> 'a \<Rightarrow> 'a list \<Rightarrow> 'a list" where
  "put_in cmp x [] = [x]"
| "put_in cmp x (y # ys) = (if cmp x y \<le> 0 then x # y # ys else y # put_in cmp x ys)"

definition insertion_sort :: "('a \<Rightarrow> 'a \<Rightarrow> int) \<Rightarrow> 'a list \<Rightarrow> 'a list" where
  "insertion_sort cmp xs = foldr (put_in cmp) xs []"

lemma mset_put_in [simp]: "mset (put_in cmp x ys) = add_mset x (mset ys)"
  by (induction ys) auto

lemma set_put_in [simp]: "set (put_in cmp x ys) = insert x (set ys)"
  by (induction ys) auto

lemma sorted_put_in:
  assumes "orders cmp (insert x (set ys))" "sorted_wrt (\<lambda>a b. cmp a b \<le> 0) ys"
  shows "sorted_wrt (\<lambda>a b. cmp a b \<le> 0) (put_in cmp x ys)"
  using assms
proof (induction ys)
  case (Cons y ys)
  note o = Cons.prems(1)
  have "orders cmp (insert x (set ys))" by (rule orders_subset [OF o]) auto
  with Cons have "sorted_wrt (\<lambda>a b. cmp a b \<le> 0) (put_in cmp x ys)" by simp
  moreover have yz: "\<forall>z\<in>set ys. cmp y z \<le> 0" using Cons.prems(2) by simp
  moreover have "\<forall>z\<in>set ys. cmp x z \<le> 0" if "cmp x y \<le> 0"
    using orders_trans [OF o, of x y] that yz by simp
  moreover have "cmp x y \<le> 0 \<or> cmp y x \<le> 0" by (rule orders_total [OF o]) simp_all
  ultimately show ?case using Cons.prems(2) by auto
qed simp

lemma insertion_sort_sorts: "sorts insertion_sort"
  unfolding sorts_def
proof (intro allI impI)
  fix cmp :: "'a \<Rightarrow> 'a \<Rightarrow> int" and xs
  assume "orders cmp (set xs)"
  then show "mset (insertion_sort cmp xs) = mset xs \<and> sorted_wrt (\<lambda>a b. cmp a b \<le> 0) (insertion_sort cmp xs)"
  proof (induction xs)
    case (Cons x xs)
    have "orders cmp (set xs)" by (rule orders_subset [OF Cons.prems]) auto
    with Cons.IH have ih: "mset (insertion_sort cmp xs) = mset xs" "sorted_wrt (\<lambda>a b. cmp a b \<le> 0) (insertion_sort cmp xs)"
      by simp_all
    have "set (insertion_sort cmp xs) = set xs" using ih(1) by (metis set_mset_mset)
    then have "sorted_wrt (\<lambda>a b. cmp a b \<le> 0) (put_in cmp x (insertion_sort cmp xs))"
      using sorted_put_in [of cmp x "insertion_sort cmp xs"] Cons.prems ih(2) by simp
    then show ?case using ih(1) by (simp add: insertion_sort_def)
  qed (simp add: insertion_sort_def)
qed

text \<open>A broker with one box and a session that has a list request; a manager that reads at 4.\<close>

definition ex_lister :: broker where
  "ex_lister = (ex_broker [])\<lparr>clients := Some [session_on_a OP_CODE_REGIST_PUB 0 5, session_on_a OP_CODE_REGIST_SUB 1 6,
     idle_session\<lparr>cl_opcode := OP_CODE_LIST_BOXES\<rparr>]\<rparr>"

definition ex_manager :: client_os where
  "ex_manager = \<lparr>inbox = (\<lambda>_. []), accepts = (\<lambda>_. []), outbox = (\<lambda>_. []),
     opens = (\<lambda>_. []), open_fds = [4], path_calls = [], errno = 0, console = [], message_count = 0, pipe_fd = 0\<rparr>"

lemma ex_lister_ok: "boxes_ok ex_lister"
  using ex_boxes_ok [of "[]"] boxes_ok_cong [of ex_lister "ex_broker []"] by (simp add: ex_lister_def)

lemma ex_lister_used: "used_boxes ex_lister [0..<MAX_BOXES] = [used_box]"
proof -
  have "length (used_boxes ex_lister [0..<MAX_BOXES]) = 1"
    using length_used_boxes [OF ex_lister_ok] by (simp add: ex_lister_def ex_broker_sel)
  moreover have "used_boxes ex_lister [0..<MAX_BOXES] = used_box # used_boxes ex_lister [1..<MAX_BOXES]"
    by (simp add: MAX_BOXES_def upt_conv_Cons ex_lister_def ex_broker_sel)
  ultimately show ?thesis by simp
qed

lemma used_box_line: "box_line (box_info_of used_box) = Box_line [47, 97] 0 1 1"
  by code_simp

lemma ex_lister_listed: "listed ex_lister lines \<Longrightarrow> lines = [Box_line [47, 97] 0 1 1]"
proof -
  have "num_boxes ex_lister = 1" by (simp add: ex_lister_def ex_broker_sel)
  then show "listed ex_lister lines \<Longrightarrow> lines = [Box_line [47, 97] 0 1 1]"
    by (auto simp: listed_def ex_lister_used used_box_line)
qed

theorem list_roundtrip_witness:
  "wp (handle_tfs_list_boxes 2) (\<lambda>r s'. r = 0 \<and>
     wp (list_boxes insertion_sort 4) (\<lambda>r m'. r = 0 \<and> console m' = [Box_line [47, 97] 0 1 1])
       (pipe_left 4 (outbox s' 7) ex_manager)) ex_lister"
proof -
  have pn: "is_cstr (field 256 [112])" "c_str (field 256 [112]) = [112]"
    by (simp_all add: is_cstr_field c_str_field)
  have "wp (handle_tfs_list_boxes 2) (\<lambda>r s'. r = 0 \<and> wp (list_boxes insertion_sort 4) (\<lambda>r m'. r = 0 \<and>
      (\<exists>lines. console m' = console ex_manager @ lines \<and> listed ex_lister lines))
      (pipe_left 4 (outbox s' 7) ex_manager)) ex_lister"
    by (rule list_roundtrip [OF ex_lister_ok, where later = "[]" and
          cls = "[session_on_a OP_CODE_REGIST_PUB 0 5, session_on_a OP_CODE_REGIST_SUB 1 6,
            idle_session\<lparr>cl_opcode := OP_CODE_LIST_BOXES\<rparr>]"])
      (simp_all add: ex_lister_def ex_broker_sel idle_session_def pn ex_manager_def insertion_sort_sorts)
  then show ?thesis
    by (rule wp_mono) (auto elim!: wp_mono dest: ex_lister_listed simp: ex_manager_def)
qed

end
