(* ===== verification/Handlers.thy ===== *)
theory Handlers
  imports Listing Publishing
begin

text \<open>
  The handlers of \<open>create\<close> and \<open>remove\<close>, from the request to the answer: what becomes of
  the table of boxes, of the file and of the session.
\<close>

section \<open>Answers\<close>

definition answer_frame :: "byte \<Rightarrow> int \<Rightarrow> string \<Rightarrow> byte list" where
  "answer_frame opcode return_code msg = [opcode] @ int32_bytes return_code @ take MESSAGE_LENGTH (error_text msg)"

lemma write_answer_sent:
  assumes "pipe \<in> set (open_fds s)" "accepts s pipe = []"
  shows "write_answer pipe opcode return_code (error_text msg) rest s =
    rest (sent_to pipe (answer_frame opcode return_code msg) s)"
  using assms by (simp add: write_answer_def write_pipe_sent answer_frame_def)

section \<open>Opening the file of a new box\<close>

definition room_for :: "fs_state \<Rightarrow> byte list \<Rightarrow> bool" where
  "room_for t name \<longleftrightarrow> fs_inv t \<and> is_cstr name \<and> valid_name name \<and>
     0 \<le> fst (a_open (INODE_TABLE_SIZE t) (MAX_OPEN_FILES t) (dir_vacant (dir_slots t 0) \<noteq> None)
       (fname name) TFS_O_CREAT (afs_of t))"

lemma a_attach_names:
  "a_names (snd (a_attach n i off a)) = a_names a" "a_files (snd (a_attach n i off a)) = a_files a"
  by (simp_all add: a_attach_def split: option.splits)

lemma open_room:
  assumes "room_for t name"
  shows "\<exists>h t'. tfs_open (Some name) TFS_O_CREAT t = Inr (h, t') \<and> 0 \<le> h \<and> fs_inv t' \<and>
    file_of t' name = (if a_names (afs_of t) (fname name) = None then Some [] else file_of t name)"
proof -
  let ?spec = "a_open (INODE_TABLE_SIZE t) (MAX_OPEN_FILES t) (dir_vacant (dir_slots t 0) \<noteq> None)
    (fname name) TFS_O_CREAT (afs_of t)"
  note r = assms [unfolded room_for_def]
  have "wp (tfs_open (Some name) TFS_O_CREAT) (refines t ?spec) t"
    using tfs_open_spec [of t name TFS_O_CREAT] r by (simp add: creat_flags del: afs_of_sel)
  then obtain h t' where o: "tfs_open (Some name) TFS_O_CREAT t = Inr (h, t')" "refines t ?spec h t'"
    by (auto simp: wp_iff)
  have "Option.bind (a_names (snd ?spec) (fname name)) (a_files (snd ?spec)) =
      (if a_names (afs_of t) (fname name) = None then Some [] else file_of t name)"
    using r by (auto simp: a_open_def creat_flags file_of_def a_attach_names Let_def simp del: afs_of_sel
        split: option.splits if_splits)
  then have "file_of t' name = (if a_names (afs_of t) (fname name) = None then Some [] else file_of t name)"
    using o(2) by (simp add: refines_def file_of_def [of t'] del: afs_of_sel)
  with o r show ?thesis by (auto simp: refines_def simp del: afs_of_sel)
qed

section \<open>create\<close>

lemma get_box_none:
  assumes "boxes_ok s" "is_cstr name" "c_str name \<noteq> []"
  shows "first_index (box_named s (c_str name)) MAX_BOXES = None \<longleftrightarrow> box_table s (c_str name) = None"
  using assms(3) by (simp add: box_table_def)

text \<open>A session with a request of the manager: its pipe opens as \<open>fd\<close> and takes all bytes.\<close>

definition manager_session :: "broker \<Rightarrow> client_t list \<Rightarrow> nat \<Rightarrow> byte \<Rightarrow> int \<Rightarrow> int list \<Rightarrow> bool" where
  "manager_session s cls c opcode fd later \<longleftrightarrow> clients s = Some cls \<and> c < length cls \<and>
     cl_opcode (cls ! c) = opcode \<and> is_cstr (cl_pipename (cls ! c)) \<and>
     opens s (c_str (cl_pipename (cls ! c))) = fd # later \<and> 0 \<le> fd \<and> accepts s fd = [] \<and>
     is_cstr (cl_box_name (cls ! c)) \<and> length (cl_box_name (cls ! c)) = BOX_NAME_LENGTH + 1 \<and>
     boxes_lock s = Unlocked"

text \<open>What the broker is after the table has been changed or not: the rest of the handler.\<close>

definition table_after_create :: "byte list \<Rightarrow> broker \<Rightarrow> broker" where
  "table_after_create name s = (case first_index (box_named s (c_str name)) MAX_BOXES of
     Some i \<Rightarrow> s | None \<Rightarrow> created_box name (the (first_index (\<lambda>i. free_boxes s ! i) MAX_BOXES)) s)"

definition create_code :: "byte list \<Rightarrow> broker \<Rightarrow> int \<times> string" where
  "create_code name s = (if box_table s (c_str name) = None then (0, '''') else (- 1, ''Box already exists''))"

lemma table_after_create_ok:
  assumes "boxes_ok s" "is_cstr name" "length name = BOX_NAME_LENGTH + 1" "c_str name \<noteq> []" "num_boxes s < int MAX_BOXES"
  shows "boxes_ok (table_after_create name s)" "box_table (table_after_create name s) =
    (if box_table s (c_str name) = None then (box_table s)(c_str name \<mapsto> (0, 0, 0)) else box_table s)"
proof -
  obtain i where i: "first_index (\<lambda>i. free_boxes s ! i) MAX_BOXES = Some i" by (rule free_slot [OF assms(1,5)])
  show "boxes_ok (table_after_create name s)" "box_table (table_after_create name s) =
      (if box_table s (c_str name) = None then (box_table s)(c_str name \<mapsto> (0, 0, 0)) else box_table s)"
    using created_box_ok [OF assms(1-4) _ i] get_box_none [OF assms(1,2,4)] assms(1)
    by (auto simp: table_after_create_def i split: option.splits)
qed

lemma table_after_create_sel:
  "clients (table_after_create name s) = clients s" "opens (table_after_create name s) = opens s"
  "accepts (table_after_create name s) = accepts s" "tfs (table_after_create name s) = tfs s"
  "outbox (table_after_create name s) = outbox s" "open_fds (table_after_create name s) = open_fds s"
  "boxes_lock (table_after_create name s) = boxes_lock s"
  by (simp_all add: table_after_create_def created_box_def split: option.splits)

lemma create_boxes_part:
  assumes "boxes_ok s" "is_cstr name" "length name = BOX_NAME_LENGTH + 1" "c_str name \<noteq> []" "num_boxes s < int MAX_BOXES"
  shows "try_create_box False name s =
    Inr ((fst (create_code name s), error_text (snd (create_code name s))), table_after_create name s)"
proof -
  obtain i where i: "first_index (\<lambda>i. free_boxes s ! i) MAX_BOXES = Some i" by (rule free_slot [OF assms(1,5)])
  show ?thesis
    using get_box_none [OF assms(1,2,4)] assms(5)
    by (auto simp: try_create_box_def prog_simps get_box_eq [OF assms(1,2)] create_box_eq [OF assms(1,3) i] i
        table_after_create_def create_code_def split: option.splits)
qed

lemma box_named_cong: "boxes s' = boxes s \<Longrightarrow> box_named s' = box_named s"
  by (intro ext) (simp add: box_named_def)

lemma box_table_cong: "boxes s' = boxes s \<Longrightarrow> box_table s' = box_table s"
  by (intro ext) (simp add: box_table_def box_named_def [abs_def])

lemma create_answer:
  assumes "manager_session s cls c OP_CODE_CREATE_BOX fd later" "boxes_ok s" "num_boxes s < int MAX_BOXES"
    and "room_for (tfs s) (cl_box_name (cls ! c))"
  defines "name \<equiv> cl_box_name (cls ! c)"
  shows "wp (handle_tfs_create_box False c) (\<lambda>r s'. r = 0 \<and> boxes_ok s' \<and> boxes_lock s' = Unlocked \<and>
    box_table s' = (if box_table s (c_str name) = None then (box_table s)(c_str name \<mapsto> (0, 0, 0)) else box_table s) \<and>
    outbox s' fd = outbox s fd @ answer_frame OP_CODE_CREATE_BOX_ANSWER (fst (create_code name s)) (snd (create_code name s)) \<and>
    fs_inv (tfs s') \<and>
    file_of (tfs s') name = (if a_names (afs_of (tfs s)) (fname name) = None then Some [] else file_of (tfs s) name)) s"
proof -
  note m = assms(1) [unfolded manager_session_def, folded name_def]
  let ?s1 = "s\<lparr>boxes_lock := Locked\<rparr>"
  let ?s2 = "(table_after_create name ?s1)\<lparr>boxes_lock := Unlocked\<rparr>"
  let ?p = "cl_pipename (cls ! c)"
  let ?s3 = "?s2\<lparr>opens := (opens s)(c_str ?p := later), open_fds := fd # open_fds s\<rparr>"
  let ?cl = "(cls ! c)\<lparr>cl_pipe := fd\<rparr>"
  have ok1: "boxes_ok ?s1" using assms(2) boxes_ok_cong [of ?s1 s] by simp
  have tb1: "box_table ?s1 = box_table s" by (rule box_table_cong) simp
  have nm: "is_cstr name" "length name = BOX_NAME_LENGTH + 1" "c_str name \<noteq> []" "num_boxes ?s1 < int MAX_BOXES"
    using m assms(3,4) by (auto simp: room_for_def valid_name_def name_def)
  from open_room [OF assms(4), folded name_def] obtain h t where o: "tfs_open (Some name) TFS_O_CREAT (tfs s) = Inr (h, t)"
    "0 \<le> h" "fs_inv t" "file_of t name = (if a_names (afs_of (tfs s)) (fname name) = None then Some [] else file_of (tfs s) name)"
    by blast
  note part = create_boxes_part [OF ok1 nm]
  have code: "create_code name ?s1 = create_code name s" by (simp add: create_code_def tb1)
  have max: "num_boxes s \<noteq> int MAX_BOXES" using assms(3) by simp
  have open_pipe: "sys_open ?p ?s2 = Inr (fd, ?s3)"
    using m by (subst sys_open_ok) (auto simp: table_after_create_sel)
  let ?s4 = "?s3\<lparr>tfs := t, clients := Some (cls[c := ?cl\<lparr>cl_box_fd := h\<rparr>])\<rparr>"
  let ?bs = "answer_frame OP_CODE_CREATE_BOX_ANSWER (fst (create_code name s)) (snd (create_code name s))"
  let ?fin = "(sent_to fd ?bs ?s4)\<lparr>open_fds := open_fds s, clients := Some (cls[c := session_over (?cl\<lparr>cl_box_fd := h\<rparr>)])\<rparr>"
  have finish: "finish_client_session c (sent_to fd ?bs ?s4) = Inr (0, ?fin)"
    using finish_manager_session [of "sent_to fd ?bs ?s4" "cls[c := ?cl\<lparr>cl_box_fd := h\<rparr>]" c] m o(2)
    by (simp add: sent_to_def op_codes)
  have "handle_tfs_create_box False c s = Inr (0, ?fin)"
    using m o open_pipe part code max finish
    by (simp add: handle_tfs_create_box_def prog_simps mb_simps table_after_create_sel write_answer_sent name_def [symmetric])
  moreover have "boxes_ok ?fin" "box_table ?fin = box_table (table_after_create name ?s1)"
    using table_after_create_ok(1) [OF ok1 nm] boxes_ok_cong [of ?fin "table_after_create name ?s1"]
      box_table_cong [of ?fin "table_after_create name ?s1"]
    by (simp_all add: sent_to_def)
  ultimately show ?thesis
    using table_after_create_ok(2) [OF ok1 nm] o tb1 by (simp add: wp_def sent_to_def table_after_create_sel)
qed

section \<open>remove\<close>

text \<open>No other session is on the box of session \<open>c\<close>.\<close>

definition alone_on_box :: "broker \<Rightarrow> client_t list \<Rightarrow> nat \<Rightarrow> bool" where
  "alone_on_box s cls c \<longleftrightarrow> unat (max_sessions s) \<le> length cls \<and> cl_session (cls ! c) = int c \<and>
     (\<forall>i<unat (max_sessions s). is_cstr (cl_box_name (cls ! i)) \<and>
        (i \<noteq> c \<longrightarrow> c_str (cl_box_name (cls ! i)) \<noteq> c_str (cl_box_name (cls ! c))))"

lemma end_no_session:
  assumes "clients s = Some cls'" "\<And>i. cl_box_name (cls' ! i) = cl_box_name (cls ! i)" "length cls' = length cls"
    and "alone_on_box s cls c" "is_cstr name" "c_str name = c_str (cl_box_name (cls ! c))"
  shows "end_sessions (int c) name (max_sessions s) s = Inr (None, s)"
  unfolding end_sessions_def
proof (rule for_ret_miss)
  fix i assume i: "0 \<le> i" "i < unat (max_sessions s)"
  note a = assms(4) [unfolded alone_on_box_def]
  obtain v where v: "c_strcmp (cl_box_name (cls ! i)) name = Some v" "v = 0 \<longleftrightarrow> c_str (cl_box_name (cls ! i)) = c_str name"
    using c_strcmp_zero [OF _ assms(5), of "cl_box_name (cls ! i)"] a i by blast
  have "v = 0 \<Longrightarrow> i = c" using v(2) a i(2) assms(6) by auto
  then show "bind (client_at i) (\<lambda>cl. bind (defined (c_strcmp (cl_box_name cl) name)) (\<lambda>r.
       if r = 0 \<and> int i \<noteq> int c
       then bind (finish_client_session i) (\<lambda>f. ret (if f = - 1 then Some (- 1) else None)) else ret None)) s =
     Inr (None, s)"
    using v(1) assms(1-3) a i by (auto simp: prog_simps mb_simps)
qed

text \<open>Removing the file of a box that is not open.\<close>

definition closed_file :: "fs_state \<Rightarrow> byte list \<Rightarrow> bool" where
  "closed_file t name \<longleftrightarrow> fs_inv t \<and> is_cstr name \<and> valid_name name \<and>
     (\<exists>k. a_names (afs_of t) (fname name) = Some k \<and> not_open t k)"

lemma valid_name_iff: "valid_name m \<longleftrightarrow> length (c_str m) > 1 \<and> hd (c_str m) = slash"
  by (cases m) (auto simp: valid_name_def c_str_def)

lemma unlink_closed:
  assumes "closed_file t name" "c_str name' = c_str name" "is_cstr name'"
  shows "\<exists>t'. tfs_unlink (Some name') t = Inr (0, t') \<and> fs_inv t' \<and> file_of t' name = None"
proof -
  from assms(1) obtain k where k: "a_names (afs_of t) (fname name) = Some k" "not_open t k" "fs_inv t" "valid_name name"
    "is_cstr name"
    by (auto simp: closed_file_def simp del: afs_of_sel)
  have f: "fname name' = fname name" using assms(2) by (simp add: fname_def)
  have v: "valid_name name'" using k(4) assms(2) by (simp add: valid_name_iff)
  have "wp (tfs_unlink (Some name')) (refines t (a_unlink (fname name) (afs_of t))) t"
    using tfs_unlink_spec [OF k(3) assms(3)] k(1,2) v by (simp add: f del: afs_of_sel)
  then show ?thesis
    using k(1) by (auto simp: wp_iff refines_def a_unlink_def file_of_def simp del: afs_of_sel)
qed

text \<open>A session without a handle is not ended: only its pipe is closed.\<close>

lemma finish_without_handle:
  assumes "clients s = Some cls" "c < length cls" "cl_pipe (cls ! c) \<in> set (open_fds s)"
    and "cl_opcode (cls ! c) \<noteq> OP_CODE_LIST_BOXES" "cl_box_fd (cls ! c) = - 1"
  shows "finish_client_session c s = Inr (- 1, s\<lparr>open_fds := remove1 (cl_pipe (cls ! c)) (open_fds s)\<rparr>)"
  using assms by (simp add: finish_client_session_def prog_simps mb_simps safe_close_def sys_close_def)

lemma copied_name:
  assumes "is_cstr name" "length name = BOX_NAME_LENGTH + 1"
  shows "c_strcpy name = Some (c_str name @ [0])"
    and "c_store 0 (c_str name @ [0]) (replicate (BOX_NAME_LENGTH + 1) 0) = Some (field (BOX_NAME_LENGTH + 1) (c_str name))"
    and "c_str (field (BOX_NAME_LENGTH + 1) (c_str name)) = c_str name" "is_cstr (field (BOX_NAME_LENGTH + 1) (c_str name))"
proof -
  have l: "length (c_str name) < BOX_NAME_LENGTH + 1" using length_c_str [OF assms(1)] assms(2) by simp
  obtain r where r: "name = c_str name @ 0 # r" using cstr_split [OF assms(1)] by blast
  then have "take (Suc (length (c_str name))) name = c_str name @ [0]" by (metis append_Cons append_Nil append_assoc append_eq_conv_conj length_append_singleton)
  then show "c_strcpy name = Some (c_str name @ [0])" by (simp add: c_strcpy_def c_strlen_some assms(1))
  show "c_store 0 (c_str name @ [0]) (replicate (BOX_NAME_LENGTH + 1) 0) = Some (field (BOX_NAME_LENGTH + 1) (c_str name))"
  proof -
    obtain k where k: "BOX_NAME_LENGTH = length (c_str name) + k" using l by (metis less_Suc_eq_le le_Suc_ex Suc_eq_plus1)
    show ?thesis by (simp add: c_store_def write_at_def field_def k Suc_diff_le)
  qed
  show "c_str (field (BOX_NAME_LENGTH + 1) (c_str name)) = c_str name" by (rule c_str_field) (rule c_str_no_nul)
  show "is_cstr (field (BOX_NAME_LENGTH + 1) (c_str name))" by (rule is_cstr_field [OF l])
qed

definition remove_code :: "byte list \<Rightarrow> broker \<Rightarrow> int \<times> string" where
  "remove_code name s = (if box_table s (c_str name) = None then (- 1, ''Box does not exist'') else (0, ''''))"

text \<open>The table and the file after the removal.\<close>

lemma remove_part:
  assumes "boxes_ok s" "is_cstr name" "c_str name \<noteq> []" "box_table s (c_str name) \<noteq> None"
    and "closed_file (tfs s) name'" "c_str name' = c_str name"
  shows "\<exists>i t. remove_box name s = Inr (0, removed_box i t s) \<and> boxes_ok (removed_box i t s) \<and>
    box_table (removed_box i t s) = (box_table s)(c_str name := None) \<and> fs_inv t \<and> file_of t name' = None"
proof -
  from assms(4) get_box_none [OF assms(1-3)] obtain i where
    i: "first_index (box_named s (c_str name)) MAX_BOXES = Some i" by auto
  then have b: "i < MAX_BOXES" "box_named s (c_str name) i" by (simp_all add: first_index_Some)
  have fs: "fs_inv (tfs s)" using assms(5) by (simp add: closed_file_def)
  have "c_str (b_name (boxes s ! i)) = c_str name'" "is_cstr (b_name (boxes s ! i))"
    using b boxes_okD(5) [OF assms(1) b(1)] assms(6) by (simp_all add: box_named_def)
  from unlink_closed [OF assms(5) this] obtain t where
    "tfs_unlink (Some (b_name (boxes s ! i))) (tfs s) = Inr (0, t)" "fs_inv t" "file_of t name' = None" by blast
  then show ?thesis
    using remove_box_eq [OF assms(1,2) fs] removed_box_ok [OF assms(1) b assms(3)] i
    by (intro exI [of _ i] exI [of _ t]) simp
qed

text \<open>The end of the handler: the answer, the lock and the session.\<close>

lemma answer_and_end:
  assumes "clients s = Some cls" "c < length cls" "cl_pipe (cls ! c) = fd" "fd \<in> set (open_fds s)" "accepts s fd = []"
    and "cl_opcode (cls ! c) = OP_CODE_REMOVE_BOX" "boxes_lock s = Locked"
  shows "\<exists>s'. write_answer fd opcode code (error_text msg) (andthen unlock_boxes (finish_client_session c)) s =
      Inr (if cl_box_fd (cls ! c) = - 1 then - 1 else 0, s') \<and>
    boxes s' = boxes s \<and> free_boxes s' = free_boxes s \<and> num_boxes s' = num_boxes s \<and> boxes_lock s' = Unlocked \<and>
    tfs s' = tfs s \<and> outbox s' fd = outbox s fd @ answer_frame opcode code msg"
proof -
  let ?s = "(sent_to fd (answer_frame opcode code msg) s)\<lparr>boxes_lock := Unlocked\<rparr>"
  have run: "write_answer fd opcode code (error_text msg) (andthen unlock_boxes (finish_client_session c)) s =
      finish_client_session c ?s"
    using assms by (simp add: write_answer_sent prog_simps mb_simps sent_to_def)
  have s: "clients ?s = Some cls" "cl_pipe (cls ! c) \<in> set (open_fds ?s)" "boxes ?s = boxes s" "free_boxes ?s = free_boxes s"
    "num_boxes ?s = num_boxes s" "boxes_lock ?s = Unlocked" "tfs ?s = tfs s"
    "outbox ?s fd = outbox s fd @ answer_frame opcode code msg"
    using assms(1,3,4) by (simp_all add: sent_to_def)
  show ?thesis
  proof (cases "cl_box_fd (cls ! c) = - 1")
    case True
    have fin: "finish_client_session c ?s = Inr (- 1, ?s\<lparr>open_fds := remove1 (cl_pipe (cls ! c)) (open_fds ?s)\<rparr>)"
      by (rule finish_without_handle [OF s(1) assms(2) s(2) _ True]) (simp add: assms(6) op_codes)
    show ?thesis unfolding run fin using s by (simp add: True sent_to_sel)
  next
    case False
    have fin: "finish_client_session c ?s = Inr (0, ?s\<lparr>open_fds := remove1 (cl_pipe (cls ! c)) (open_fds ?s),
        clients := Some (cls[c := session_over (cls ! c)])\<rparr>)"
      using finish_manager_session [OF s(1) assms(2) s(2)] False by (simp add: assms(6) op_codes)
    show ?thesis unfolding run fin using s by (simp add: False sent_to_sel)
  qed
qed

lemma remove_answer:
  assumes "manager_session s cls c OP_CODE_REMOVE_BOX fd later" "boxes_ok s" "alone_on_box s cls c"
    and "closed_file (tfs s) (cl_box_name (cls ! c)) \<or> box_table s (c_str (cl_box_name (cls ! c))) = None"
    and "c_str (cl_box_name (cls ! c)) \<noteq> []"
  defines "name \<equiv> cl_box_name (cls ! c)"
  shows "wp (handle_tfs_remove_box c) (\<lambda>r s'. r = (if cl_box_fd (cls ! c) = - 1 then - 1 else 0) \<and> boxes_ok s' \<and>
    boxes_lock s' = Unlocked \<and> box_table s' = (box_table s)(c_str name := None) \<and>
    outbox s' fd = outbox s fd @ answer_frame OP_CODE_REMOVE_BOX_ANSWER (fst (remove_code name s)) (snd (remove_code name s)) \<and>
    (if box_table s (c_str name) = None then tfs s' = tfs s else fs_inv (tfs s') \<and> file_of (tfs s') name = None)) s"
proof -
  note m = assms(1) [unfolded manager_session_def, folded name_def]
  let ?p = "cl_pipename (cls ! c)" and ?cl = "(cls ! c)\<lparr>cl_pipe := fd\<rparr>"
  let ?s1 = "s\<lparr>boxes_lock := Locked, opens := (opens s)(c_str ?p := later), open_fds := fd # open_fds s,
    clients := Some (cls[c := ?cl])\<rparr>"
  let ?name = "field (BOX_NAME_LENGTH + 1) (c_str name)"
  let ?bs = "answer_frame OP_CODE_REMOVE_BOX_ANSWER (fst (remove_code name s)) (snd (remove_code name s))"
  note cp = copied_name [of name]
  have nm: "is_cstr name" "length name = BOX_NAME_LENGTH + 1" "c_str name \<noteq> []" using m assms(5) by (simp_all add: name_def)
  have ok1: "boxes_ok ?s1" using assms(2) boxes_ok_cong [of ?s1 s] by simp
  have tb1: "box_table ?s1 = box_table s" by (rule box_table_cong) simp
  have "sys_open ?p (s\<lparr>boxes_lock := Locked\<rparr>) = Inr (fd, s\<lparr>boxes_lock := Locked,
      opens := (opens s)(c_str ?p := later), open_fds := fd # open_fds s\<rparr>)"
    using m by (subst sys_open_ok) auto
  moreover have "end_sessions (int c) ?name (max_sessions s) ?s1 = Inr (None, ?s1)"
    using end_no_session [of ?s1 "cls[c := ?cl]" cls c ?name] assms(3) cp(3,4) nm m
    by (auto simp: alone_on_box_def nth_list_update name_def)
  moreover have "cl_session (cls ! c) = int c" using assms(3) by (simp add: alone_on_box_def)
  moreover have "first_index (box_named ?s1 (c_str name)) MAX_BOXES = None \<longleftrightarrow> box_table s (c_str name) = None"
    using get_box_none [OF ok1 nm(1,3)] tb1 by simp
  ultimately have run: "handle_tfs_remove_box c s =
      bind (if box_table s (c_str name) = None then ret 0 else remove_box ?name) (\<lambda>r.
        if box_table s (c_str name) \<noteq> None \<and> r = - 1 then ret (- 1)
        else write_answer fd OP_CODE_REMOVE_BOX_ANSWER (fst (remove_code name s)) (error_text (snd (remove_code name s)))
          (andthen unlock_boxes (finish_client_session c))) ?s1"
    using m nm cp get_box_eq [OF ok1 nm(1)]
    by (auto simp: handle_tfs_remove_box_def prog_simps mb_simps name_def [symmetric] remove_code_def
        split: if_splits sum.splits)
  have cls: "clients ?s1 = Some (cls[c := ?cl])" "c < length (cls[c := ?cl])" "cl_pipe (cls[c := ?cl] ! c) = fd"
    "fd \<in> set (open_fds ?s1)" "accepts ?s1 fd = []" "cl_opcode (cls[c := ?cl] ! c) = OP_CODE_REMOVE_BOX"
    "boxes_lock ?s1 = Locked" "cl_box_fd (cls[c := ?cl] ! c) = cl_box_fd (cls ! c)"
    using m by simp_all
  show ?thesis
  proof (cases "box_table s (c_str name) = None")
    case True
    from answer_and_end [OF cls(1-7), of OP_CODE_REMOVE_BOX_ANSWER "fst (remove_code name s)" "snd (remove_code name s)"]
    obtain v where v: "write_answer fd OP_CODE_REMOVE_BOX_ANSWER (fst (remove_code name s)) (error_text (snd (remove_code name s)))
          (andthen unlock_boxes (finish_client_session c)) ?s1 = Inr (if cl_box_fd (cls ! c) = - 1 then - 1 else 0, v)"
      "boxes v = boxes s" "free_boxes v = free_boxes s" "num_boxes v = num_boxes s" "boxes_lock v = Unlocked" "tfs v = tfs s"
      "outbox v fd = outbox s fd @ ?bs"
      by (auto simp: cls(8))
    show ?thesis
      unfolding wp_def run
      using v True assms(2) boxes_ok_cong [OF v(2-4)] box_table_cong [OF v(2)] by (simp add: prog_simps fun_upd_idem)
  next
    case False
    then obtain d where d: "box_table s (c_str name) = Some d" by blast
    from False have cf: "closed_file (tfs ?s1) name" using assms(4) by (auto simp: name_def)
    obtain i t where r: "remove_box ?name ?s1 = Inr (0, removed_box i t ?s1)" "boxes_ok (removed_box i t ?s1)"
      "box_table (removed_box i t ?s1) = (box_table s)(c_str name := None)" "fs_inv t" "file_of t name = None"
      using remove_part [OF ok1 cp(4) _ _ cf] cp(3) nm False tb1 by auto
    have "clients (removed_box i t ?s1) = clients ?s1" "open_fds (removed_box i t ?s1) = open_fds ?s1"
      "accepts (removed_box i t ?s1) = accepts ?s1" "boxes_lock (removed_box i t ?s1) = boxes_lock ?s1"
      "outbox (removed_box i t ?s1) = outbox ?s1"
      by (simp_all add: removed_box_def)
    note u = this
    have t: "tfs (removed_box i t ?s1) = t" by (simp add: removed_box_def)
    from answer_and_end [OF cls(1-7) [folded u], of OP_CODE_REMOVE_BOX_ANSWER "fst (remove_code name s)" "snd (remove_code name s)"]
    obtain v where v: "write_answer fd OP_CODE_REMOVE_BOX_ANSWER (fst (remove_code name s)) (error_text (snd (remove_code name s)))
          (andthen unlock_boxes (finish_client_session c)) (removed_box i t ?s1) = Inr (if cl_box_fd (cls ! c) = - 1 then - 1 else 0, v)"
      "boxes v = boxes (removed_box i t ?s1)" "free_boxes v = free_boxes (removed_box i t ?s1)"
      "num_boxes v = num_boxes (removed_box i t ?s1)" "boxes_lock v = Unlocked" "tfs v = t"
      "outbox v fd = outbox s fd @ ?bs"
      by (auto simp: cls(8) u t)
    show ?thesis
      unfolding wp_def run
      using v r boxes_ok_cong [OF v(2-4)] box_table_cong [OF v(2)] by (simp add: prog_simps d)
  qed
qed

end
