(* ===== verification/BoundedMap.thy ===== *)
theory BoundedMap
  imports Prelude
begin

text \<open>
  The contract of a table with names as keys and room for a bounded number of entries, and
  what a client that checks before it adds can rely on. \<open>look\<close> and \<open>add\<close> get a key as the
  program has it; \<open>name\<close> is what two equal keys have in common.
\<close>

section \<open>The client\<close>

text \<open>Add a new name: the four results are those of a full table, of a known name, of \<open>add\<close>
  failing and of success.\<close>

definition add_new :: "('s \<Rightarrow> int) \<Rightarrow> int \<Rightarrow> ('k \<Rightarrow> ('s, 'i option) prog) \<Rightarrow> ('k \<Rightarrow> ('s, int) prog) \<Rightarrow>
    'r \<Rightarrow> 'r \<Rightarrow> 'r \<Rightarrow> 'r \<Rightarrow> 'k \<Rightarrow> ('s, 'r) prog" where
  "add_new count cap look add full known failed success k =
     bind (gets count) (\<lambda>n.
     if n = cap then ret full
     else bind (look k) (\<lambda>r.
       if r \<noteq> None then ret known
       else bind (add k) (\<lambda>r. if r < 0 then ret failed else ret success)))"

fun run_all :: "('k \<Rightarrow> ('s, 'r) prog) \<Rightarrow> 'k list \<Rightarrow> ('s, 'r list) prog" where
  "run_all f [] = ret []"
| "run_all f (k # ks) = bind (f k) (\<lambda>r. bind (run_all f ks) (\<lambda>rs. ret (r # rs)))"

text \<open>The same on a map.\<close>

definition map_add :: "int \<Rightarrow> 'r \<Rightarrow> 'r \<Rightarrow> 'r \<Rightarrow> 'v \<Rightarrow> ('n \<Rightarrow> 'v option) \<Rightarrow> 'n \<Rightarrow> 'r \<times> ('n \<Rightarrow> 'v option)" where
  "map_add cap full known success fresh t n =
     (if int (card (dom t)) = cap then (full, t)
      else if t n \<noteq> None then (known, t)
      else (success, t(n \<mapsto> fresh)))"

fun map_add_all :: "int \<Rightarrow> 'r \<Rightarrow> 'r \<Rightarrow> 'r \<Rightarrow> 'v \<Rightarrow> ('n \<Rightarrow> 'v option) \<Rightarrow> 'n list \<Rightarrow> 'r list \<times> ('n \<Rightarrow> 'v option)" where
  "map_add_all cap full known success fresh t [] = ([], t)"
| "map_add_all cap full known success fresh t (n # ns) =
     (case map_add cap full known success fresh t n of (r, t') \<Rightarrow>
      case map_add_all cap full known success fresh t' ns of (rs, t'') \<Rightarrow> (r # rs, t''))"

section \<open>The contract\<close>

locale bounded_map =
  fixes look :: "'k \<Rightarrow> ('s, 'i option) prog" and add :: "'k \<Rightarrow> ('s, int) prog" and count :: "'s \<Rightarrow> int" and cap :: int
    and key :: "'k \<Rightarrow> bool" and name :: "'k \<Rightarrow> 'n" and tab :: "'s \<Rightarrow> 'n \<Rightarrow> 'v option" and fresh :: 'v
    and ok :: "'s \<Rightarrow> bool"
  assumes look: "ok s \<Longrightarrow> key k \<Longrightarrow> wp (look k) (\<lambda>r s'. s' = s \<and> (r = None \<longleftrightarrow> tab s (name k) = None)) s"
    and add: "ok s \<Longrightarrow> key k \<Longrightarrow> count s < cap \<Longrightarrow> tab s (name k) = None \<Longrightarrow>
      wp (add k) (\<lambda>r s'. r = 0 \<and> ok s' \<and> tab s' = (tab s)(name k \<mapsto> fresh)) s"
    and count: "ok s \<Longrightarrow> count s = int (card (dom (tab s)))"
    and bounded: "ok s \<Longrightarrow> count s \<le> cap"
begin

lemma add_new_spec:
  assumes "ok s" "key k"
  shows "wp (add_new count cap look add full known failed success k)
    (\<lambda>r s'. ok s' \<and> (r, tab s') = map_add cap full known success fresh (tab s) (name k)) s"
proof (cases "count s = cap")
  case True
  then show ?thesis using assms(1) count [OF assms(1)]
    by (simp add: add_new_def wp_def prog_simps map_add_def)
next
  case False
  then have room: "count s < cap" "int (card (dom (tab s))) \<noteq> cap"
    using bounded [OF assms(1)] count [OF assms(1)] by simp_all
  from look [OF assms] obtain r where r: "look k s = Inr (r, s)" "r = None \<longleftrightarrow> tab s (name k) = None"
    by (auto simp: wp_iff)
  show ?thesis
  proof (cases "tab s (name k) = None")
    case True
    from add [OF assms room(1) True] obtain s' where "add k s = Inr (0, s')" "ok s'" "tab s' = (tab s)(name k \<mapsto> fresh)"
      by (auto simp: wp_iff)
    then show ?thesis using False r room(2) True by (simp add: add_new_def wp_def prog_simps map_add_def)
  next
    case known: False
    moreover from known r(2) have "r \<noteq> None" by simp
    ultimately show ?thesis using False r(1) room(2) assms(1) by (simp add: add_new_def wp_def prog_simps map_add_def)
  qed
qed

lemma add_all_spec:
  assumes "ok s" "list_all key ks"
  shows "wp (run_all (add_new count cap look add full known failed success) ks)
    (\<lambda>rs s'. ok s' \<and> (rs, tab s') = map_add_all cap full known success fresh (tab s) (map name ks)) s"
  using assms
proof (induction ks arbitrary: s)
  case Nil
  then show ?case by (simp add: wp_def prog_simps)
next
  case (Cons k ks)
  let ?f = "add_new count cap look add full known failed success"
  from add_new_spec [OF Cons.prems(1), of k full known failed success] Cons.prems(2) obtain r s1 where
    1: "?f k s = Inr (r, s1)" "ok s1" "(r, tab s1) = map_add cap full known success fresh (tab s) (name k)"
    by (auto simp: wp_iff)
  from Cons.IH [OF 1(2)] Cons.prems(2) obtain rs s2 where
    2: "run_all ?f ks s1 = Inr (rs, s2)" "ok s2"
      "(rs, tab s2) = map_add_all cap full known success fresh (tab s1) (map name ks)"
    by (auto simp: wp_iff)
  show ?case using 1 2 by (simp add: wp_def prog_simps 1(3) [symmetric] 2(3) [symmetric])
qed

end

end
