(* ===== verification/BoxMap.thy ===== *)
theory BoxMap
  imports BoxTable Sessions BoundedMap
begin

text \<open>
  The table of boxes keeps the contract of a bounded map, and the checks of the create
  handler are the client of that contract.
\<close>

section \<open>Counting\<close>

lemma box_table_dom:
  assumes "boxes_ok s"
  shows "dom (box_table s) = (\<lambda>i. c_str (b_name (boxes s ! i))) ` {i. i < MAX_BOXES \<and> \<not> free_boxes s ! i}"
proof (intro set_eqI iffI)
  fix nm assume d: "nm \<in> dom (box_table s)"
  then have ne: "nm \<noteq> []" by (auto simp: box_table_def)
  from d obtain v where "box_table s nm = Some v" by blast
  with box_table_Some [OF assms ne] obtain i where i: "i < MAX_BOXES" "box_named s nm i" by blast
  then have "\<not> free_boxes s ! i" using ne boxes_okD(6) [OF assms i(1)] by (auto simp: box_named_def)
  then show "nm \<in> (\<lambda>i. c_str (b_name (boxes s ! i))) ` {i. i < MAX_BOXES \<and> \<not> free_boxes s ! i}"
    using i by (auto simp: box_named_def)
next
  fix nm assume "nm \<in> (\<lambda>i. c_str (b_name (boxes s ! i))) ` {i. i < MAX_BOXES \<and> \<not> free_boxes s ! i}"
  then obtain i where i: "i < MAX_BOXES" "\<not> free_boxes s ! i" "box_named s nm i" by (auto simp: box_named_def)
  then have "nm \<noteq> []" using boxes_okD(6) [OF assms i(1)] by auto
  then show "nm \<in> dom (box_table s)" using i box_table_Some [OF assms] by blast
qed

lemma num_boxes_dom:
  assumes "boxes_ok s" shows "num_boxes s = int (card (dom (box_table s)))"
proof -
  let ?U = "{i. i < MAX_BOXES \<and> \<not> free_boxes s ! i}"
  have "inj_on (\<lambda>i. c_str (b_name (boxes s ! i))) ?U"
  proof (rule inj_onI)
    fix i j assume "i \<in> ?U" "j \<in> ?U" and e: "c_str (b_name (boxes s ! i)) = c_str (b_name (boxes s ! j))"
    then have ij: "i < MAX_BOXES" "j < MAX_BOXES" "\<not> free_boxes s ! i" by simp_all
    then have "c_str (b_name (boxes s ! i)) \<noteq> []" using boxes_okD(6) [OF assms ij(1)] by (simp add: box_named_def)
    then show "i = j" using boxes_okD(7) [OF assms _ _ _ ij(1,2)] e by (simp add: box_named_def)
  qed
  then have "card (dom (box_table s)) = card ?U" unfolding box_table_dom [OF assms] by (rule card_image)
  then show ?thesis using boxes_okD(3) [OF assms] by simp
qed

lemma num_boxes_max:
  assumes "boxes_ok s" shows "num_boxes s \<le> int MAX_BOXES"
proof -
  have "card {i. i < MAX_BOXES \<and> \<not> free_boxes s ! i} \<le> card {..<MAX_BOXES}" by (rule card_mono) auto
  then show ?thesis using boxes_okD(3) [OF assms] by simp
qed

section \<open>The contract\<close>

text \<open>A name as a session keeps it: an array of full size with a string that is not empty.\<close>

definition box_key :: "byte list \<Rightarrow> bool" where
  "box_key name \<longleftrightarrow> is_cstr name \<and> length name = BOX_NAME_LENGTH + 1 \<and> c_str name \<noteq> []"

interpretation box_map: bounded_map get_box "create_box False" num_boxes "int MAX_BOXES" box_key c_str box_table
  "(0, 0, 0)" boxes_ok
proof
  fix s :: broker and name
  assume ok: "boxes_ok s"
  show "num_boxes s = int (card (dom (box_table s)))" by (rule num_boxes_dom [OF ok])
  show "num_boxes s \<le> int MAX_BOXES" by (rule num_boxes_max [OF ok])
  assume "box_key name"
  then have k: "is_cstr name" "length name = BOX_NAME_LENGTH + 1" "c_str name \<noteq> []" by (simp_all add: box_key_def)
  show "wp (get_box name) (\<lambda>r s'. s' = s \<and> (r = None \<longleftrightarrow> box_table s (c_str name) = None)) s"
    using k(3) by (simp add: wp_def get_box_eq [OF ok k(1)] box_table_def)
  assume "num_boxes s < int MAX_BOXES" and new: "box_table s (c_str name) = None"
  from free_slot [OF ok this(1)] obtain i where i: "first_index (\<lambda>i. free_boxes s ! i) MAX_BOXES = Some i" .
  show "wp (create_box False name) (\<lambda>r s'. r = 0 \<and> boxes_ok s' \<and> box_table s' = (box_table s)(c_str name \<mapsto> (0, 0, 0))) s"
    using created_box_ok [OF ok k new i] by (simp add: wp_def create_box_eq [OF ok k(2) i])
qed

text \<open>What the create handler does under the lock of the boxes is the client's check.\<close>

lemma try_create_box_add_new:
  "try_create_box False = add_new num_boxes (int MAX_BOXES) get_box (create_box False)
     (- 1, error_text ''Reached max number of boxes'') (- 1, error_text ''Box already exists'')
     (- 1, error_text ''Failed to create box'') (0, error_text '''')"
  by (intro ext) (simp add: try_create_box_def add_new_def)

end
