(* ===== verification/HandlerProps.thy ===== *)
theory HandlerProps
  imports Handlers BrokerExample BoxMap
begin

text \<open>
  What the manager's requests do to the broker: the table of boxes as a map, the files, the
  answers.
\<close>

section \<open>Looking up\<close>

text \<open>C24: get_box, a search with strcmp, finds a box exactly when the map from names to boxes
  has one, and then the box the map has; the state stays as it is. The empty name is
  different: it finds the first slot that is not in use.\<close>

theorem get_box_looks_up:
  assumes "boxes_ok s" "is_cstr name"
  shows "wp (get_box name) (\<lambda>r s'. s' = s \<and>
    (if c_str name = [] then r = first_index (\<lambda>i. free_boxes s ! i) MAX_BOXES
     else map_option (\<lambda>i. box_data (boxes s ! i)) r = box_table s (c_str name))) s"
proof -
  have "first_index (box_named s []) MAX_BOXES = first_index (\<lambda>i. free_boxes s ! i) MAX_BOXES"
    using boxes_okD(6) [OF assms(1)] by (intro first_index_cong) simp
  then show ?thesis
    by (auto simp: wp_def get_box_eq [OF assms] box_table_def)
qed

theorem get_box_looks_up_witness:
  "wp (get_box box_name_a) (\<lambda>r s'. s' = ex_broker [] \<and>
     map_option (\<lambda>i. box_data (boxes (ex_broker []) ! i)) r = box_table (ex_broker []) [47, 97]) (ex_broker [])"
  using get_box_looks_up [OF ex_boxes_ok box_name_a(1), of "[]"] by (simp add: box_name_a(2))

section \<open>create\<close>

text \<open>C3: The handler of a create request: a new name is added to the table with empty
  counters and gets an empty file, a known one is left as it is; the invariant of the table
  and the one of the file system are kept, the lock is free again, and the manager's pipe
  has the answer with the return code and message of the case.\<close>

theorem create_box_answered:
  assumes "manager_session s cls c OP_CODE_CREATE_BOX fd later" "boxes_ok s" "num_boxes s < int MAX_BOXES"
    and "room_for (tfs s) (cl_box_name (cls ! c))" "name = cl_box_name (cls ! c)"
  shows "wp (handle_tfs_create_box False c) (\<lambda>r s'. r = 0 \<and> boxes_ok s' \<and> boxes_lock s' = Unlocked \<and>
    box_table s' = (if box_table s (c_str name) = None then (box_table s)(c_str name \<mapsto> (0, 0, 0)) else box_table s) \<and>
    outbox s' fd = outbox s fd @ (if box_table s (c_str name) = None
      then answer_frame OP_CODE_CREATE_BOX_ANSWER 0 ''''
      else answer_frame OP_CODE_CREATE_BOX_ANSWER (- 1) ''Box already exists'') \<and>
    fs_inv (tfs s') \<and>
    file_of (tfs s') name = (if a_names (afs_of (tfs s)) (fname name) = None then Some [] else file_of (tfs s) name)) s"
  using create_answer [OF assms(1-4)] unfolding assms(5) create_code_def
  by (rule wp_mono) (simp del: afs_of_sel)

definition ex_creator :: broker where
  "ex_creator = (ex_broker [])\<lparr>num_boxes := 0, boxes := replicate 64 unused_box, free_boxes := replicate 64 True, tfs := bx1,
     clients := Some [idle_session, idle_session,
       idle_session\<lparr>cl_opcode := OP_CODE_CREATE_BOX, cl_box_name := box_name_a\<rparr>]\<rparr>"

lemma pipename_p: "is_cstr (field 256 [112])" "c_str (field 256 [112]) = [112]"
  by (simp_all add: is_cstr_field c_str_field)

lemma unused_name: "c_str (replicate 32 0 :: byte list) = []" "is_cstr (replicate 32 0 :: byte list)"
  by (simp_all add: c_str_def is_cstr_def numeral_eq_Suc)

lemma ex_creator_ok: "boxes_ok ex_creator" "box_table ex_creator = Map.empty"
proof -
  show 1: "boxes_ok ex_creator"
    by (simp add: boxes_ok_def ex_creator_def unused_box_def unused_name wire_sizes)
  have "\<not> box_named ex_creator nm i" if "nm \<noteq> []" "i < 64" for nm i
    using that by (simp add: box_named_def ex_creator_def unused_box_def unused_name)
  then show "box_table ex_creator = Map.empty"
    by (auto simp: box_table_def fun_eq_iff first_index_None MAX_BOXES_def)
qed

lemma bx1_sizes: "dir_vacant (dir_slots bx1 0) \<noteq> None" "INODE_TABLE_SIZE bx1 = 2" "MAX_OPEN_FILES bx1 = 4"
  by code_simp+

lemma ex_creator_room: "room_for bx1 box_name_a"
proof -
  have "first_index (\<lambda>i. 0 < i \<and> a_files a_empty i = None) 2 = Some 1" "first_index (\<lambda>h. a_handles a_empty (int h) = None) 4 = Some 0"
    by (auto simp: first_index_Some a_empty_def)
  then have "0 \<le> fst (a_open 2 4 True [97] TFS_O_CREAT a_empty)"
    by (simp add: a_open_def creat_flags a_attach_def a_empty_def MAX_FILE_NAME_def)
  then show ?thesis
    using bx1_inv bx1_sizes by (simp add: room_for_def box_name_a del: afs_of_sel)
qed

theorem create_box_answered_witness:
  "wp (handle_tfs_create_box False 2) (\<lambda>r s'. r = 0 \<and> boxes_ok s' \<and> box_table s' = [[47, 97] \<mapsto> (0, 0, 0)] \<and>
     outbox s' 7 = answer_frame OP_CODE_CREATE_BOX_ANSWER 0 '''' \<and> file_of (tfs s') box_name_a = Some []) ex_creator"
proof -
  let ?cls = "[idle_session, idle_session, idle_session\<lparr>cl_opcode := OP_CODE_CREATE_BOX, cl_box_name := box_name_a\<rparr>]"
  have m: "manager_session ex_creator ?cls 2 OP_CODE_CREATE_BOX 7 []"
    by (simp add: manager_session_def ex_creator_def ex_broker_sel idle_session_def pipename_p box_name_a)
  have r: "room_for (tfs ex_creator) (cl_box_name (?cls ! 2))" using ex_creator_room by (simp add: ex_creator_def)
  have n: "num_boxes ex_creator < int MAX_BOXES" by (simp add: ex_creator_def MAX_BOXES_def)
  have o: "outbox ex_creator 7 = []" "tfs ex_creator = bx1" by (simp_all add: ex_creator_def ex_broker_sel)
  show ?thesis
    by (rule wp_mono [OF create_box_answered [OF m ex_creator_ok(1) n r, of box_name_a]])
      (simp_all add: o bx1_inv(2) a_empty_def ex_creator_ok(2) box_name_a(2) del: afs_of_sel)
qed

section \<open>remove\<close>





section \<open>Any number of creations\<close>

text \<open>C4: The checks of the create handler make the table of boxes a map of bounded size: any
  sequence of names with which it is run under the lock of the boxes, one after the other,
  gives the codes and error texts, and leaves the table, that adding the names to a map
  gives: "Reached max number of boxes" once there are MAX_BOXES names, "Box already exists"
  for a known name, and otherwise (malloc returning memory) a new entry without bytes,
  publishers and subscribers.\<close>

theorem box_creations_refine_map:
  assumes "boxes_ok s" "list_all box_key names"
  shows "wp (run_all (try_create_box False) names) (\<lambda>rs s'. boxes_ok s' \<and>
    (rs, box_table s') = map_add_all (int MAX_BOXES) (- 1, error_text ''Reached max number of boxes'')
      (- 1, error_text ''Box already exists'') (0, error_text '''') (0, 0, 0) (box_table s) (map c_str names)) s"
  unfolding try_create_box_add_new by (rule box_map.add_all_spec [OF assms])

theorem box_creations_refine_map_witness:
  "wp (run_all (try_create_box False) [box_name_a, box_name_a]) (\<lambda>rs s'. boxes_ok s' \<and>
     rs = [(0, error_text ''''), (- 1, error_text ''Box already exists'')] \<and> box_table s' = [[47, 97] \<mapsto> (0, 0, 0)]) ex_creator"
proof -
  have "list_all box_key [box_name_a, box_name_a]" by (simp add: box_key_def box_name_a)
  then show ?thesis
    by (rule wp_mono [OF box_creations_refine_map [OF ex_creator_ok(1)]])
      (simp add: ex_creator_ok(2) box_name_a(2) map_add_def MAX_BOXES_def)
qed

end
