(* ===== verification/Endings.thy ===== *)
theory Endings
  imports Sessions
begin

text \<open>
  When the loops of the broker end: a bound of the iterations in what there is to read, and
  beyond it a result that does not depend on the bound.
\<close>

section \<open>What is left to read\<close>

text \<open>An upper bound of the reads that find something, or fail.\<close>

definition weight :: "arrival list \<Rightarrow> nat" where
  "weight xs = sum_list (map (\<lambda>a. case a of Chunk bs \<Rightarrow> Suc (length bs) | Read_fails _ \<Rightarrow> 1) xs)"

lemma weight_simps [simp]:
  "weight [] = 0" "weight (Chunk bs # xs) = Suc (length bs) + weight xs" "weight (Read_fails e # xs) = Suc (weight xs)"
  by (simp_all add: weight_def)

lemma sys_read_weight:
  assumes "sys_read fd count s = Inr ((n, bs), s')"
  shows "(\<forall>p. weight (inbox s' p) \<le> weight (inbox s p)) \<and> (0 < n \<longrightarrow> weight (inbox s' fd) < weight (inbox s fd)) \<and>
    (\<exists>i e. s' = s\<lparr>inbox := i, errno := e\<rparr>)"
proof -
  have upd: "\<exists>i e. s\<lparr>inbox := j\<rparr> = s\<lparr>inbox := i, errno := e\<rparr>" "\<exists>i e. s\<lparr>errno := d\<rparr> = s\<lparr>inbox := i, errno := e\<rparr>"
    "\<exists>i e. s = s\<lparr>inbox := i, errno := e\<rparr>" "\<exists>i e. s\<lparr>inbox := j, errno := d\<rparr> = s\<lparr>inbox := i, errno := e\<rparr>" for j d
    by (rule exI [of _ j], rule exI [of _ "errno s"], simp, rule exI [of _ "inbox s"], rule exI [of _ d], simp,
        rule exI [of _ "inbox s"], rule exI [of _ "errno s"], simp, rule exI [of _ j], rule exI [of _ d], simp)
  show ?thesis
    using assms upd by (auto simp: sys_read_def split: if_splits list.splits arrival.splits)
qed

lemma try_read_weight:
  assumes "try_read fd count s = Inr ((n, bs), s')"
  shows "(\<forall>p. weight (inbox s' p) \<le> weight (inbox s p)) \<and> (0 < n \<longrightarrow> weight (inbox s' fd) < weight (inbox s fd)) \<and>
    (\<exists>i e. s' = s\<lparr>inbox := i, errno := e\<rparr>)"
  using assms
proof (induction fd count s rule: try_read.induct)
  case (1 fd count s)
  obtain m cs s1 where r: "sys_read fd count s = Inr ((m, cs), s1)"
    using 1(2) by (subst (asm) try_read.simps) (auto split: sum.splits)
  note w = sys_read_weight [OF r]
  show ?case
  proof (cases "m < 0 \<and> errno s1 = EINTR")
    case True
    then have again: "try_read fd count s1 = Inr ((n, bs), s')"
      using 1(2) by (subst (asm) try_read.simps) (simp add: r)
    have ih: "(\<forall>p. weight (inbox s' p) \<le> weight (inbox s1 p)) \<and> (0 < n \<longrightarrow> weight (inbox s' fd) < weight (inbox s1 fd)) \<and>
        (\<exists>i e. s' = s1\<lparr>inbox := i, errno := e\<rparr>)"
      by (rule 1(1) [OF r _ _ True again]) simp_all
    from ih obtain i e where "s' = s1\<lparr>inbox := i, errno := e\<rparr>" by blast
    moreover from w obtain j d where "s1 = s\<lparr>inbox := j, errno := d\<rparr>" by blast
    ultimately have "s' = s\<lparr>inbox := i, errno := e\<rparr>" by simp
    then have "\<exists>i e. s' = s\<lparr>inbox := i, errno := e\<rparr>" by blast
    moreover have "\<forall>p. weight (inbox s' p) \<le> weight (inbox s p)" using ih w by (meson le_trans)
    moreover have "0 < n \<longrightarrow> weight (inbox s' fd) < weight (inbox s fd)"
      using conjunct1 [OF conjunct2 [OF ih]] conjunct1 [OF w] by (meson less_le_trans)
    ultimately show ?thesis by blast
  next
    case False
    then have "n = m" "s' = s1" using 1(2) by (subst (asm) try_read.simps; auto simp: r)+
    then show ?thesis using w by simp
  qed
qed

section \<open>Programs that leave the pipes and the sessions as they are\<close>

definition keeps :: "'a mb \<Rightarrow> bool" where
  "keeps m \<longleftrightarrow> (\<forall>s x s'. m s = Inr (x, s') \<longrightarrow> inbox s' = inbox s \<and> clients s' = clients s \<and> server_pipe s' = server_pipe s)"

named_theorems keeps "programs that keep the pipes and the sessions"

lemma keeps_basic [keeps]:
  "keeps (ret x)" "keeps (stop a)" "keeps (gets f)" "keeps (defined v)" "keeps (in_tfs t)" "keeps (in_queue q)"
  "keeps (client_at c)" "keeps (box_at i)" "keeps (set_box i g)"
  by (auto simp: keeps_def prog_simps defined_def in_tfs_def in_queue_def zoom_def client_at_def rd_def box_at_def
      set_box_def split: sum.splits option.splits if_splits)

lemma keeps_bind [keeps]: "keeps m \<Longrightarrow> (\<And>x. keeps (f x)) \<Longrightarrow> keeps (bind m f)"
  unfolding keeps_def bind_app by (auto split: sum.splits)

lemma keeps_locks [keeps]:
  "keeps (lock_box i)" "keeps (unlock_box i)" "keeps (client_box c)" "keeps (broadcast i)"
  by (auto simp: lock_box_def unlock_box_def client_box_def broadcast_def take_lock_def give_lock_def modify_def keeps_def
      bind_def box_at_def set_box_def client_at_def rd_def ret_def stop_def
      split: lock_state.splits box_ref.splits sum.splits if_splits option.splits)

section \<open>A publisher's session ends\<close>

definition finished :: "session_end mb \<Rightarrow> broker \<Rightarrow> bool" where
  "finished m s \<longleftrightarrow> (\<forall>s'. m s \<noteq> Inr (Unfinished, s'))"

lemma finished_bind:
  assumes "keeps m"
    and "\<And>x s'. inbox s' = inbox s \<Longrightarrow> clients s' = clients s \<Longrightarrow> finished (f x) s'"
  shows "finished (bind m f) s"
  using assms by (auto simp: finished_def keeps_def bind_app split: sum.splits)

lemma finished_client:
  "finished (f (the (clients s) ! c)) s \<Longrightarrow> finished (bind (client_at c) f) s"
  by (auto simp: finished_def bind_app client_at_def rd_def split: option.splits)

lemma finished_andthen:
  "keeps m \<Longrightarrow> (\<And>s'. inbox s' = inbox s \<Longrightarrow> clients s' = clients s \<Longrightarrow> finished n s') \<Longrightarrow> finished (andthen m n) s"
  unfolding andthen_def by (rule finished_bind)

lemma finished_returns: "finished (ret (Returns v)) s" "finished (finish_and c v) s"
  by (auto simp: finished_def finish_and_def prog_simps split: sum.splits)

lemma finished_read:
  assumes "\<And>n bs s'. weight (inbox s' fd) \<le> weight (inbox s fd) \<Longrightarrow> (0 < n \<Longrightarrow> weight (inbox s' fd) < weight (inbox s fd)) \<Longrightarrow>
      clients s' = clients s \<Longrightarrow> finished (f (n, bs)) s'"
  shows "finished (bind (try_read fd count) f) s"
  unfolding finished_def bind_app
proof (clarsimp split: sum.splits)
  fix n bs s1 s2
  assume r: "try_read fd count s = Inr ((n, bs), s1)" and f: "f (n, bs) s1 = Inr (Unfinished, s2)"
  from try_read_weight [OF r] have "finished (f (n, bs)) s1" by (intro assms) auto
  with f show False by (simp add: finished_def)
qed

lemma finished_if: "(b \<Longrightarrow> finished m s) \<Longrightarrow> (\<not> b \<Longrightarrow> finished n s) \<Longrightarrow> finished (if b then m else n) s"
  by simp

lemmas finished_rules = finished_if finished_andthen finished_bind finished_returns

lemma publisher_loop_finished:
  "weight (inbox s (cl_pipe (the (clients s) ! c))) < n \<Longrightarrow> finished (publisher_loop n c message) s"
proof (induction n arbitrary: s message)
  case (Suc n)
  let ?cl = "the (clients s) ! c"
    let ?rest = "\<lambda>message box. andthen (lock_box box)
       (bind (box_at box) (\<lambda>b.
       bind (in_tfs (tfs_open (Some (b_name b)) TFS_O_APPEND)) (\<lambda>fhandle.
       if fhandle < 0 then finish_and c (- 1)
       else
         bind (defined (c_strlen message)) (\<lambda>len.
         bind (in_tfs (tfs_write fhandle message (of_nat (len + 1)))) (\<lambda>bytes_written.
         if bytes_written < 0 then finish_and c (- 1)
         else if bytes_written < int (len + 1) then finish_and c 0
         else
           andthen (set_box box (\<lambda>b. b\<lparr>b_size := b_size b + of_nat (len + 1)\<rparr>))
           (bind (broadcast box) (\<lambda>r.
            if r \<noteq> 0 then finish_and c (- 1)
            else andthen (unlock_box box) (publisher_loop n c message))))))))"
    have rest: "finished (?rest message box) s'"
      if "weight (inbox s' (cl_pipe ?cl)) < n" "clients s' = clients s" for message box s'
      using that by (intro finished_rules keeps Suc.IH) simp_all
  show ?case
    unfolding publisher_loop.simps
    by (intro finished_client finished_read, unfold prod.case Let_def, intro finished_if finished_returns finished_read,
        unfold prod.case Let_def, intro finished_if finished_returns finished_bind keeps rest)
      (use Suc.prems in auto)
qed simp

section \<open>The requests on the broker's pipe come to an end\<close>

definition lessens :: "'a mb \<Rightarrow> bool" where
  "lessens m \<longleftrightarrow> (\<forall>s x s'. m s = Inr (x, s') \<longrightarrow> server_pipe s' = server_pipe s \<and>
     (\<forall>p. weight (inbox s' p) \<le> weight (inbox s p)))"

lemma lessens_keeps: "keeps m \<Longrightarrow> lessens m"
  by (simp add: keeps_def lessens_def)

lemma lessens_bind: "lessens m \<Longrightarrow> (\<And>x. lessens (f x)) \<Longrightarrow> lessens (bind m f)"
  unfolding lessens_def bind_app by (auto split: sum.splits) (meson le_trans)

lemma lessens_try_read: "lessens (try_read fd n)"
  unfolding lessens_def
proof (intro allI impI)
  fix s s' :: broker and x
  assume r: "try_read fd n s = Inr (x, s')"
  obtain m bs where x: "x = (m, bs)" by (cases x)
  from try_read_weight [OF r [unfolded x]] obtain i e where
    "\<forall>p. weight (inbox s' p) \<le> weight (inbox s p)" "s' = s\<lparr>inbox := i, errno := e\<rparr>" by blast
  then show "server_pipe s' = server_pipe s \<and> (\<forall>p. weight (inbox s' p) \<le> weight (inbox s p))" by simp
qed

lemma lessens_read_pipe: "(\<And>bs. lessens (f bs)) \<Longrightarrow> lessens (read_pipe fd n f)"
  unfolding read_pipe_def
  by (intro lessens_bind lessens_try_read) (auto simp: lessens_keeps keeps)

lemma lessens_parser: "lessens (parser mem op_code)"
proof -
  have enq: "lessens (enqueue_request rq)" for rq
    unfolding enqueue_request_def by (intro lessens_keeps keeps) (simp add: keeps)
  show ?thesis
    unfolding parser_def Let_def
    by (auto intro!: lessens_bind lessens_read_pipe enq simp: lessens_keeps keeps split: option.splits)
qed

lemma accept_requests_finished:
  "weight (inbox s (server_pipe s)) < n \<Longrightarrow> accept_requests mem n s \<noteq> Inr (None, s')"
proof (induction n arbitrary: s)
  case (Suc n)
  show ?case
  proof
    assume a: "accept_requests mem (Suc n) s = Inr (None, s')"
    then obtain m bs s1 where r: "try_read (server_pipe s) 1 s = Inr ((m, bs), s1)" "0 < m"
      by (auto simp: prog_simps split: sum.splits if_splits)
    from a r obtain v s2 where p: "parser (mem n) (hd bs) s1 = Inr (v, s2)" "accept_requests mem n s2 = Inr (None, s')"
      by (auto simp: prog_simps split: sum.splits if_splits)
    from try_read_weight [OF r(1)] r(2) have "weight (inbox s1 (server_pipe s)) < weight (inbox s (server_pipe s))" "server_pipe s1 = server_pipe s"
      by auto
    moreover from lessens_parser p(1) have "server_pipe s2 = server_pipe s1" "weight (inbox s2 (server_pipe s)) \<le> weight (inbox s1 (server_pipe s))"
      unfolding lessens_def by blast+
    ultimately show False using Suc.IH [of s2] Suc.prems p(2) by simp
  qed
qed simp

section \<open>More iterations give the same\<close>

text \<open>Where \<open>m\<close> does not end with the value \<open>b\<close>, \<open>m'\<close> does the same.\<close>

definition agree :: "'a \<Rightarrow> 'a mb \<Rightarrow> 'a mb \<Rightarrow> bool" where
  "agree b m m' \<longleftrightarrow> (\<forall>s. (\<forall>s'. m s \<noteq> Inr (b, s')) \<longrightarrow> m' s = m s)"

lemma agree_refl: "agree b m m"
  by (simp add: agree_def)

lemma agree_unfinished: "agree b (ret b) m"
  by (simp add: agree_def ret_def)

lemma agree_bind: "(\<And>x. agree b (f x) (g x)) \<Longrightarrow> agree b (bind m f) (bind m g)"
  by (auto simp: agree_def bind_app split: sum.splits)

lemma agree_andthen: "agree b n n' \<Longrightarrow> agree b (andthen m n) (andthen m n')"
  unfolding andthen_def by (rule agree_bind)

lemma agree_if: "agree b m m' \<Longrightarrow> agree b n n' \<Longrightarrow> agree b (if c then m else n) (if c then m' else n')"
  by simp

lemma agree_prod: "(\<And>x y. agree b (f x y) (g x y)) \<Longrightarrow> agree b (case p of (x, y) \<Rightarrow> f x y) (case p of (x, y) \<Rightarrow> g x y)"
  by (cases p) simp

lemmas agree_rules = agree_bind agree_andthen agree_if agree_prod

lemma publisher_loop_more: "agree Unfinished (publisher_loop n c message) (publisher_loop (n + k) c message)"
proof (induction n arbitrary: message)
  case (Suc n)
  show ?case
    unfolding publisher_loop.simps add_Suc Let_def by (intro agree_rules Suc.IH agree_refl)
qed (simp add: agree_unfinished)

end
