(* ===== verification/Queued.thy ===== *)
theory Queued
  imports Endings Requests
begin

text \<open>
  The shape of the requests in the queue: whatever bytes arrive at the broker's pipe, the
  arrays of a request that is enqueued have the size that the sessions copy.
\<close>

definition fits :: "request_t \<Rightarrow> bool" where
  "fits rq \<longleftrightarrow> rq_opcode rq \<le> 7 \<and> length (rq_pipename rq) = CLIENT_NAMED_PIPE_PATH_LENGTH + 1 \<and>
     length (rq_box_name rq) = BOX_NAME_LENGTH + 1"

definition queue_fits :: "broker \<Rightarrow> bool" where
  "queue_fits s \<longleftrightarrow> pcq_ok (pc_queue s) \<and> list_all fits (pcq_items (pc_queue s))"

text \<open>Programs that, if they return, leave the queue in this shape.\<close>

definition stays :: "'a mb \<Rightarrow> bool" where
  "stays m \<longleftrightarrow> (\<forall>s x s'. queue_fits s \<longrightarrow> m s = Inr (x, s') \<longrightarrow> queue_fits s')"

named_theorems stays "programs that keep the shape of the queue"

lemma stays_basic [stays]: "stays (ret x)" "stays (stop a)" "stays (gets f)" "stays (defined v)"
  by (auto simp: stays_def prog_simps split: option.splits)

lemma stays_bind [stays]: "stays m \<Longrightarrow> (\<And>x. stays (f x)) \<Longrightarrow> stays (bind m f)"
  unfolding stays_def
proof (intro allI impI)
  fix s y s'
  assume m: "\<forall>s x s'. queue_fits s \<longrightarrow> m s = Inr (x, s') \<longrightarrow> queue_fits s'"
    and f: "\<And>x. \<forall>s y s'. queue_fits s \<longrightarrow> f x s = Inr (y, s') \<longrightarrow> queue_fits s'"
    and q: "queue_fits s" and b: "bind m f s = Inr (y, s')"
  from b obtain x s1 where "m s = Inr (x, s1)" "f x s1 = Inr (y, s')"
    by (auto simp: bind_app split: sum.splits)
  with m f q show "queue_fits s'" by blast
qed

lemma stays_defined [stays]: "(\<And>x. v = Some x \<Longrightarrow> stays (f x)) \<Longrightarrow> stays (bind (defined v) f)"
  by (cases v) (simp_all add: stays_def prog_simps)

lemma stays_if [stays]: "(c \<Longrightarrow> stays m) \<Longrightarrow> (\<not> c \<Longrightarrow> stays n) \<Longrightarrow> stays (if c then m else n)"
  by simp

lemma stays_try_read [stays]: "stays (try_read fd n)"
  unfolding stays_def
proof (intro allI impI)
  fix s s' :: broker and x
  assume q: "queue_fits s" and r: "try_read fd n s = Inr (x, s')"
  obtain m bs where x: "x = (m, bs)" by (cases x)
  from try_read_weight [OF r [unfolded x]] obtain i e where "s' = s\<lparr>inbox := i, errno := e\<rparr>" by blast
  then show "queue_fits s'" using q by (simp add: queue_fits_def)
qed

lemma stays_read_pipe [stays]: "(\<And>bs. stays (f bs)) \<Longrightarrow> stays (read_pipe fd n f)"
  unfolding read_pipe_def by (intro stays_bind stays_try_read) (auto intro: stays)

lemma stays_enqueue: "fits rq \<Longrightarrow> stays (enqueue_request rq)"
proof -
  assume rq: "fits rq"
  have "queue_fits s'" if "queue_fits s" "in_queue (pcq_enqueue rq) s = Inr (x, s')" for s x s'
  proof -
    have ok: "pcq_ok (pc_queue s)" using that(1) by (simp add: queue_fits_def)
    show ?thesis
      using that pcq_enqueue_eq [OF ok, of rq] pushed_queue_ok [OF ok, of rq] rq
      by (auto simp: in_queue_def zoom_def queue_fits_def split: if_splits)
  qed
  then have "stays (in_queue (pcq_enqueue rq))" by (auto simp: stays_def)
  then show ?thesis unfolding enqueue_request_def by (intro stays_bind stays_if stays_basic)
qed

lemma stays_parser:
  assumes "\<And>rq. mem = Some rq \<Longrightarrow> length (rq_box_name rq) = BOX_NAME_LENGTH + 1"
  shows "stays (parser mem op_code)"
proof (cases mem)
  case None
  then show ?thesis by (simp add: parser_def stays_basic)
next
  case (Some rq)
  have "stays (enqueue_request (rq\<lparr>rq_opcode := op_code, rq_pipename := pn, rq_box_name := bn\<rparr>))"
    if "\<not> op_code > 7" "c_strncpy b (CLIENT_NAMED_PIPE_PATH_LENGTH + 1) = Some pn"
      "c_strncpy b' (BOX_NAME_LENGTH + 1) = Some bn" for b b' pn bn
    using that(1) length_c_strncpy [OF that(2)] length_c_strncpy [OF that(3)]
    by (intro stays_enqueue) (simp add: fits_def)
  moreover have "stays (enqueue_request (rq\<lparr>rq_opcode := op_code, rq_pipename := pn\<rparr>))"
    if "\<not> op_code > 7" "c_strncpy b (CLIENT_NAMED_PIPE_PATH_LENGTH + 1) = Some pn" for b pn
    using that(1) length_c_strncpy [OF that(2)] assms [OF Some] by (intro stays_enqueue) (simp add: fits_def)
  ultimately show ?thesis
    unfolding parser_def Some option.case Let_def
    by (intro stays_if stays_basic stays_bind [OF stays_basic(3)] stays_read_pipe stays_defined) simp_all
qed

lemma stays_accept_requests:
  assumes "\<And>i rq. mem i = Some rq \<Longrightarrow> length (rq_box_name rq) = BOX_NAME_LENGTH + 1"
  shows "stays (accept_requests mem n)"
proof (induction n)
  case (Suc n)
  then show ?case
    by (auto intro!: stays_bind stays_if stays_try_read stays_parser assms intro: stays_basic)
qed (simp add: stays_basic)

end
