(* ===== verification/SessionProps.thy ===== *)
theory SessionProps
  imports Queued HandlerProps WireProps
begin

text \<open>
  Sessions as a whole: that they end, and a request after which the server does not go on.
\<close>

section \<open>Ends\<close>








section \<open>A busy box\<close>

lemma dequeue_request:
  assumes "pcq_ok q" "pcq_items q = rq # rest"
  shows "pcq_dequeue q = Inr (Some rq, popped_queue q)"
proof -
  have "pcq_current_size q \<noteq> 0" using assms(2) by (auto simp: pcq_items_def)
  then show ?thesis using pcq_dequeue_eq [OF assms(1)] popped_queue_ok(3) [OF assms(1)] assms(2) by simp
qed

text \<open>The first session is joined and the process exits before the others are.\<close>

lemma close_server_joins:
  assumes "clients s = Some cls" "0 < length cls" "max_sessions s \<noteq> 0"
  shows "close_server self exit_code s = Inl (if self = Some 0 then Exit 1 else Blocked)"
proof -
  have "client_at 0 s = Inr (cls ! 0, s)" using assms(1,2) by (rule client_at_app)
  then show ?thesis using assms(3) by (simp add: close_server_def free_client_def prog_simps word_neq_0_conv)
qed

text \<open>A request as \<open>parser\<close> leaves it in the queue.\<close>

definition request_ok :: "request_t \<Rightarrow> bool" where
  "request_ok rq \<longleftrightarrow> length (rq_pipename rq) = CLIENT_NAMED_PIPE_PATH_LENGTH + 1 \<and> is_cstr (rq_pipename rq) \<and>
     length (rq_box_name rq) = BOX_NAME_LENGTH + 1 \<and> is_cstr (rq_box_name rq)"

text \<open>C28: A second publisher takes the server down. A session that has served a client before
  has no handle; when it gets the request of a publisher for a box that has one, the end of
  the session counts as a major error and the session calls close_server, which joins the
  session with number 0: session 0 itself exits the process, any other waits for ever.\<close>

theorem second_publisher_closes_server:
  assumes "pcq_ok (pc_queue s)" "pcq_items (pc_queue s) = rq # rest" "request_ok rq" "rq_opcode rq = OP_CODE_REGIST_PUB"
    and "clients s = Some cls" "c < length cls" "cl_box_fd (cls ! c) = - 1" "max_sessions s \<noteq> 0"
    and "boxes_ok s" "c_str (rq_box_name rq) \<noteq> []" "box_table s (c_str (rq_box_name rq)) = Some (sz, 1, subs)"
    and "opens s (c_str (rq_pipename rq)) = fd # later" "0 \<le> fd"
  shows "session_turn fuel junk big_junk null c s = Inl (if c = 0 then Exit 1 else Blocked)"
proof -
  note rq = assms(3) [unfolded request_ok_def]
  let ?cl = "(cls ! c)\<lparr>cl_opcode := OP_CODE_REGIST_PUB, cl_pipename := rq_pipename rq, cl_box_name := rq_box_name rq\<rparr>"
  let ?s1 = "s\<lparr>pc_queue := popped_queue (pc_queue s), clients := Some (cls[c := ?cl])\<rparr>"
  let ?s2 = "?s1\<lparr>opens := (opens s)(c_str (rq_pipename rq) := later), open_fds := fd # open_fds s\<rparr>"
  let ?s3 = "?s2\<lparr>clients := Some (cls[c := ?cl\<lparr>cl_pipe := fd\<rparr>])\<rparr>"
  from assms(10,11) obtain i where i: "first_index (box_named s (c_str (rq_box_name rq))) MAX_BOXES = Some i"
    "b_publishers (boxes s ! i) = 1"
    by (auto simp: box_table_def box_data_def)
  then have len: "i < length (boxes s)" using boxes_okD(1) [OF assms(9)] by (simp add: first_index_Some)
  have ok: "boxes_ok ?s3" using assms(9) boxes_ok_cong [of ?s3 s] by simp
  have nm: "box_named ?s3 = box_named s" by (rule box_named_cong) simp
  have get: "get_box (rq_box_name rq) ?s3 = Inr (Some i, ?s3)"
    using get_box_eq [OF ok, of "rq_box_name rq"] rq i(1) unfolding nm by simp
  have op: "sys_open (rq_pipename rq) ?s1 = Inr (fd, ?s2)"
    using sys_open_ok [of "rq_pipename rq" ?s1 fd later] rq assms(12,13) by simp
  let ?s4 = "?s3\<lparr>clients := Some (cls[c := ?cl\<lparr>cl_pipe := fd, cl_box := Box i\<rparr>])\<rparr>"
  have fin: "finish_client_session c ?s4 = Inr (- 1, ?s4\<lparr>open_fds := remove1 fd (fd # open_fds s)\<rparr>)"
    using finish_without_handle [of ?s4 "cls[c := ?cl\<lparr>cl_pipe := fd, cl_box := Box i\<rparr>]" c] assms(5-7)
    by (simp add: op_codes)
  have reg: "handle_tfs_register fuel junk big_junk c ?s1 =
      Inr (Returns (- 1), ?s4\<lparr>open_fds := remove1 fd (fd # open_fds s)\<rparr>)"
    using assms(5,6,13) op get fin len i(2)
    by (simp add: handle_tfs_register_def prog_simps mb_simps)
  have "session_turn fuel junk big_junk null c s =
      close_server (Some c) 1 (?s4\<lparr>open_fds := remove1 fd (fd # open_fds s)\<rparr>)"
    using assms(4-6) rq dequeue_request [OF assms(1,2)] reg
    by (simp add: session_turn_def prog_simps mb_simps in_queue_def zoom_def op_codes)
  also have "\<dots> = Inl (if c = 0 then Exit 1 else Blocked)"
    using assms(6,8) by (subst close_server_joins) auto
  finally show ?thesis .
qed

definition busy_request :: request_t where
  "busy_request = \<lparr>rq_opcode = OP_CODE_REGIST_PUB, rq_pipename = field 256 [112], rq_box_name = box_name_a\<rparr>"

definition busy_broker :: broker where
  "busy_broker = (ex_broker [])\<lparr>pc_queue := \<lparr>pcq_buffer = Some [busy_request, busy_request], pcq_capacity = 2,
     pcq_current_size = 1, pcq_head = 0, pcq_tail = 1, pcq_locks = (\<lambda>_. Unlocked), pcq_conds = (\<lambda>_. True)\<rparr>\<rparr>"

theorem second_publisher_closes_server_witness:
  "session_turn 5 (replicate 1024 0) (replicate 16384 0) False 2 busy_broker = Inl Blocked"
proof -
  have q: "pcq_ok (pc_queue busy_broker)" "pcq_items (pc_queue busy_broker) = busy_request # []"
    by (simp_all add: busy_broker_def pcq_ok_def pcq_items_def pcq_cap_def)
  have r: "request_ok busy_request" "rq_opcode busy_request = OP_CODE_REGIST_PUB"
    by (simp_all add: request_ok_def busy_request_def pipename_p box_name_a CLIENT_NAMED_PIPE_PATH_LENGTH_def)
  have s: "clients busy_broker = Some [session_on_a OP_CODE_REGIST_PUB 0 5, session_on_a OP_CODE_REGIST_SUB 1 6, idle_session]"
    "max_sessions busy_broker \<noteq> 0" "opens busy_broker (c_str (rq_pipename busy_request)) = 7 # []"
    by (simp_all add: busy_broker_def ex_broker_sel busy_request_def pipename_p)
  have ok: "boxes_ok busy_broker"
    using ex_boxes_ok [of "[]"] boxes_ok_cong [of busy_broker "ex_broker []"] by (simp add: busy_broker_def)
  have "box_named busy_broker [47, 97] 0"
    by (simp add: box_named_def busy_broker_def ex_broker_sel used_box_def box_name_a)
  then have "box_table busy_broker [47, 97] = Some (box_data (boxes busy_broker ! 0))"
    by (subst box_table_Some [OF ok]) (auto simp: MAX_BOXES_def intro!: exI [of _ 0])
  then have t: "box_table busy_broker (c_str (rq_box_name busy_request)) = Some (0, 1, 1)"
    by (simp add: busy_request_def box_name_a box_data_def busy_broker_def ex_broker_sel used_box_def)
  show ?thesis
    using second_publisher_closes_server [OF q r s(1) _ _ s(2) ok _ t s(3), of 2]
    by (simp add: idle_session_def busy_request_def box_name_a)
qed

end
