(* ===== verification/ClientProps.thy ===== *)
theory ClientProps
  imports Handlers Requests
begin

text \<open>
  The programs of the clients: what the manager sends and prints for a request, and the
  subscriber's handler of the interrupt signal.
\<close>

section \<open>The manager's requests\<close>

lemma commands:
  "arg_is (arg ''create'') ''create'' m = Inr (True, m)" "arg_is (arg ''create'') ''remove'' m = Inr (False, m)"
  "arg_is (arg ''remove'') ''create'' m = Inr (False, m)" "arg_is (arg ''remove'') ''remove'' m = Inr (True, m)"
proof -
  have "c_strcmp (arg ''create'') (arg ''create'') = Some 0" "c_strcmp (arg ''create'') (arg ''remove'') = Some (- 15)"
    "c_strcmp (arg ''remove'') (arg ''create'') = Some 15" "c_strcmp (arg ''remove'') (arg ''remove'') = Some 0"
    by code_simp+
  then show "arg_is (arg ''create'') ''create'' m = Inr (True, m)" "arg_is (arg ''create'') ''remove'' m = Inr (False, m)"
    "arg_is (arg ''remove'') ''create'' m = Inr (False, m)" "arg_is (arg ''remove'') ''remove'' m = Inr (True, m)"
    by (simp_all add: arg_is_def prog_simps)
qed

text \<open>A client whose pipes open, and that has an answer of the broker on its own one.\<close>

definition answered_client :: "client_os \<Rightarrow> byte list \<Rightarrow> byte list \<Rightarrow> int \<Rightarrow> int \<Rightarrow> byte list \<Rightarrow> bool" where
  "answered_client m reg pipe rfd pfd answer \<longleftrightarrow> is_cstr reg \<and> is_cstr pipe \<and> c_str reg \<noteq> c_str pipe \<and>
     opens m (c_str reg) = [rfd] \<and> opens m (c_str pipe) = [pfd] \<and> 0 \<le> rfd \<and> 0 \<le> pfd \<and> path_calls m = [] \<and>
     accepts m rfd = [] \<and> inbox m pfd = arrived answer []"

definition manager_command :: "byte \<Rightarrow> byte list" where
  "manager_command opcode = (if opcode = OP_CODE_CREATE_BOX then arg ''create'' else arg ''remove'')"

lemma no_path_calls: "is_cstr p \<Longrightarrow> path_calls s = [] \<Longrightarrow> path_call p s = Inr (0, s)"
  by (simp add: path_call_def prog_simps c_strlen_some)

lemma printed_error:
  "0 \<notin> set (chars msg) \<Longrightarrow> length msg \<le> MESSAGE_LENGTH \<Longrightarrow> c_str (take MESSAGE_LENGTH (error_text msg) @ [0]) = chars msg"
proof -
  assume a: "0 \<notin> set (chars msg)" "length msg \<le> MESSAGE_LENGTH"
  have "take MESSAGE_LENGTH (error_text msg) = field MESSAGE_LENGTH (chars msg)"
    using a(2) by (simp add: error_text_def field_def chars_def min_def)
  moreover have "field MESSAGE_LENGTH (chars msg) @ [0] = field (MESSAGE_LENGTH + 1) (chars msg)"
    using a(2) by (simp add: field_def chars_def Suc_diff_le flip: replicate_append_same)
  ultimately show ?thesis using c_str_field [OF a(1)] by simp
qed

lemma read_answer:
  assumes "fd \<in> set (open_fds m)" "length msg \<le> MESSAGE_LENGTH"
  shows "read_pipe fd 1 (\<lambda>_. read_pipe fd 4 (\<lambda>rc. read_pipe fd MESSAGE_LENGTH (F rc)))
      (pipe_left fd (answer_frame opcode code msg) m) =
    F (int32_bytes code) (take MESSAGE_LENGTH (error_text msg)) (pipe_left fd [] m)"
proof -
  let ?em = "take MESSAGE_LENGTH (error_text msg)"
  have em: "?em \<noteq> []" "MESSAGE_LENGTH = length ?em"
    using assms(2) by (auto simp: error_text_def field_def chars_def MESSAGE_LENGTH_def)
  have rc: "int32_bytes code \<noteq> []" by (metis length_int32_bytes list.size(3) zero_neq_numeral)
  note rd = read_pipe_left [OF assms(1)]
  have step: "read_pipe fd 1 k (pipe_left fd ([x] @ xs) m) = k [x] (pipe_left fd xs m)"
    "read_pipe fd 4 k (pipe_left fd (int32_bytes code @ xs) m) = k (int32_bytes code) (pipe_left fd xs m)"
    "read_pipe fd MESSAGE_LENGTH k (pipe_left fd (?em @ xs) m) = k ?em (pipe_left fd xs m)" for k x xs
    by (rule rd, (rule em rc | simp)+)+
  show ?thesis
    using step(3) [of "F (int32_bytes code)" "[]"] by (simp only: answer_frame_def step(1,2) append_Nil2)
qed

lemma manager_answer:
  assumes "answered_client m reg pipe rfd pfd (answer_frame answer_op code msg)"
    and "opcode = OP_CODE_CREATE_BOX \<or> opcode = OP_CODE_REMOVE_BOX" "is_cstr box"
    and "length (c_str pipe) \<le> CLIENT_NAMED_PIPE_PATH_LENGTH" "length (c_str box) \<le> BOX_NAME_LENGTH"
    and "int32_range code" "0 \<notin> set (chars msg)" "length msg \<le> MESSAGE_LENGTH"
  shows "wp (manager_main qsort False [prog, reg, pipe, manager_command opcode, box]) (\<lambda>r m'.
    r = (if code = 0 then 0 else - 1) \<and>
    console m' = console m @ [if code = 0 then Text ''OK'' else Message (chars msg)] \<and>
    outbox m' rfd = outbox m rfd @ opcode # field CLIENT_NAMED_PIPE_PATH_LENGTH (c_str pipe) @
      field BOX_NAME_LENGTH (c_str box)) m"
proof -
  note c = assms(1) [unfolded answered_client_def]
  let ?frame = "opcode # field CLIENT_NAMED_PIPE_PATH_LENGTH (c_str pipe) @ field BOX_NAME_LENGTH (c_str box)"
  let ?m1 = "m\<lparr>opens := (opens m)(c_str reg := []), open_fds := rfd # open_fds m\<rparr>"
  let ?m2 = "?m1\<lparr>outbox := (outbox m)(rfd := outbox m rfd @ ?frame)\<rparr>"
  let ?m3 = "?m2\<lparr>opens := (opens ?m2)(c_str pipe := []), open_fds := pfd # rfd # open_fds m\<rparr>"
  have o1: "sys_open reg m = Inr (rfd, ?m1)" using c by (subst sys_open_ok) auto
  have o2: "sys_open pipe ?m2 = Inr (pfd, ?m3)" using c by (subst sys_open_ok) auto
  have p: "path_call pipe ?m1 = Inr (0, ?m1)" using c by (intro no_path_calls) auto
  have frame: "parse_message False opcode pipe (Some box) = Some ?frame" "length ?frame = 1 + CLIENT_NAMED_PIPE_PATH_LENGTH + BOX_NAME_LENGTH"
    using parse_message_layout(1) [of pipe box opcode] c assms(3-5) by simp_all
  have w: "write_pipe rfd (take (1 + CLIENT_NAMED_PIPE_PATH_LENGTH + BOX_NAME_LENGTH) ?frame) rest ?m1 = rest ?m2" for rest
    using write_pipe_all [of rfd ?m1 ?frame rest] c frame(2) by simp
  have left: "?m3 = pipe_left pfd (answer_frame answer_op code msg) ?m3" using c by (simp add: pipe_left_def fun_upd_idem)
  have fd: "pfd \<in> set (open_fds ?m3)" by simp
  have cmd: "arg_is (manager_command opcode) ''create'' m' = Inr (opcode = OP_CODE_CREATE_BOX, m')"
    "arg_is (manager_command opcode) ''remove'' m' = Inr (opcode = OP_CODE_REMOVE_BOX, m')" for m'
    using assms(2) commands by (auto simp: manager_command_def op_codes)
  have op: "(if opcode = OP_CODE_CREATE_BOX then OP_CODE_CREATE_BOX else OP_CODE_REMOVE_BOX) = opcode"
    using assms(2) by auto
  let ?F = "\<lambda>rc em. if bytes_int32 rc = 0 then andthen (print (Text ''OK'')) (ret 0)
    else andthen (print (Message (c_str (em @ [0])))) (ret (- 1))"
  have "manager_main qsort False [prog, reg, pipe, manager_command opcode, box] m =
      read_pipe pfd 1 (\<lambda>_. read_pipe pfd 4 (\<lambda>rc. read_pipe pfd MESSAGE_LENGTH (?F rc))) ?m3"
    using o1 o2 p w c assms(2) frame(1) op
    by (auto simp: manager_main_def prog_simps cmd sys_unlink_def sys_mkfifo_def Let_def)
  also have "\<dots> = ?F (int32_bytes code) (take MESSAGE_LENGTH (error_text msg)) (pipe_left pfd [] ?m3)"
    by (subst left) (rule read_answer [OF fd assms(8)])
  finally show ?thesis
    using bytes_int32_bytes [OF assms(6)] printed_error [OF assms(7,8)]
    by (simp add: wp_def prog_simps print_def pipe_left_def)
qed

text \<open>C20: For create and remove the manager writes the request with both names to the
  broker's pipe, reads the answer from its own, and prints OK and returns 0 when the return
  code is 0; otherwise it prints the message of the broker and returns -1.\<close>

theorem manager_reports_answer:
  assumes "answered_client m reg pipe rfd pfd (answer_frame answer_op code msg)"
    and "opcode = OP_CODE_CREATE_BOX \<or> opcode = OP_CODE_REMOVE_BOX" "is_cstr box"
    and "length (c_str pipe) \<le> CLIENT_NAMED_PIPE_PATH_LENGTH" "length (c_str box) \<le> BOX_NAME_LENGTH"
    and "int32_range code" "0 \<notin> set (chars msg)" "length msg \<le> MESSAGE_LENGTH"
  shows "wp (manager_main qsort False [prog, reg, pipe, manager_command opcode, box]) (\<lambda>r m'.
    r = (if code = 0 then 0 else - 1) \<and>
    console m' = console m @ [if code = 0 then Text ''OK'' else Message (chars msg)] \<and>
    outbox m' rfd = outbox m rfd @ opcode # field CLIENT_NAMED_PIPE_PATH_LENGTH (c_str pipe) @
      field BOX_NAME_LENGTH (c_str box)) m"
  using assms by (rule manager_answer)

definition ex_refused :: client_os where
  "ex_refused = \<lparr>inbox = (\<lambda>_. [])(4 := arrived (answer_frame OP_CODE_CREATE_BOX_ANSWER (- 1) ''full'') []),
     accepts = (\<lambda>_. []), outbox = (\<lambda>_. []), opens = (\<lambda>_. [])([114] := [3], [112] := [4]), open_fds = [],
     path_calls = [], errno = 0, console = [], message_count = 0, pipe_fd = 0\<rparr>"

theorem manager_reports_answer_witness:
  "wp (manager_main (\<lambda>_ bs. bs) False [arg ''m'', [114, 0], [112, 0], arg ''create'', [47, 97, 0]]) (\<lambda>r m'. r = - 1 \<and>
     console m' = [Message (chars ''full'')] \<and> outbox m' 3 = OP_CODE_CREATE_BOX #
       field CLIENT_NAMED_PIPE_PATH_LENGTH [112] @ field BOX_NAME_LENGTH [47, 97]) ex_refused"
proof -
  have c: "c_str [114, 0 :: byte] = [114]" "c_str [112, 0 :: byte] = [112]" "c_str [47, 97, 0 :: byte] = [47, 97]"
    "0 \<notin> set (chars ''full'')"
    by (simp_all add: c_str_def chars_def)
  have m: "answered_client ex_refused [114, 0] [112, 0] 3 4 (answer_frame OP_CODE_CREATE_BOX_ANSWER (- 1) ''full'')"
    by (simp add: answered_client_def ex_refused_def c is_cstr_def)
  show ?thesis
    using manager_reports_answer [OF m, of OP_CODE_CREATE_BOX "[47, 97, 0]" "\<lambda>_ bs. bs" "arg ''m''"]
    by (simp add: c is_cstr_def wire_sizes manager_command_def ex_refused_def)
qed

section \<open>The interrupt signal\<close>

lemma length_digits: "length (digits n) \<le> Suc k \<longleftrightarrow> n < 10 ^ Suc k"
proof (induction k arbitrary: n)
  case 0
  have "digits (n div 10) \<noteq> []" by (subst digits.simps) simp
  then show ?case by (subst digits.simps) simp
next
  case (Suc k)
  show ?case
  proof (cases "n < 10")
    case True
    then have "n < 10 ^ Suc (Suc k)" using less_le_trans [of n 10 "10 ^ Suc (Suc k)"] by simp
    then show ?thesis using True by (subst digits.simps) simp
  next
    case False
    then have "length (digits n) \<le> Suc (Suc k) \<longleftrightarrow> length (digits (n div 10)) \<le> Suc k"
      by (subst digits.simps) simp
    also have "\<dots> \<longleftrightarrow> n div 10 < 10 ^ Suc k" by (rule Suc.IH)
    also have "\<dots> \<longleftrightarrow> n < 10 ^ Suc (Suc k)" by (simp add: div_less_iff_less_mult)
    finally show ?thesis .
  qed
qed

text \<open>C40: On the interrupt signal the subscriber closes its pipe, prints how many messages it
  has received and lets the signal take its course, as long as the number has at most three
  digits: its text is written into an array of the size of an int, and from 1000 messages
  on it is written past the end of it.\<close>

theorem sigint_reports_count:
  assumes "pipe_fd m \<in> set (open_fds m)" "0 \<le> message_count m"
  shows "sigint_handler SIGINT m = (if message_count m < 1000
    then Inr (True, m\<lparr>open_fds := remove1 (pipe_fd m) (open_fds m), console := console m @
      [Text ''Received SIGINT. Closing pipe and exiting...'', Text (''Received '' @ decimal (message_count m) @ '' messages'')]\<rparr>)
    else Inl Undef)"
proof -
  have "length (decimal (message_count m)) + 1 > 4 \<longleftrightarrow> \<not> length (digits (nat (message_count m))) \<le> Suc 2"
    using assms(2) by (auto simp: decimal_def)
  also have "\<dots> \<longleftrightarrow> \<not> message_count m < 1000" unfolding length_digits using assms(2) by auto
  finally have d: "length (decimal (message_count m)) + 1 > 4 \<longleftrightarrow> \<not> message_count m < 1000" .
  have cl: "sys_close (pipe_fd m) (m\<lparr>console := l\<rparr>) = Inr (0, m\<lparr>open_fds := remove1 (pipe_fd m) (open_fds m), console := l\<rparr>)" for l
    using assms(1) by (simp add: sys_close_def)
  show ?thesis
    using cl d by (simp add: sigint_handler_def prog_simps print_def)
qed

theorem sigint_reports_count_witness:
  "sigint_handler SIGINT (ex_refused\<lparr>open_fds := [0], message_count := 1000\<rparr>) = Inl Undef"
  using sigint_reports_count [of "ex_refused\<lparr>open_fds := [0], message_count := 1000\<rparr>"]
  by (simp add: ex_refused_def)

end
