(* ===== verification/SystemProps.thy ===== *)
theory SystemProps
  imports SessionProps ClientProps
begin

text \<open>
  A request from end to end: through the manager, the broker's pipe, the queue, a session
  and back.
\<close>

text \<open>A session's turn on a create request is the handler, on the session as it is then filled in.\<close>

lemma create_turn:
  assumes "pcq_ok (pc_queue s)" "pcq_items (pc_queue s) = rq # rest" "request_ok rq" "rq_opcode rq = OP_CODE_CREATE_BOX"
    and "clients s = Some cls" "c < length cls"
    and "wp (handle_tfs_create_box null c) (\<lambda>r s'. r = 0 \<and> Q s') (s\<lparr>pc_queue := popped_queue (pc_queue s),
      clients := Some (cls[c := (cls ! c)\<lparr>cl_opcode := OP_CODE_CREATE_BOX, cl_pipename := rq_pipename rq,
        cl_box_name := rq_box_name rq\<rparr>])\<rparr>)"
  shows "wp (session_turn fuel junk big_junk null c) (\<lambda>r s'. r = Returns 0 \<and> Q s') s"
proof -
  note rq = assms(3) [unfolded request_ok_def]
  from assms(7) obtain s' where h: "handle_tfs_create_box null c (s\<lparr>pc_queue := popped_queue (pc_queue s),
      clients := Some (cls[c := (cls ! c)\<lparr>cl_opcode := OP_CODE_CREATE_BOX, cl_pipename := rq_pipename rq,
        cl_box_name := rq_box_name rq\<rparr>])\<rparr>) = Inr (0, s')" "Q s'"
    by (auto simp: wp_iff)
  have "session_turn fuel junk big_junk null c s = Inr (Returns 0, s')"
    using assms(4-6) rq dequeue_request [OF assms(1,2)] h(1)
    by (simp add: session_turn_def prog_simps mb_simps in_queue_def zoom_def op_codes)
  then show ?thesis using h(2) by (simp add: wp_def)
qed

text \<open>The request of a client, between the broker's pipe and a session.\<close>

lemma request_of_ok:
  assumes "short_names pipe box"
  shows "request_ok (request_of junk OP_CODE_CREATE_BOX pipe box)"
    and "rq_box_name (request_of junk OP_CODE_CREATE_BOX pipe box) = field (BOX_NAME_LENGTH + 1) box"
    and "rq_pipename (request_of junk OP_CODE_CREATE_BOX pipe box) = field (CLIENT_NAMED_PIPE_PATH_LENGTH + 1) pipe"
    and "rq_opcode (request_of junk OP_CODE_CREATE_BOX pipe box) = OP_CODE_CREATE_BOX"
  using assms by (simp_all add: request_ok_def request_of_def short_names_def is_cstr_field op_codes)

text \<open>A broker with nothing in its queue that can take a create request for a new box, and
  the session that gets it; the pipe of the manager opens as \<open>fd\<close>.\<close>

definition ready_to_create :: "broker \<Rightarrow> client_t list \<Rightarrow> nat \<Rightarrow> byte list \<Rightarrow> byte list \<Rightarrow> int \<Rightarrow> int list \<Rightarrow> bool" where
  "ready_to_create s cls c pipe box fd later \<longleftrightarrow> listening s \<and> pcq_items (pc_queue s) = [] \<and> 0 < pcq_cap (pc_queue s) \<and>
     clients s = Some cls \<and> c < length cls \<and> boxes_lock s = Unlocked \<and>
     opens s pipe = fd # later \<and> 0 \<le> fd \<and> accepts s fd = [] \<and>
     boxes_ok s \<and> num_boxes s < int MAX_BOXES \<and> box_table s box = None \<and>
     room_for (tfs s) (field (BOX_NAME_LENGTH + 1) box) \<and>
     a_names (afs_of (tfs s)) (fname (field (BOX_NAME_LENGTH + 1) box)) = None"

lemma create_request_handled:
  assumes "ready_to_create s cls c pipe box fd later" "short_names pipe box"
    and "inbox s (server_pipe s) = arrived (request_bytes OP_CODE_CREATE_BOX pipe box) []"
  shows "wp (bind (accept_requests (\<lambda>i. Some (junk i)) 2) (\<lambda>_. session_turn fuel buf big_buf False c)) (\<lambda>r s'.
    r = Returns 0 \<and> boxes_ok s' \<and> box_table s' = (box_table s)(box \<mapsto> (0, 0, 0)) \<and>
    outbox s' fd = outbox s fd @ answer_frame OP_CODE_CREATE_BOX_ANSWER 0 '''' \<and>
    file_of (tfs s') (field (BOX_NAME_LENGTH + 1) box) = Some []) s"
  unfolding wp_bind
proof -
  note c = assms(1) [unfolded ready_to_create_def]
  let ?name = "field (BOX_NAME_LENGTH + 1) box" and ?pn = "field (CLIENT_NAMED_PIPE_PATH_LENGTH + 1) pipe"
  let ?rq = "request_of (junk 1) OP_CODE_CREATE_BOX pipe box"
  note rq = request_of_ok [OF assms(2), of "junk 1"]
  let ?rs = "[(OP_CODE_CREATE_BOX, pipe, box)]"
  have cs: "c_str ?name = box" "c_str ?pn = pipe" "is_cstr ?name" "is_cstr ?pn" "length ?name = BOX_NAME_LENGTH + 1"
    using assms(2) by (simp_all add: short_names_def c_str_field is_cstr_field)
  have v: "list_all valid_request ?rs" using assms(2) by (simp add: valid_request_def op_codes)
  have i: "inbox s (server_pipe s) = arrived (requests_bytes ?rs) []" using assms(3) by (simp add: requests_bytes_def)
  have room: "length (pcq_items (pc_queue s)) + length ?rs \<le> pcq_cap (pc_queue s)" using c by simp
  have l: "listening s" using c by simp
  let ?Q = "\<lambda>s'. boxes_ok s' \<and> box_table s' = (box_table s)(box \<mapsto> (0, 0, 0)) \<and>
    outbox s' fd = outbox s fd @ answer_frame OP_CODE_CREATE_BOX_ANSWER 0 '''' \<and> file_of (tfs s') ?name = Some []"
  have turn: "wp (session_turn fuel buf big_buf False c) (\<lambda>r s'. r = Returns 0 \<and> ?Q s') s1"
    if q: "pcq_ok (pc_queue s1)" "pcq_items (pc_queue s1) = ?rq # []"
      and s1: "s1 = s\<lparr>inbox := (inbox s)(server_pipe s := []), pc_queue := pc_queue s1\<rparr>" for s1
  proof -
    have s1': "clients s1 = Some cls" "boxes_lock s1 = Unlocked" "opens s1 = opens s" "accepts s1 = accepts s"
      "tfs s1 = tfs s" "outbox s1 = outbox s" "boxes s1 = boxes s" "free_boxes s1 = free_boxes s" "num_boxes s1 = num_boxes s"
      using c by (subst s1, simp)+
    let ?cls = "cls[c := (cls ! c)\<lparr>cl_opcode := OP_CODE_CREATE_BOX, cl_pipename := ?pn, cl_box_name := ?name\<rparr>]"
    let ?s2 = "s1\<lparr>pc_queue := popped_queue (pc_queue s1), clients := Some ?cls\<rparr>"
    have m: "manager_session ?s2 ?cls c OP_CODE_CREATE_BOX fd later"
      using c cs by (simp add: manager_session_def s1')
    have ok: "boxes_ok ?s2" "box_table ?s2 = box_table s"
      using c boxes_ok_cong [of ?s2 s] box_table_cong [of ?s2 s] by (simp_all add: s1')
    have n: "num_boxes ?s2 < int MAX_BOXES" "room_for (tfs ?s2) (cl_box_name (?cls ! c))" "cl_box_name (?cls ! c) = ?name"
      using c by (simp_all add: s1')
    have "wp (handle_tfs_create_box False c) (\<lambda>r s'. r = 0 \<and> ?Q s') ?s2"
      by (rule wp_mono [OF create_answer [OF m ok(1) n(1,2)]])
        (use c cs ok(2) s1' in \<open>simp add: n(3) create_code_def del: afs_of_sel\<close>)
    moreover have "c < length cls" using c by simp
    ultimately show ?thesis by (intro create_turn [OF q rq(1,4) s1'(1), unfolded rq(2,3)])
  qed
  show "wp (accept_requests (\<lambda>i. Some (junk i)) 2) (\<lambda>_. wp (session_turn fuel buf big_buf False c)
      (\<lambda>r s'. r = Returns 0 \<and> ?Q s')) s"
    by (rule wp_mono [OF accept_requests_spec [OF l i v _ room]]) (use c turn in auto)
qed

text \<open>C1: A box is created from end to end. When the manager's command is create, what it writes
  to the broker's pipe goes through parser and the queue to a session, which adds the box
  and its empty file and writes an answer, the very one on which the manager prints OK and
  returns 0.\<close>

theorem create_end_to_end:
  assumes "answered_client m reg pipe rfd pfd (answer_frame OP_CODE_CREATE_BOX_ANSWER 0 '''')" "outbox m rfd = []"
    and "is_cstr box" "short_names (c_str pipe) (c_str box)"
    and "ready_to_create s cls c (c_str pipe) (c_str box) fd later"
  shows "wp (manager_main qsort False [prog, reg, pipe, arg ''create'', box]) (\<lambda>r m'. r = 0 \<and>
    console m' = console m @ [Text ''OK''] \<and>
    wp (bind (accept_requests (\<lambda>i. Some (junk i)) 2) (\<lambda>_. session_turn fuel buf big_buf False c)) (\<lambda>r s'.
      r = Returns 0 \<and> boxes_ok s' \<and> box_table s' = (box_table s)(c_str box \<mapsto> (0, 0, 0)) \<and>
      outbox s' fd = outbox s fd @ answer_frame OP_CODE_CREATE_BOX_ANSWER 0 '''' \<and>
      file_of (tfs s') (field (BOX_NAME_LENGTH + 1) (c_str box)) = Some [])
      (s\<lparr>inbox := (inbox s)(server_pipe s := arrived (outbox m' rfd) [])\<rparr>)) m"
proof -
  let ?frame = "request_bytes OP_CODE_CREATE_BOX (c_str pipe) (c_str box)"
  let ?s = "s\<lparr>inbox := (inbox s)(server_pipe s := arrived ?frame [])\<rparr>"
  have r: "ready_to_create ?s cls c (c_str pipe) (c_str box) fd later" "box_table ?s = box_table s"
    using assms(5) boxes_ok_cong [of ?s s] box_table_cong [of ?s s]
    by (simp_all add: ready_to_create_def listening_def)
  have h: "wp (bind (accept_requests (\<lambda>i. Some (junk i)) 2) (\<lambda>_. session_turn fuel buf big_buf False c)) (\<lambda>r s'.
      r = Returns 0 \<and> boxes_ok s' \<and> box_table s' = (box_table s)(c_str box \<mapsto> (0, 0, 0)) \<and>
      outbox s' fd = outbox s fd @ answer_frame OP_CODE_CREATE_BOX_ANSWER 0 '''' \<and>
      file_of (tfs s') (field (BOX_NAME_LENGTH + 1) (c_str box)) = Some []) ?s"
    using create_request_handled [OF r(1) assms(4), of junk fuel buf big_buf] r(2) by simp
  have len: "length (c_str pipe) \<le> CLIENT_NAMED_PIPE_PATH_LENGTH" "length (c_str box) \<le> BOX_NAME_LENGTH"
    using assms(4) by (simp_all add: short_names_def)
  have frame: "request_bytes OP_CODE_CREATE_BOX (c_str pipe) (c_str box) =
      OP_CODE_CREATE_BOX # field CLIENT_NAMED_PIPE_PATH_LENGTH (c_str pipe) @ field BOX_NAME_LENGTH (c_str box)"
    by (simp add: request_bytes_def op_codes)
  have "wp (manager_main qsort False [prog, reg, pipe, arg ''create'', box]) (\<lambda>r m'. r = 0 \<and>
      console m' = console m @ [Text ''OK''] \<and> outbox m' rfd = ?frame) m"
    using manager_answer [OF assms(1) _ assms(3) len, of OP_CODE_CREATE_BOX qsort prog] assms(2)
    by (simp add: manager_command_def int32_range_def chars_def frame)
  then show ?thesis
    by (rule wp_mono) (use h in simp)
qed

definition ex_accepted :: client_os where
  "ex_accepted = ex_refused\<lparr>inbox := (\<lambda>_. [])(4 := arrived (answer_frame OP_CODE_CREATE_BOX_ANSWER 0 '''') [])\<rparr>"

lemma ex_creator_ready: "ready_to_create ex_creator [idle_session, idle_session,
    idle_session\<lparr>cl_opcode := OP_CODE_CREATE_BOX, cl_box_name := box_name_a\<rparr>] 2 [112] [47, 97] 7 []"
proof -
  have "pcq_ok ex_queue" "pcq_items ex_queue = []" "pcq_cap ex_queue = 3"
    by (simp_all add: ex_queue_def pcq_ok_def pcq_items_def pcq_cap_def)
  then have "listening ex_creator" "pcq_items (pc_queue ex_creator) = []" "0 < pcq_cap (pc_queue ex_creator)"
    by (simp_all add: listening_def ex_creator_def ex_broker_def)
  moreover have "room_for (tfs ex_creator) (field (BOX_NAME_LENGTH + 1) [47, 97])"
    "a_names (afs_of (tfs ex_creator)) (fname (field (BOX_NAME_LENGTH + 1) [47, 97])) = None"
    unfolding box_name_a_def [symmetric] using ex_creator_room bx1_inv(2)
    by (simp_all add: ex_creator_def a_empty_def del: afs_of_sel)
  ultimately show ?thesis
    using ex_creator_ok by (simp add: ready_to_create_def ex_creator_def ex_broker_sel MAX_BOXES_def del: afs_of_sel)
qed

theorem create_end_to_end_witness:
  "wp (manager_main (\<lambda>_ bs. bs) False [arg ''m'', [114, 0], [112, 0], arg ''create'', [47, 97, 0]]) (\<lambda>r m'. r = 0 \<and>
    console m' = [Text ''OK''] \<and>
    wp (bind (accept_requests (\<lambda>_. Some wire_request) 2) (\<lambda>_. session_turn 1 [] [] False 2)) (\<lambda>r s'.
      r = Returns 0 \<and> box_table s' = [[47, 97] \<mapsto> (0, 0, 0)] \<and>
      outbox s' 7 = answer_frame OP_CODE_CREATE_BOX_ANSWER 0 '''')
      (ex_creator\<lparr>inbox := (inbox ex_creator)(3 := arrived (outbox m' 3) [])\<rparr>)) ex_accepted"
proof -
  have c: "c_str [114, 0 :: byte] = [114]" "c_str [112, 0 :: byte] = [112]" "c_str [47, 97, 0 :: byte] = [47, 97]"
    by (simp_all add: c_str_def)
  have m: "answered_client ex_accepted [114, 0] [112, 0] 3 4 (answer_frame OP_CODE_CREATE_BOX_ANSWER 0 '''')"
    "outbox ex_accepted 3 = []" "console ex_accepted = []"
    by (simp_all add: answered_client_def ex_accepted_def ex_refused_def c is_cstr_def)
  have s: "server_pipe ex_creator = 3" "outbox ex_creator 7 = []"
    by (simp_all add: ex_creator_def ex_broker_def)
  have names: "is_cstr [47, 97, 0 :: byte]" "short_names (c_str [112, 0]) (c_str [47, 97, 0])"
    by (simp_all add: is_cstr_def c short_names_def wire_sizes)
  note ready = ex_creator_ready [folded c(2,3)]
  show ?thesis
    by (rule wp_mono [OF create_end_to_end [OF m(1,2) names ready, of "\<lambda>_ bs. bs" "arg ''m''" "\<lambda>_. wire_request" 1 "[]" "[]"]])
      (auto elim!: wp_mono simp: m(3) s c(3) ex_creator_ok(2))
qed

end
